(* ===== verification/Prelude.thy ===== *)
theory Prelude
  imports Main "HOL-Library.Word" "HOL-Library.Signed_Division"
begin

text \<open>
  Shared by every theory of the development: the machine integers of the C code and
  their little-endian memory image, memory blocks as byte lists, and the outcome of a
  C statement together with the combinators the models are written in.

  An outcome says how a call ends. \<open>Ok\<close> is a normal return with the value and the new
  state; \<open>Elog\<close> is a \<open>lprintf(ERROR, ...)\<close>, which in the backend is \<open>elog\<close> and leaves
  by \<open>longjmp\<close>, so no statement after it runs; \<open>Blocked\<close> is a call that still waits in
  \<open>recv\<close> when the script of the environment ends; \<open>Stuck\<close> is a step the C standard gives
  no meaning to (or a failed \<open>assert\<close>), with the reason.
\<close>

unbundle bit_operations_syntax

section \<open>Machine integers and their bytes\<close>

type_synonym byte = "8 word"
type_synonym i16 = "16 word"
type_synonym i32 = "32 word"
type_synonym i64 = "64 word"

text \<open>
  \<open>(char*)&x\<close> on the little-endian hosts the extension runs on: the \<open>n\<close> low bytes of a
  word, least significant first, and the word a block of bytes holds.
\<close>

definition le_bytes :: "nat \<Rightarrow> 'a::len word \<Rightarrow> byte list" where
  "le_bytes n w = map (\<lambda>i. ucast (drop_bit (8 * i) w)) [0..<n]"

fun le_word :: "byte list \<Rightarrow> 'a::len word" where
  "le_word [] = 0"
| "le_word (b # bs) = ucast b OR push_bit 8 (le_word bs)"

lemma length_le_bytes [simp]: "length (le_bytes n w) = n"
  by (simp add: le_bytes_def)

lemma bit_le_word:
  "bit (le_word bs :: 'a::len word) k \<longleftrightarrow>
     k < LENGTH('a) \<and> k div 8 < length bs \<and> bit (bs ! (k div 8)) (k mod 8)"
proof (induction bs arbitrary: k)
  case Nil
  then show ?case by simp
next
  case (Cons b bs)
  show ?case
  proof (cases "k < 8")
    case True
    then show ?thesis
      by (auto simp: bit_or_iff bit_push_bit_iff bit_ucast_iff)
  next
    case False
    then have "k div 8 = Suc ((k - 8) div 8)" and "(k - 8) mod 8 = k mod 8"
      by (simp_all add: le_div_geq le_mod_geq)
    moreover have "\<not> bit b k"
      using False bit_imp_le_length [of b k] by auto
    ultimately show ?thesis
      using False Cons.IH [of "k - 8"]
      by (auto simp: bit_or_iff bit_push_bit_iff bit_ucast_iff)
  qed
qed

lemma le_word_le_bytes [simp]:
  fixes w :: "'a::len word"
  assumes "LENGTH('a) \<le> 8 * n"
  shows "le_word (le_bytes n w) = w"
proof (rule bit_word_eqI)
  fix k
  assume k: "k < LENGTH('a)"
  with assms have "k div 8 < n" by (simp add: less_mult_imp_div_less mult.commute)
  with k show "bit (le_word (le_bytes n w) :: 'a word) k \<longleftrightarrow> bit w k"
    by (simp add: bit_le_word le_bytes_def bit_ucast_iff bit_drop_bit_eq)
qed

lemma le_bytes_le_word:
  assumes "length bs = n" and "8 * n \<le> LENGTH('a)"
  shows "le_bytes n (le_word bs :: 'a::len word) = bs"
proof (rule nth_equalityI)
  show "length (le_bytes n (le_word bs :: 'a word)) = length bs"
    using assms by simp
  fix i
  assume "i < length (le_bytes n (le_word bs :: 'a word))"
  then have i: "i < n" by simp
  show "le_bytes n (le_word bs :: 'a word) ! i = bs ! i"
  proof (rule bit_word_eqI)
    fix k
    assume k: "k < LENGTH(8)"
    then have k8: "k < 8" by simp
    have "8 * i + k < LENGTH('a)"
      using assms(2) i k8 by linarith
    moreover have "(8 * i + k) div 8 = i" and "(8 * i + k) mod 8 = k"
      using k8 by simp_all
    ultimately show "bit (le_bytes n (le_word bs :: 'a word) ! i) k \<longleftrightarrow> bit (bs ! i) k"
      using i k8 assms(1)
      by (simp add: le_bytes_def bit_ucast_iff bit_drop_bit_eq bit_le_word)
  qed
qed

text \<open>The interface the channel relies on: a value and its fixed-width memory image.\<close>

locale fixed_codec =
  fixes enc :: "'a \<Rightarrow> byte list" and dec :: "byte list \<Rightarrow> 'a" and width :: nat
  assumes dec_enc: "dec (enc x) = x"
    and length_enc: "length (enc x) = width"
begin

lemma dec_take_enc: "dec (take width (enc x @ rest)) = x"
  by (simp add: length_enc dec_enc)

lemma drop_enc: "drop width (enc x @ rest) = rest"
  by (simp add: length_enc)

lemma enc_inject: "enc x @ r = enc y @ s \<longleftrightarrow> x = y \<and> r = s"
  using length_enc dec_enc by (metis append_eq_append_conv)

end

interpretation codec1: fixed_codec "\<lambda>w::byte. [w]" hd 1
  by unfold_locales auto

interpretation codec2: fixed_codec "le_bytes 2 :: i16 \<Rightarrow> byte list" le_word 2
  by unfold_locales auto

interpretation codec4: fixed_codec "le_bytes 4 :: i32 \<Rightarrow> byte list" le_word 4
  by unfold_locales auto

interpretation codec8: fixed_codec "le_bytes 8 :: i64 \<Rightarrow> byte list" le_word 8
  by unfold_locales auto

text \<open>
  C conversions: \<open>(int)n\<close> of a \<open>size_t\<close>, the \<open>size_t\<close> of an \<open>int\<close> (a negative one
  becomes huge), and the product of two \<open>size_t\<close>.
\<close>

definition INT_MAX :: int where "INT_MAX = 2147483647"

definition in_int :: "int \<Rightarrow> bool" where
  "in_int x \<longleftrightarrow> - INT_MAX - 1 \<le> x \<and> x \<le> INT_MAX"

definition int_of_size :: "nat \<Rightarrow> int" where
  "int_of_size n = sint (of_nat n :: i32)"

definition size_of_int :: "int \<Rightarrow> nat" where
  "size_of_int i = nat (i mod 18446744073709551616)"

definition size_mult :: "nat \<Rightarrow> nat \<Rightarrow> nat" where
  "size_mult a b = (a * b) mod 18446744073709551616"

lemma sint_of_nat_small: "n \<le> 2147483647 \<Longrightarrow> sint (of_nat n :: i32) = int n"
  by (simp add: sint_uint signed_take_bit_int_eq_self unsigned_of_nat take_bit_nat_eq_self
      take_bit_int_eq_self)

lemma int_of_size_small [simp]: "n \<le> 2147483647 \<Longrightarrow> int_of_size n = int n"
  by (simp add: int_of_size_def sint_of_nat_small)

lemma size_of_int_nonneg: "0 \<le> i \<Longrightarrow> i \<le> INT_MAX \<Longrightarrow> size_of_int i = nat i"
  by (simp add: size_of_int_def INT_MAX_def)

lemma size_of_int_neg: "i < 0 \<Longrightarrow> - INT_MAX - 1 \<le> i \<Longrightarrow> 4611686018427387904 < size_of_int i"
proof -
  assume i: "i < 0" "- INT_MAX - 1 \<le> i"
  then have "(i + 18446744073709551616) mod 18446744073709551616 = i + 18446744073709551616"
    unfolding INT_MAX_def by (intro mod_pos_pos_trivial) simp_all
  then have "i mod 18446744073709551616 = i + 18446744073709551616"
    by simp
  with i show ?thesis by (simp add: size_of_int_def INT_MAX_def)
qed

lemma sdiv_nonneg [simp]: "0 \<le> a \<Longrightarrow> 0 < b \<Longrightarrow> (a::int) sdiv b = a div b"
  by (cases "a = 0") (simp_all add: signed_divide_int_def)

section \<open>Memory blocks\<close>

text \<open>
  A block is the list of its bytes. \<open>mem_read\<close> and \<open>mem_write\<close> are \<open>memcpy\<close> out of and
  into a block, \<open>None\<close> where the access leaves it.
\<close>

definition mem_read :: "byte list \<Rightarrow> int \<Rightarrow> int \<Rightarrow> byte list option" where
  "mem_read d i n =
     (if 0 \<le> i \<and> 0 \<le> n \<and> i + n \<le> int (length d)
      then Some (take (nat n) (drop (nat i) d)) else None)"

definition mem_write :: "byte list \<Rightarrow> int \<Rightarrow> byte list \<Rightarrow> byte list option" where
  "mem_write d i bs =
     (if 0 \<le> i \<and> i + int (length bs) \<le> int (length d)
      then Some (take (nat i) d @ bs @ drop (nat i + length bs) d) else None)"

definition slice :: "int \<Rightarrow> int \<Rightarrow> 'a list \<Rightarrow> 'a list" where
  "slice i j xs = take (nat (j - i)) (drop (nat i) xs)"

lemma mem_read_slice:
  "0 \<le> i \<Longrightarrow> i \<le> j \<Longrightarrow> j \<le> int (length d) \<Longrightarrow> mem_read d i (j - i) = Some (slice i j d)"
  by (simp add: mem_read_def slice_def)

lemma length_mem_write: "mem_write d i bs = Some d' \<Longrightarrow> length d' = length d"
  by (auto simp: mem_write_def split: if_splits)

lemma length_slice:
  "0 \<le> i \<Longrightarrow> i \<le> j \<Longrightarrow> j \<le> int (length xs) \<Longrightarrow> length (slice i j xs) = nat (j - i)"
  by (simp add: slice_def)

lemma slice_empty [simp]: "j \<le> i \<Longrightarrow> slice i j xs = []"
  by (simp add: slice_def)

lemma slice_append_slice:
  assumes "0 \<le> i" "i \<le> j" "j \<le> k"
  shows "slice i j xs @ slice j k xs = slice i k xs"
proof -
  have "nat (k - i) = nat (j - i) + nat (k - j)" and "nat j = nat (j - i) + nat i"
    using assms by linarith+
  then show ?thesis
    unfolding slice_def by (simp only: take_add drop_drop)
qed

lemma take_slice:
  "0 \<le> n \<Longrightarrow> i + n \<le> j \<Longrightarrow> take (nat n) (slice i j xs) = slice i (i + n) xs"
  by (simp add: slice_def min_def)

lemma drop_slice:
  "0 \<le> i \<Longrightarrow> 0 \<le> n \<Longrightarrow> i + n \<le> j \<Longrightarrow> drop (nat n) (slice i j xs) = slice (i + n) j xs"
  by (simp add: slice_def drop_take nat_diff_distrib' nat_add_distrib ac_simps diff_diff_eq)

lemma slice_int: "slice (int i) (int j) xs = take (j - i) (drop i xs)"
proof -
  have "nat (int j - int i) = j - i" by linarith
  then show ?thesis by (simp only: slice_def nat_int)
qed

lemma mem_write_int:
  "mem_write d (int j) bs = Some d' \<longleftrightarrow>
     j + length bs \<le> length d \<and> d' = take j d @ bs @ drop (j + length bs) d"
  by (auto simp: mem_write_def)

lemma slice_mem_write:
  assumes w: "mem_write d j bs = Some d'" and "0 \<le> i" and "i \<le> j"
  shows "slice i (j + int (length bs)) d' = slice i j d @ bs"
proof -
  obtain a b where ij: "i = int a" "j = int b"
    using assms by (metis nonneg_int_cases order_trans)
  with assms have ab: "a \<le> b" "b + length bs \<le> length d"
    and d': "d' = take b d @ bs @ drop (b + length bs) d"
    by (simp_all add: mem_write_int)
  have "slice i (j + int (length bs)) d' = take (b + length bs - a) (drop a d')"
    by (metis ij of_nat_add slice_int)
  also have "\<dots> = take (b - a) (drop a d) @ bs"
    using ab by (simp add: d' min_absorb2 drop_take add_diff_assoc2)
  finally show ?thesis by (simp only: ij slice_int)
qed

lemma slice_mem_write_disjoint:
  assumes w: "mem_write d j bs = Some d'" and "0 \<le> i" and "i \<le> k" and "k \<le> j"
  shows "slice i k d' = slice i k d"
proof -
  obtain a b c where "i = int a" "k = int b" "j = int c"
    using assms by (metis nonneg_int_cases order_trans)
  with assms have abc: "a \<le> b" "b \<le> c" "c + length bs \<le> length d"
    and d': "d' = take c d @ bs @ drop (c + length bs) d"
    by (simp_all add: mem_write_int)
  have "take b d' = take b d"
    using abc by (simp add: d' min_absorb1)
  then have "take (b - a) (drop a d') = take (b - a) (drop a d)"
    by (metis drop_take)
  with \<open>i = int a\<close> \<open>k = int b\<close> show ?thesis by (simp only: slice_int)
qed

lemma mem_write_Some:
  "0 \<le> i \<Longrightarrow> i + int (length bs) \<le> int (length d) \<Longrightarrow> \<exists>d'. mem_write d i bs = Some d'"
  by (simp add: mem_write_def)

section \<open>Outcomes of C statements\<close>

datatype ub =
    Uninit        \<comment> \<open>an object or pointer that was never written is read\<close>
  | NullDeref     \<comment> \<open>a NULL pointer is dereferenced\<close>
  | OutOfBounds   \<comment> \<open>an access outside its block\<close>
  | IntOverflow   \<comment> \<open>signed overflow\<close>
  | StackOverflow \<comment> \<open>recursion deeper than the C stack\<close>
  | AssertFail    \<comment> \<open>a failed \<open>assert\<close>\<close>
  | Overlap       \<comment> \<open>\<open>memcpy\<close> between overlapping regions\<close>
  | BadShape      \<comment> \<open>a value read through a pointer of another type\<close>
  | UseAfterFree  \<comment> \<open>an access through a pointer that was freed\<close>

datatype elog =
    E_alloc nat                   \<comment> \<open>\<open>palloc\<close> refuses a request of this size\<close>
  | E_interrupted                 \<comment> \<open>terminated by user request (\<open>EINTR\<close>)\<close>
  | E_unhandled_message i16
  | E_message_type_unknown byte
  | E_unsupported_argument int
  | E_type_length int
  | E_should_not_get_here
  | E_unhandled_sql i32
  | E_receiving int
  | E_first_message
  | E_send_ping
  | E_unknown_message
  | E_client "8 word list option" "8 word list option"
      \<comment> \<open>an exception of the executor: its message and stack trace\<close>
  | E_report int "8 word list option"  \<comment> \<open>a log message of the executor of level \<open>ERROR\<close> or above\<close>
  | E_fatal string                \<comment> \<open>\<open>elog(FATAL, ...)\<close>: the process ends, no handler runs\<close>
  | E_msg string                  \<comment> \<open>any other \<open>ereport\<close> of the backend, by its text\<close>

datatype ('s, 'a) outcome = Ok 'a 's | Elog elog 's | Blocked 's | Stuck ub

type_synonym ('s, 'a) prog = "'s \<Rightarrow> ('s, 'a) outcome"

named_theorems prog_simps "unfolding of the statement combinators"

definition returnM :: "'a \<Rightarrow> ('s, 'a) prog" where
  [prog_simps]: "returnM x = (\<lambda>s. Ok x s)"

definition bindM :: "('s, 'a) prog \<Rightarrow> ('a \<Rightarrow> ('s, 'b) prog) \<Rightarrow> ('s, 'b) prog" where
  [prog_simps]: "bindM m f = (\<lambda>s. case m s of
      Ok x t \<Rightarrow> f x t | Elog e t \<Rightarrow> Elog e t | Blocked t \<Rightarrow> Blocked t | Stuck u \<Rightarrow> Stuck u)"

definition elogM :: "elog \<Rightarrow> ('s, 'a) prog" where
  [prog_simps]: "elogM e = (\<lambda>s. Elog e s)"

definition stuckM :: "ub \<Rightarrow> ('s, 'a) prog" where
  [prog_simps]: "stuckM u = (\<lambda>s. Stuck u)"

definition checkM :: "ub \<Rightarrow> bool \<Rightarrow> ('s, unit) prog" where
  [prog_simps]: "checkM u b = (if b then returnM () else stuckM u)"

definition needM :: "ub \<Rightarrow> 'a option \<Rightarrow> ('s, 'a) prog" where
  [prog_simps]: "needM u x = (case x of None \<Rightarrow> stuckM u | Some y \<Rightarrow> returnM y)"

definition intM :: "int \<Rightarrow> ('s, int) prog" where
  [prog_simps]: "intM x = (if in_int x then returnM x else stuckM IntOverflow)"

text \<open>\<open>res |= f(...)\<close>\<close>

definition orM :: "int \<Rightarrow> ('s, int) prog \<Rightarrow> ('s, int) prog" where
  [prog_simps]: "orM res m = bindM m (\<lambda>r. returnM (res OR r))"

lemma bindM_cong [fundef_cong]:
  assumes "m s = m' s'" and "\<And>x t. m' s' = Ok x t \<Longrightarrow> f x t = f' x t" and "s = s'"
  shows "bindM m f s = bindM m' f' s'"
  using assms by (auto simp: bindM_def split: outcome.splits)

lemma bindM_assoc: "bindM (bindM m f) g = bindM m (\<lambda>x. bindM (f x) g)"
  by (auto simp: bindM_def fun_eq_iff split: outcome.splits)

lemma bindM_return [simp]: "bindM (returnM x) f = f x" "bindM m returnM = m"
  by (auto simp: prog_simps fun_eq_iff split: outcome.splits)

lemma bindM_Ok_iff: "bindM m f s = Ok y u \<longleftrightarrow> (\<exists>x t. m s = Ok x t \<and> f x t = Ok y u)"
  by (auto simp: bindM_def split: outcome.splits)

lemma returnM_Ok_iff [simp]: "returnM x s = Ok y t \<longleftrightarrow> x = y \<and> s = t"
  by (auto simp: returnM_def)

lemma orM_Ok_iff: "orM res m s = Ok r t \<longleftrightarrow> (\<exists>r'. m s = Ok r' t \<and> r = res OR r')"
  by (auto simp: orM_def bindM_Ok_iff)

section \<open>Loops\<close>

text \<open>
  \<open>each\<close> is \<open>for (i = 0; i < n; i++) res |= f(&xs[i])\<close> (its arguments: \<open>res\<close>, \<open>f\<close>, \<open>n\<close>, \<open>xs\<close>) and \<open>each0\<close> the same loop with
  \<open>&& res == 0\<close> in its condition. An index past the end of the array is \<open>OutOfBounds\<close>.
\<close>

fun each :: "int \<Rightarrow> ('x \<Rightarrow> ('s, int) prog) \<Rightarrow> nat \<Rightarrow> 'x list \<Rightarrow> ('s, int) prog" where
  "each res f 0 xs = returnM res"
| "each res f (Suc n) [] = stuckM OutOfBounds"
| "each res f (Suc n) (x # xs) = bindM (orM res (f x)) (\<lambda>res. each res f n xs)"

fun each0 :: "int \<Rightarrow> ('x \<Rightarrow> ('s, int) prog) \<Rightarrow> nat \<Rightarrow> 'x list \<Rightarrow> ('s, int) prog" where
  "each0 res f 0 xs = returnM res"
| "each0 res f (Suc n) [] = (if res = 0 then stuckM OutOfBounds else returnM res)"
| "each0 res f (Suc n) (x # xs) =
     (if res = 0 then bindM (orM res (f x)) (\<lambda>res. each0 res f n xs) else returnM res)"

lemma each_cong [fundef_cong]:
  assumes "\<And>x. x \<in> set xs' \<Longrightarrow> f x = f' x" and "n = n'" and "xs = xs'" and "res = res'"
  shows "each res f n xs = each res' f' n' xs'"
proof -
  have "(\<And>x. x \<in> set xs \<Longrightarrow> f x = f' x) \<Longrightarrow> each res f n xs = each res f' n xs" for n xs res
  proof (induction n arbitrary: xs res)
    case (Suc n)
    show ?case
    proof (cases xs)
      case (Cons y ys)
      with Suc.prems have "(\<lambda>res. each res f n ys) = (\<lambda>res. each res f' n ys)" and "f y = f' y"
        by (auto intro!: ext [of "\<lambda>res. each res f n ys"] Suc.IH)
      with Cons show ?thesis by simp
    qed simp
  qed simp
  with assms show ?thesis by simp
qed

lemma each0_cong [fundef_cong]:
  assumes "\<And>x. x \<in> set xs' \<Longrightarrow> f x = f' x" and "n = n'" and "xs = xs'" and "res = res'"
  shows "each0 res f n xs = each0 res' f' n' xs'"
proof -
  have "(\<And>x. x \<in> set xs \<Longrightarrow> f x = f' x) \<Longrightarrow> each0 res f n xs = each0 res f' n xs" for n xs res
  proof (induction n arbitrary: xs res)
    case (Suc n)
    show ?case
    proof (cases xs)
      case (Cons y ys)
      with Suc.prems have "(\<lambda>res. each0 res f n ys) = (\<lambda>res. each0 res f' n ys)" and "f y = f' y"
        by (auto intro!: ext [of "\<lambda>res. each0 res f n ys"] Suc.IH)
      with Cons show ?thesis by simp
    qed simp
  qed simp
  with assms show ?thesis by simp
qed

text \<open>
  The same loops on the receiving side: the body also fills the cell \<open>i\<close> of an array. The
  cells filled so far come back in order; a body that fails leaves its cell unwritten.
\<close>

fun gather :: "int \<Rightarrow> ('x \<Rightarrow> ('s, int \<times> 'y option) prog) \<Rightarrow> nat \<Rightarrow> 'x list
    \<Rightarrow> ('s, int \<times> 'y list) prog" where
  "gather res f 0 xs = returnM (res, [])"
| "gather res f (Suc n) [] = stuckM OutOfBounds"
| "gather res f (Suc n) (x # xs) =
     bindM (f x) (\<lambda>(r, y). bindM (gather (res OR r) f n xs) (\<lambda>(res', ys).
       returnM (res', case y of None \<Rightarrow> ys | Some y \<Rightarrow> y # ys)))"

fun gather0 :: "int \<Rightarrow> ('x \<Rightarrow> ('s, int \<times> 'y option) prog) \<Rightarrow> nat \<Rightarrow> 'x list
    \<Rightarrow> ('s, int \<times> 'y list) prog" where
  "gather0 res f 0 xs = returnM (res, [])"
| "gather0 res f (Suc n) [] = (if res = 0 then stuckM OutOfBounds else returnM (res, []))"
| "gather0 res f (Suc n) (x # xs) =
     (if res = 0 then
        bindM (f x) (\<lambda>(r, y). bindM (gather0 (res OR r) f n xs) (\<lambda>(res', ys).
          returnM (res', case y of None \<Rightarrow> ys | Some y \<Rightarrow> y # ys)))
      else returnM (res, []))"

lemma gather_cong [fundef_cong]:
  assumes "\<And>x. x \<in> set xs' \<Longrightarrow> f x = f' x" and "n = n'" and "xs = xs'" and "res = res'"
  shows "gather res f n xs = gather res' f' n' xs'"
proof -
  have "(\<And>x. x \<in> set xs \<Longrightarrow> f x = f' x) \<Longrightarrow> gather res f n xs = gather res f' n xs" for n xs res
  proof (induction n arbitrary: xs res)
    case (Suc n)
    then show ?case
      by (cases xs) (simp_all add: bindM_def)
  qed simp
  with assms show ?thesis by simp
qed

lemma gather0_cong [fundef_cong]:
  assumes "\<And>x. x \<in> set xs' \<Longrightarrow> f x = f' x" and "n = n'" and "xs = xs'" and "res = res'"
  shows "gather0 res f n xs = gather0 res' f' n' xs'"
proof -
  have "(\<And>x. x \<in> set xs \<Longrightarrow> f x = f' x) \<Longrightarrow> gather0 res f n xs = gather0 res f' n xs" for n xs res
  proof (induction n arbitrary: xs res)
    case (Suc n)
    then show ?case
      by (cases xs) (simp_all add: bindM_def)
  qed simp
  with assms show ?thesis by simp
qed

text \<open>
  Loops that do not combine result codes: \<open>mapM\<close> fills an array from another one, \<open>allM\<close> is
  \<open>for (...; i < n && valid; i++) valid = f(...)\<close>.
\<close>

fun mapM :: "('x \<Rightarrow> ('s, 'y) prog) \<Rightarrow> 'x list \<Rightarrow> ('s, 'y list) prog" where
  "mapM f [] = returnM []"
| "mapM f (x # xs) = bindM (f x) (\<lambda>y. bindM (mapM f xs) (\<lambda>ys. returnM (y # ys)))"

fun allM :: "('x \<Rightarrow> ('s, bool) prog) \<Rightarrow> 'x list \<Rightarrow> ('s, bool) prog" where
  "allM f [] = returnM True"
| "allM f (x # xs) = bindM (f x) (\<lambda>valid. if valid then allM f xs else returnM False)"

text \<open>\<open>for (i = 0; i < n; i++) f(&xs[i])\<close> for a body without a result.\<close>

fun traverse :: "nat \<Rightarrow> 'x list \<Rightarrow> ('x \<Rightarrow> ('s, unit) prog) \<Rightarrow> ('s, unit) prog" where
  "traverse 0 xs f = returnM ()"
| "traverse (Suc n) [] f = stuckM OutOfBounds"
| "traverse (Suc n) (x # xs) f = bindM (f x) (\<lambda>_. traverse n xs f)"

lemma traverse_cong [fundef_cong]:
  "n = n' \<Longrightarrow> xs = xs' \<Longrightarrow> (\<And>x. x \<in> set xs' \<Longrightarrow> f x = f' x) \<Longrightarrow> traverse n xs f = traverse n' xs' f'"
proof (induction n xs f arbitrary: n' xs' rule: traverse.induct)
  case (3 n x xs f)
  then have "traverse n xs f = traverse n xs f'" by auto
  with 3 show ?case by auto
qed auto

lemma traverse_skip: "n \<le> length xs \<Longrightarrow> (\<And>x. x \<in> set xs \<Longrightarrow> f x = returnM ()) \<Longrightarrow> traverse n xs f = returnM ()"
  by (induction n xs f rule: traverse.induct) (auto simp: prog_simps)

lemma mapM_cong [fundef_cong]:
  "(\<And>x. x \<in> set xs' \<Longrightarrow> f x = f' x) \<Longrightarrow> xs = xs' \<Longrightarrow> mapM f xs = mapM f' xs'"
  by (induction xs arbitrary: xs') auto

lemma allM_cong [fundef_cong]:
  "(\<And>x. x \<in> set xs' \<Longrightarrow> f x = f' x) \<Longrightarrow> xs = xs' \<Longrightarrow> allM f xs = allM f' xs'"
  by (induction xs arbitrary: xs') (auto cong: if_cong)

lemma mapM_Ok:
  assumes "\<And>x y s t. x \<in> set xs \<Longrightarrow> f x s = Ok y t \<Longrightarrow> P x y \<and> t = s" and "mapM f xs s = Ok ys t"
  shows "list_all2 P xs ys \<and> t = s"
  using assms by (induction xs arbitrary: s ys) (force simp: bindM_Ok_iff)+

lemma mapM_run:
  assumes "\<And>x. x \<in> set xs \<Longrightarrow> f x s = Ok (g x) s"
  shows "mapM f xs s = Ok (map g xs) s"
  using assms by (induction xs) (simp_all add: prog_simps)

lemma mapM_exists:
  assumes "\<forall>x \<in> set xs. \<exists>y. f x s = Ok y s \<and> P x y"
  shows "\<exists>ys. mapM f xs s = Ok ys s \<and> list_all2 P xs ys"
  using assms
proof (induction xs)
  case (Cons x xs)
  then obtain y ys where "f x s = Ok y s" "P x y" "mapM f xs s = Ok ys s" "list_all2 P xs ys" by auto
  then show ?case by (intro exI [of _ "y # ys"]) (simp add: prog_simps)
qed (simp add: prog_simps)

section \<open>Postconditions of outcomes\<close>

text \<open>
  \<open>ensures o Q E B\<close>: the outcome is not \<open>Stuck\<close>, a normal return satisfies \<open>Q\<close>, a raised
  error \<open>E\<close>, and a call that still waits \<open>B\<close>.
\<close>

fun ensures :: "('s, 'a) outcome \<Rightarrow> ('a \<Rightarrow> 's \<Rightarrow> bool) \<Rightarrow> (elog \<Rightarrow> 's \<Rightarrow> bool)
    \<Rightarrow> ('s \<Rightarrow> bool) \<Rightarrow> bool" where
  "ensures (Ok x t) Q E B = Q x t"
| "ensures (Elog e t) Q E B = E e t"
| "ensures (Blocked t) Q E B = B t"
| "ensures (Stuck u) Q E B = False"

lemma ensures_bindM:
  assumes "ensures (m s) Q' E B" and "\<And>x t. Q' x t \<Longrightarrow> ensures (f x t) Q E B"
  shows "ensures (bindM m f s) Q E B"
  using assms by (cases "m s") (auto simp: bindM_def)

lemma ensures_mono:
  assumes "ensures r Q E B" and "\<And>x t. Q x t \<Longrightarrow> Q' x t" and "\<And>e t. E e t \<Longrightarrow> E' e t"
    and "\<And>t. B t \<Longrightarrow> B' t"
  shows "ensures r Q' E' B'"
  using assms by (cases r) auto

lemma ensures_return [simp]: "ensures (returnM x s) Q E B = Q x s"
  by (simp add: returnM_def)

lemma ensures_elogM [simp]: "ensures (elogM e s) Q E B = E e s"
  by (simp add: elogM_def)

lemma bindM_checkM [simp]: "b \<Longrightarrow> bindM (checkM u b) f = f ()"
  by (simp add: checkM_def)

lemma bindM_needM [simp]: "bindM (needM u (Some x)) f = f x"
  by (simp add: needM_def)

lemma bindM_intM [simp]: "in_int x \<Longrightarrow> bindM (intM x) f = f x"
  by (simp add: intM_def)

lemma bindM_Ok [simp]: "m s = Ok x t \<Longrightarrow> bindM m f s = f x t"
  by (simp add: bindM_def)

lemma bindM_Elog [simp]: "m s = Elog e t \<Longrightarrow> bindM m f s = Elog e t"
  by (simp add: bindM_def)

lemma bindM_Blocked [simp]: "m s = Blocked t \<Longrightarrow> bindM m f s = Blocked t"
  by (simp add: bindM_def)

lemma bindM_Stuck [simp]: "m s = Stuck u \<Longrightarrow> bindM m f s = Stuck u"
  by (simp add: bindM_def)

section \<open>Programs that leave the state alone\<close>

text \<open>
  \<open>quiet m P\<close>: the program returns a value with \<open>P\<close> or raises, in the state it was called in;
  it never waits and is never \<open>Stuck\<close>.
\<close>

named_theorems quiet_intros "rules for quiet programs"

definition quiet :: "('s, 'a) prog \<Rightarrow> ('a \<Rightarrow> bool) \<Rightarrow> bool" where
  "quiet m P \<longleftrightarrow> (\<forall>s. ensures (m s) (\<lambda>x t. t = s \<and> P x) (\<lambda>e t. t = s) (\<lambda>t. False))"

lemma quietD: "quiet m P \<Longrightarrow> ensures (m s) (\<lambda>x t. t = s \<and> P x) (\<lambda>e t. t = s) (\<lambda>t. False)"
  by (simp add: quiet_def)

lemma quiet_return [quiet_intros]: "P x \<Longrightarrow> quiet (returnM x) P"
  by (simp add: quiet_def)

lemma quiet_elog [quiet_intros]: "quiet (elogM e) P"
  by (simp add: quiet_def)

lemma quiet_bind:
  assumes "quiet m P" and "\<And>x. P x \<Longrightarrow> quiet (f x) Q"
  shows "quiet (bindM m f) Q"
  unfolding quiet_def
proof
  fix s
  show "ensures (bindM m f s) (\<lambda>x t. t = s \<and> Q x) (\<lambda>e t. t = s) (\<lambda>t. False)"
    by (rule ensures_bindM [OF quietD [OF assms(1)]]) (use quietD [OF assms(2)] in blast)
qed

lemma quiet_bind_any [quiet_intros]:
  "quiet m (\<lambda>_. True) \<Longrightarrow> (\<And>x. quiet (f x) Q) \<Longrightarrow> quiet (bindM m f) Q"
  by (rule quiet_bind)

lemma quiet_mono: "quiet m P \<Longrightarrow> (\<And>x. P x \<Longrightarrow> Q x) \<Longrightarrow> quiet m Q"
  unfolding quiet_def by (auto intro: ensures_mono)

lemma quiet_strengthen:
  assumes "quiet m (\<lambda>_. True)" and "\<And>s x t. m s = Ok x t \<Longrightarrow> P x"
  shows "quiet m P"
  unfolding quiet_def
proof
  fix s
  show "ensures (m s) (\<lambda>x t. t = s \<and> P x) (\<lambda>e t. t = s) (\<lambda>t. False)"
    using quietD [OF assms(1), of s] assms(2) by (cases "m s") auto
qed

lemma quiet_case_option [quiet_intros]:
  "(x = None \<Longrightarrow> quiet m P) \<Longrightarrow> (\<And>y. x = Some y \<Longrightarrow> quiet (f y) P)
    \<Longrightarrow> quiet (case x of None \<Rightarrow> m | Some y \<Rightarrow> f y) P"
  by (cases x) auto

lemma quiet_if [quiet_intros]:
  "(b \<Longrightarrow> quiet m P) \<Longrightarrow> (\<not> b \<Longrightarrow> quiet m' P) \<Longrightarrow> quiet (if b then m else m') P"
  by simp

lemma quiet_prod [quiet_intros]: "(\<And>x y. quiet (f x y) P) \<Longrightarrow> quiet (case z of (x, y) \<Rightarrow> f x y) P"
  by (cases z) auto

lemma quiet_mapM:
  "(\<And>x. x \<in> set xs \<Longrightarrow> quiet (f x) (P x)) \<Longrightarrow> quiet (mapM f xs) (list_all2 P xs)"
proof (induction xs)
  case (Cons x xs)
  then show ?case
    by (auto intro!: quiet_bind [where P = "P x"] quiet_bind [where P = "list_all2 P xs"] quiet_return)
qed (simp add: quiet_return)

lemma quiet_mapM_any [quiet_intros]:
  "(\<And>x. x \<in> set xs \<Longrightarrow> quiet (f x) (\<lambda>_. True)) \<Longrightarrow> quiet (mapM f xs) (\<lambda>_. True)"
  by (rule quiet_mono [OF quiet_mapM]) auto

lemma quiet_allM:
  "(\<And>x. x \<in> set xs \<Longrightarrow> quiet (f x) (\<lambda>b. b = P x)) \<Longrightarrow> quiet (allM f xs) (\<lambda>b. b = (\<forall>x \<in> set xs. P x))"
proof (induction xs)
  case (Cons x xs)
  then show ?case
    by (auto intro!: quiet_bind [where P = "\<lambda>b. b = P x"] quiet_return)
qed (simp add: quiet_return)

lemma allM_run: "(\<And>x. x \<in> set xs \<Longrightarrow> f x s = Ok True s) \<Longrightarrow> allM f xs s = Ok True s"
  by (induction xs) (simp_all add: returnM_def)

lemma quiet_Ok: "quiet m P \<Longrightarrow> m s = Ok x t \<Longrightarrow> t = s \<and> P x"
  using quietD [of m P s] by simp

section \<open>What a program keeps\<close>

text \<open>
  \<open>keeps I m J E\<close>: from a state with \<open>I\<close> the program ends, when it ends at all, in one with \<open>J\<close>, or raises in one with
  \<open>E\<close>. Nothing is said when it is \<open>Stuck\<close> or waits.
\<close>

named_theorems keeps_intros "rules for what programs keep"

definition keeps :: "('s \<Rightarrow> bool) \<Rightarrow> ('s, 'a) prog \<Rightarrow> ('s \<Rightarrow> bool) \<Rightarrow> ('s \<Rightarrow> bool) \<Rightarrow> bool" where
  "keeps I m J E \<longleftrightarrow> (\<forall>s. I s \<longrightarrow> (case m s of Ok x t \<Rightarrow> J t | Elog e t \<Rightarrow> E t | _ \<Rightarrow> True))"

lemma keeps_return [keeps_intros]: "keeps I (returnM x) I E"
  by (simp add: keeps_def returnM_def)

lemma keeps_elog [keeps_intros]: "keeps I (elogM e) J I"
  by (simp add: keeps_def elogM_def)

lemma keeps_stuck [keeps_intros]: "keeps I (stuckM u) J E"
  by (simp add: keeps_def stuckM_def)

lemma keeps_bind: "keeps I m K E \<Longrightarrow> (\<And>x. keeps K (f x) J E) \<Longrightarrow> keeps I (bindM m f) J E"
  unfolding keeps_def bindM_def by (fastforce split: outcome.splits)

lemma keeps_bind_same [keeps_intros]: "keeps I m I E \<Longrightarrow> (\<And>x. keeps I (f x) J E) \<Longrightarrow> keeps I (bindM m f) J E"
  by (rule keeps_bind)

lemma keeps_check [keeps_intros]: "keeps I (checkM u b) I E"
  by (simp add: keeps_def checkM_def returnM_def stuckM_def)

lemma keeps_need [keeps_intros]: "keeps I (needM u x) I E"
  by (cases x) (simp_all add: keeps_def needM_def returnM_def stuckM_def)

lemma keeps_if [keeps_intros]: "(b \<Longrightarrow> keeps I m J E) \<Longrightarrow> (\<not> b \<Longrightarrow> keeps I m' J E) \<Longrightarrow> keeps I (if b then m else m') J E"
  by simp

lemma keeps_option [keeps_intros]:
  "(x = None \<Longrightarrow> keeps I m J E) \<Longrightarrow> (\<And>y. x = Some y \<Longrightarrow> keeps I (f y) J E)
    \<Longrightarrow> keeps I (case x of None \<Rightarrow> m | Some y \<Rightarrow> f y) J E"
  by (cases x) auto

lemma keeps_list [keeps_intros]:
  "(x = [] \<Longrightarrow> keeps I m J E) \<Longrightarrow> (\<And>y ys. x = y # ys \<Longrightarrow> keeps I (f y ys) J E)
    \<Longrightarrow> keeps I (case x of [] \<Rightarrow> m | y # ys \<Rightarrow> f y ys) J E"
  by (cases x) auto

lemma keeps_prod [keeps_intros]: "(\<And>x y. z = (x, y) \<Longrightarrow> keeps I (f x y) J E) \<Longrightarrow> keeps I (case z of (x, y) \<Rightarrow> f x y) J E"
  by (cases z) auto

lemma keeps_mapM [keeps_intros]: "(\<And>x. x \<in> set xs \<Longrightarrow> keeps I (f x) I E) \<Longrightarrow> keeps I (mapM f xs) I E"
  by (induction xs) (auto intro!: keeps_intros)

lemma keeps_int [keeps_intros]: "keeps I (intM x) I E"
  by (simp add: intM_def keeps_return keeps_stuck)

lemma keeps_or [keeps_intros]: "keeps I m J E \<Longrightarrow> keeps I (orM res m) J E"
  unfolding orM_def by (rule keeps_bind) (auto simp: keeps_def returnM_def)

lemma keeps_each [keeps_intros]:
  "(\<And>x. x \<in> set xs \<Longrightarrow> keeps I (f x) I E) \<Longrightarrow> keeps I (each res f n xs) I E"
  by (induction res f n xs rule: each.induct) (auto intro!: keeps_intros)

lemma keeps_each0 [keeps_intros]:
  "(\<And>x. x \<in> set xs \<Longrightarrow> keeps I (f x) I E) \<Longrightarrow> keeps I (each0 res f n xs) I E"
  by (induction res f n xs rule: each0.induct) (auto intro!: keeps_intros)

lemma keeps_gather [keeps_intros]:
  "(\<And>x. x \<in> set xs \<Longrightarrow> keeps I (f x) I E) \<Longrightarrow> keeps I (gather res f n xs) I E"
  by (induction res f n xs rule: gather.induct) (auto intro!: keeps_intros)

lemma keeps_gather0 [keeps_intros]:
  "(\<And>x. x \<in> set xs \<Longrightarrow> keeps I (f x) I E) \<Longrightarrow> keeps I (gather0 res f n xs) I E"
  by (induction res f n xs rule: gather0.induct) (auto intro!: keeps_intros)

lemma keeps_traverse [keeps_intros]:
  "(\<And>x. x \<in> set xs \<Longrightarrow> keeps I (f x) I E) \<Longrightarrow> keeps I (traverse n xs f) I E"
  by (induction n xs f rule: traverse.induct) (auto intro!: keeps_intros)

lemma keepsD:
  assumes "keeps I m J E" and "I s"
  shows "m s = Ok x t \<Longrightarrow> J t" and "m s = Elog e t \<Longrightarrow> E t"
  using assms by (auto simp: keeps_def split: outcome.splits)

end
