(* ===== verification/Connectivity.thy ===== *)
theory Connectivity
  imports Prelude
begin

text \<open>
  \<^verbatim>\<open>src/common/comm_connectivity.c\<close> and \<^verbatim>\<open>comm_connectivity.h\<close>: the connection
  with its two growing buffers over a stream socket. Every function of the file but the
  socket set-up of \<open>plcConnect\<close> and \<open>plcDisconnect\<close> is a definition below.

  The kernel's side of the socket is a script. \<open>recvs\<close> holds what the successive calls of
  \<open>recv\<close> meet: \<open>RData bs\<close> is data that has arrived (one call takes at most what it asks
  for and leaves the rest; \<open>RData []\<close> makes the call return 0, the peer's shutdown), and
  \<open>RFail e\<close> is a call that returns -1 with \<open>errno\<close> \<open>e\<close>; when the script is used up the
  call waits. \<open>sends\<close> does the same for \<open>send\<close>: \<open>SAccept n\<close> is a call that takes at most
  \<open>n\<close> bytes; past its end every call takes all it is given. \<open>wire\<close> is what the kernel has
  taken so far. \<open>alloc_ok\<close> says which request sizes the memory manager serves (others
  raise), \<open>junk\<close> is the byte found in fresh memory, \<open>stack\<close> the depth of recursion the C
  stack has room for.
\<close>

section \<open>State\<close>

definition PLC_BUFFER_SIZE :: int where "PLC_BUFFER_SIZE = 8192"
definition PLC_BUFFER_MIN_FREE :: int where "PLC_BUFFER_MIN_FREE = 200"

datatype bufType = PLC_INPUT_BUFFER | PLC_OUTPUT_BUFFER

record plcBuffer =
  bdata :: "byte list"
  pStart :: int
  pEnd :: int
  bufSize :: int

record plcConn =
  sock :: int
  buffer :: "bufType \<Rightarrow> plcBuffer"

datatype errno = EINTR | EAGAIN | EOTHER

datatype recv_ev = RData "byte list" | RFail errno
datatype send_ev = SAccept nat | SFail errno

record world =
  conn :: plcConn
  recvs :: "recv_ev list"
  sends :: "send_ev list"
  wire :: "byte list"
  alloc_ok :: "nat \<Rightarrow> bool"
  junk :: byte
  stack :: nat

abbreviation buf :: "bufType \<Rightarrow> world \<Rightarrow> plcBuffer" where
  "buf bt w \<equiv> buffer (conn w) bt"

definition set_buf :: "bufType \<Rightarrow> plcBuffer \<Rightarrow> world \<Rightarrow> world" where
  "set_buf bt b w = w\<lparr>conn := (conn w)\<lparr>buffer := (buffer (conn w))(bt := b)\<rparr>\<rparr>"

definition get_buf :: "bufType \<Rightarrow> (world, plcBuffer) prog" where
  "get_buf bt = (\<lambda>w. Ok (buf bt w) w)"

definition put_buf :: "bufType \<Rightarrow> plcBuffer \<Rightarrow> (world, unit) prog" where
  "put_buf bt b = (\<lambda>w. Ok () (set_buf bt b w))"

text \<open>\<open>palloc\<close> and \<open>plc_top_alloc\<close>, the \<open>MemoryContextAlloc\<close> of the top context: they return a block or raise, never NULL.\<close>

definition plc_alloc :: "nat \<Rightarrow> (world, byte list) prog" where
  "plc_alloc n = (\<lambda>w. if alloc_ok w n then Ok (replicate n (junk w)) w else Elog (E_alloc n) w)"

section \<open>The socket\<close>

text \<open>One call of \<open>recv(sock, ptr, n, 0)\<close>: the returned size, \<open>errno\<close> and the bytes.\<close>

fun kernel_recv :: "nat \<Rightarrow> recv_ev list \<Rightarrow> ((int \<times> errno option \<times> byte list) \<times> recv_ev list) option" where
  "kernel_recv n [] = None"
| "kernel_recv n (RFail e # es) = Some ((-1, Some e, []), es)"
| "kernel_recv n (RData bs # es) =
     Some ((int (length (take n bs)), None, take n bs),
           if length bs \<le> n then es else RData (drop n bs) # es)"

function plcSocketRecv :: "nat \<Rightarrow> (world, int \<times> byte list) prog" where
  "plcSocketRecv n w =
     (case kernel_recv n (recvs w) of
        None \<Rightarrow> Blocked w
      | Some ((sz, err, bs), es) \<Rightarrow>
          (if sz < 0 \<and> err = Some EINTR then Elog E_interrupted (w\<lparr>recvs := es\<rparr>)
           else if \<not> (sz = -1 \<and> err = Some EAGAIN) then Ok (sz, bs) (w\<lparr>recvs := es\<rparr>)
           else plcSocketRecv n (w\<lparr>recvs := es\<rparr>)))"
  by pat_completeness auto
termination
proof (relation "measure (\<lambda>(n, w). length (recvs w))", goal_cases)
  case (2 n w p z es sz q err bs)
  then have "length es < length (recvs w)"
    by (cases "recvs w") (auto elim!: kernel_recv.elims split: if_splits)
  then show ?case by simp
qed simp

fun kernel_send :: "byte list \<Rightarrow> send_ev list \<Rightarrow> (int \<times> errno option) \<times> send_ev list" where
  "kernel_send bs [] = ((int (length bs), None), [])"
| "kernel_send bs (SAccept n # es) = ((int (min n (length bs)), None), es)"
| "kernel_send bs (SFail e # es) = ((-1, Some e), es)"

definition plcSocketSend :: "byte list \<Rightarrow> (world, int) prog" where
  "plcSocketSend bs = (\<lambda>w.
     (case kernel_send bs (sends w) of
        ((sz, err), es) \<Rightarrow>
          (let w' = w\<lparr>sends := es, wire := wire w @ take (nat sz) bs\<rparr>
           in if sz < 0 \<and> err = Some EINTR then Elog E_interrupted w' else Ok sz w')))"

section \<open>Buffer management\<close>

definition plcBufferMaybeReset :: "bufType \<Rightarrow> (world, int) prog" where
  "plcBufferMaybeReset bt =
     bindM (get_buf bt) (\<lambda>b0.
     let b = (if pStart b0 = pEnd b0 then b0\<lparr>pStart := 0, pEnd := 0\<rparr> else b0) in
     bindM (put_buf bt b) (\<lambda>_.
     if pStart b > bufSize b sdiv 2 then
       bindM (needM OutOfBounds (mem_read (bdata b) (pStart b) (pEnd b - pStart b))) (\<lambda>bs.
       bindM (checkM Overlap (pEnd b - pStart b \<le> pStart b)) (\<lambda>_.
       bindM (needM OutOfBounds (mem_write (bdata b) 0 bs)) (\<lambda>d.
       bindM (put_buf bt (b\<lparr>bdata := d, pEnd := pEnd b - pStart b, pStart := 0\<rparr>)) (\<lambda>_.
       returnM 0))))
     else returnM 0))"

text \<open>The loop of \<open>plcBufferMaybeFlush\<close>; the result is -1 on a failed write, else 0.\<close>

function flush_loop :: "(world, int) prog" where
  "flush_loop w =
     (let b = buf PLC_OUTPUT_BUFFER w in
      if pStart b < pEnd b then
        (case mem_read (bdata b) (pStart b) (pEnd b - pStart b) of
           None \<Rightarrow> Stuck OutOfBounds
         | Some bs \<Rightarrow>
             (case plcSocketSend bs w of
                Ok sent w' \<Rightarrow>
                  (if sent \<le> 0 then Ok (-1) w'
                   else flush_loop (set_buf PLC_OUTPUT_BUFFER (b\<lparr>pStart := pStart b + sent\<rparr>) w'))
              | Elog e w' \<Rightarrow> Elog e w'
              | Blocked w' \<Rightarrow> Blocked w'
              | Stuck u \<Rightarrow> Stuck u))
      else Ok 0 w)"
  by pat_completeness auto
termination
  by (relation "measure (\<lambda>w. nat (pEnd (buf PLC_OUTPUT_BUFFER w) - pStart (buf PLC_OUTPUT_BUFFER w)))")
    (auto simp: set_buf_def)

definition plcBufferMaybeFlush :: "bool \<Rightarrow> (world, int) prog" where
  "plcBufferMaybeFlush isForse =
     bindM (get_buf PLC_OUTPUT_BUFFER) (\<lambda>b.
     if bufSize b - pEnd b < PLC_BUFFER_MIN_FREE
        \<or> pEnd b - pStart b > PLC_BUFFER_SIZE
        \<or> isForse
     then
       bindM flush_loop (\<lambda>r.
       if r < 0 then returnM (-1)
       else
         bindM (plcBufferMaybeReset PLC_OUTPUT_BUFFER) (\<lambda>res.
         if res < 0 then returnM res else returnM 0))
     else returnM 0)"

text \<open>Allocate the new block, copy the data to its start and install it.\<close>

definition reallocate :: "bufType \<Rightarrow> int \<Rightarrow> (world, int) prog" where
  "reallocate bt newSize =
     bindM (get_buf bt) (\<lambda>b.
     bindM (plc_alloc (size_of_int newSize)) (\<lambda>newBuffer.
     bindM (needM OutOfBounds (mem_read (bdata b) (pStart b) (pEnd b - pStart b))) (\<lambda>bs.
     bindM (needM OutOfBounds (mem_write newBuffer 0 bs)) (\<lambda>d.
     bindM (put_buf bt (b\<lparr>bdata := d, pEnd := pEnd b - pStart b, pStart := 0,
                          bufSize := newSize\<rparr>)) (\<lambda>_.
     returnM 0)))))"

definition plcBufferMaybeResize :: "bufType \<Rightarrow> nat \<Rightarrow> (world, int) prog" where
  "plcBufferMaybeResize bt bufAppend =
     bindM (get_buf bt) (\<lambda>b.
     bindM (intM ((pEnd b - pStart b) + int_of_size bufAppend + PLC_BUFFER_MIN_FREE)) (\<lambda>dataSize.
     if dataSize < bufSize b sdiv 5 \<and> bufSize b > PLC_BUFFER_SIZE then
       bindM (intM (((dataSize * 2) sdiv PLC_BUFFER_SIZE + 1) * PLC_BUFFER_SIZE)) (\<lambda>newSize.
       reallocate bt newSize)
     else
       bindM (intM (pEnd b + int_of_size bufAppend)) (\<lambda>wanted.
       if wanted > bufSize b - PLC_BUFFER_MIN_FREE then
         bindM (intM ((dataSize sdiv PLC_BUFFER_SIZE + 1) * PLC_BUFFER_SIZE)) (\<lambda>newSize.
         reallocate bt newSize)
       else returnM 0)))"

section \<open>Appending, reading and flushing\<close>

definition plcBufferAppend :: "byte list \<Rightarrow> nat \<Rightarrow> (world, int) prog" where
  "plcBufferAppend srcBuffer nBytes =
     bindM (get_buf PLC_OUTPUT_BUFFER) (\<lambda>b0.
     bindM (if bufSize b0 - pEnd b0 < int_of_size nBytes then
              bindM (plcBufferMaybeReset PLC_OUTPUT_BUFFER) (\<lambda>res.
              if res < 0 then returnM res
              else bindM (plcBufferMaybeFlush False) (\<lambda>res.
              if res < 0 then returnM res
              else plcBufferMaybeResize PLC_OUTPUT_BUFFER nBytes))
            else returnM 0) (\<lambda>res.
     if res < 0 then returnM res
     else
       bindM (get_buf PLC_OUTPUT_BUFFER) (\<lambda>b.
       bindM (needM OutOfBounds (mem_read srcBuffer 0 (int nBytes))) (\<lambda>bs.
       bindM (needM OutOfBounds (mem_write (bdata b) (pEnd b) bs)) (\<lambda>d.
       bindM (put_buf PLC_OUTPUT_BUFFER (b\<lparr>bdata := d, pEnd := pEnd b + int nBytes\<rparr>)) (\<lambda>_.
       bindM (checkM AssertFail (pEnd b + int nBytes \<le> bufSize b)) (\<lambda>_.
       returnM 0)))))))"

text \<open>The loop of \<open>plcBufferReceive\<close>: -1 when \<open>recv\<close> returns 0 or fails.\<close>

function receive_loop_fill :: "int \<Rightarrow> (world, int) prog" where
  "receive_loop_fill nBytesToReceive w =
     (if nBytesToReceive > 0 then
        (let b = buf PLC_INPUT_BUFFER w in
         case plcSocketRecv (size_of_int (bufSize b - pEnd b)) w of
           Ok (recBytes, bs) w' \<Rightarrow>
             (if recBytes \<le> 0 then Ok (-1) w'
              else
                (case mem_write (bdata b) (pEnd b) bs of
                   None \<Rightarrow> Stuck OutOfBounds
                 | Some d \<Rightarrow>
                     (if pEnd b + recBytes \<le> bufSize b then
                        receive_loop_fill (nBytesToReceive - recBytes)
                          (set_buf PLC_INPUT_BUFFER (b\<lparr>bdata := d, pEnd := pEnd b + recBytes\<rparr>) w')
                      else Stuck AssertFail)))
         | Elog e w' \<Rightarrow> Elog e w'
         | Blocked w' \<Rightarrow> Blocked w'
         | Stuck u \<Rightarrow> Stuck u)
      else Ok 0 w)"
  by pat_completeness auto
termination
  by (relation "measure (\<lambda>(n, w). nat n)") auto

definition plcBufferReceive :: "nat \<Rightarrow> (world, int) prog" where
  "plcBufferReceive nBytes =
     bindM (get_buf PLC_INPUT_BUFFER) (\<lambda>b0.
     if pEnd b0 - pStart b0 < int_of_size nBytes then
       bindM (plcBufferMaybeReset PLC_INPUT_BUFFER) (\<lambda>res.
       if res < 0 then returnM res
       else bindM (plcBufferMaybeResize PLC_INPUT_BUFFER nBytes) (\<lambda>res.
       if res < 0 then returnM res
       else bindM (get_buf PLC_INPUT_BUFFER) (\<lambda>b.
       receive_loop_fill (int_of_size nBytes - (pEnd b - pStart b)))))
     else returnM 0)"

text \<open>
  \<open>plcBufferRead(conn, resBuffer, n)\<close>: the bytes copied to \<open>resBuffer\<close>, or \<open>None\<close> when it is
  left unwritten.
\<close>

definition plcBufferRead :: "nat \<Rightarrow> (world, int \<times> byte list option) prog" where
  "plcBufferRead nBytes =
     bindM (plcBufferReceive nBytes) (\<lambda>res.
     if res = 0 then
       bindM (get_buf PLC_INPUT_BUFFER) (\<lambda>b.
       bindM (needM OutOfBounds (mem_read (bdata b) (pStart b) (int nBytes))) (\<lambda>bs.
       bindM (put_buf PLC_INPUT_BUFFER (b\<lparr>pStart := pStart b + int nBytes\<rparr>)) (\<lambda>_.
       returnM (res, Some bs))))
     else returnM (res, None))"

definition plcBufferFlush :: "(world, int) prog" where
  "plcBufferFlush = plcBufferMaybeFlush True"

text \<open>\<open>plcConnInit\<close>: three structures and two blocks of \<open>PLC_BUFFER_SIZE\<close> bytes.\<close>

definition plcConnInit :: "int \<Rightarrow> (world, unit) prog" where
  "plcConnInit sck =
     bindM (plc_alloc 24) (\<lambda>_.
     bindM (plc_alloc 24) (\<lambda>_.
     bindM (plc_alloc 24) (\<lambda>_.
     bindM (plc_alloc (size_of_int PLC_BUFFER_SIZE)) (\<lambda>d0.
     bindM (plc_alloc (size_of_int PLC_BUFFER_SIZE)) (\<lambda>d1.
     (\<lambda>w. let
        inb = \<lparr>bdata = d0, pStart = 0, pEnd = 0, bufSize = PLC_BUFFER_SIZE\<rparr>;
        outb = \<lparr>bdata = d1, pStart = 0, pEnd = 0, bufSize = PLC_BUFFER_SIZE\<rparr>
      in Ok () (w\<lparr>conn := \<lparr>sock = sck,
           buffer = (\<lambda>bt. if bt = PLC_INPUT_BUFFER then inb else outb)\<rparr>\<rparr>)))))))"

declare plcSocketRecv.simps [simp del] flush_loop.simps [simp del] receive_loop_fill.simps [simp del]

end
