(* ===== verification/Conn_Stream.thy ===== *)
theory Conn_Stream
  imports Connectivity
begin

text \<open>
  What the buffered connection promises. Towards the peer it is a byte stream: the bytes
  the kernel has taken followed by the bytes still in the output buffer (\<open>out_stream\<close>).
  Towards the reader it is the bytes in the input buffer followed by the bytes the script
  will deliver before its first shutdown or error (\<open>in_stream\<close>). Resetting, growing,
  shrinking and flushing leave both unchanged, appending extends the first, reading takes
  a prefix of the second, and no operation leaves its blocks.
\<close>

section \<open>Invariant\<close>

text \<open>
  \<open>MaxAllocSize\<close> is the limit PostgreSQL documents for \<open>palloc\<close>. \<open>MAX_CHUNK\<close> is the
  largest single transfer for which the size computation of \<open>plcBufferMaybeResize\<close> stays
  below it whatever the buffer already holds: \<open>2 * MAX_CHUNK + 200 + 8192 \<le> MaxAllocSize\<close>.
\<close>

definition MaxAllocSize :: int where "MaxAllocSize = 1073741823"
definition MAX_CHUNK :: nat where "MAX_CHUNK = 536866715"

definition buf_inv :: "plcBuffer \<Rightarrow> bool" where
  "buf_inv b \<longleftrightarrow>
     0 \<le> pStart b \<and> pStart b \<le> pEnd b \<and> pEnd b \<le> bufSize b
     \<and> bufSize b = int (length (bdata b))
     \<and> PLC_BUFFER_SIZE \<le> bufSize b \<and> bufSize b \<le> MaxAllocSize
     \<and> PLC_BUFFER_SIZE dvd bufSize b"

definition alloc_law :: "world \<Rightarrow> bool" where
  "alloc_law w \<longleftrightarrow> (\<forall>n. alloc_ok w n \<longrightarrow> int n \<le> MaxAllocSize)"

definition alloc_all :: "world \<Rightarrow> bool" where
  "alloc_all w \<longleftrightarrow> (\<forall>n. int n \<le> MaxAllocSize \<longrightarrow> alloc_ok w n)"

definition conn_inv :: "world \<Rightarrow> bool" where
  "conn_inv w \<longleftrightarrow> buf_inv (buf PLC_INPUT_BUFFER w) \<and> buf_inv (buf PLC_OUTPUT_BUFFER w) \<and> alloc_law w"

definition sends_good :: "world \<Rightarrow> bool" where
  "sends_good w \<longleftrightarrow> (\<forall>e \<in> set (sends w). \<exists>n. e = SAccept (Suc n))"

section \<open>The streams\<close>

definition content :: "plcBuffer \<Rightarrow> byte list" where
  "content b = slice (pStart b) (pEnd b) (bdata b)"

fun avail :: "recv_ev list \<Rightarrow> byte list" where
  "avail [] = []"
| "avail (RData bs # es) = (if bs = [] then [] else bs @ avail es)"
| "avail (RFail EAGAIN # es) = avail es"
| "avail (RFail _ # es) = []"

definition out_stream :: "world \<Rightarrow> byte list" where
  "out_stream w = wire w @ content (buf PLC_OUTPUT_BUFFER w)"

definition in_stream :: "world \<Rightarrow> byte list" where
  "in_stream w = content (buf PLC_INPUT_BUFFER w) @ avail (recvs w)"

text \<open>What an operation on one side of the connection leaves alone.\<close>

definition out_frame :: "world \<Rightarrow> world \<Rightarrow> bool" where
  "out_frame w w' \<longleftrightarrow>
     buf PLC_INPUT_BUFFER w' = buf PLC_INPUT_BUFFER w \<and> recvs w' = recvs w
     \<and> alloc_ok w' = alloc_ok w \<and> stack w' = stack w \<and> set (sends w') \<subseteq> set (sends w)"

definition in_frame :: "world \<Rightarrow> world \<Rightarrow> bool" where
  "in_frame w w' \<longleftrightarrow>
     buf PLC_OUTPUT_BUFFER w' = buf PLC_OUTPUT_BUFFER w \<and> wire w' = wire w
     \<and> sends w' = sends w \<and> alloc_ok w' = alloc_ok w \<and> stack w' = stack w"

lemma out_frame_refl [simp]: "out_frame w w"
  by (simp add: out_frame_def)

lemma in_frame_refl [simp]: "in_frame w w"
  by (simp add: in_frame_def)

lemma out_frame_trans [trans]: "out_frame w w' \<Longrightarrow> out_frame w' w'' \<Longrightarrow> out_frame w w''"
  by (auto simp: out_frame_def)

lemma in_frame_trans [trans]: "in_frame w w' \<Longrightarrow> in_frame w' w'' \<Longrightarrow> in_frame w w''"
  by (auto simp: in_frame_def)

lemma set_buf_simps [simp]:
  "buf bt' (set_buf bt b w) = (if bt' = bt then b else buf bt' w)"
  "recvs (set_buf bt b w) = recvs w" "sends (set_buf bt b w) = sends w"
  "wire (set_buf bt b w) = wire w" "alloc_ok (set_buf bt b w) = alloc_ok w"
  "junk (set_buf bt b w) = junk w" "stack (set_buf bt b w) = stack w"
  "sock (conn (set_buf bt b w)) = sock (conn w)"
  by (simp_all add: set_buf_def)

lemma set_buf_set_buf [simp]: "set_buf bt b (set_buf bt b' w) = set_buf bt b w"
  by (simp add: set_buf_def)

lemma set_buf_same [simp]: "set_buf bt (buf bt w) w = w"
  by (simp add: set_buf_def)

lemma bufType_neq [simp]: "PLC_INPUT_BUFFER \<noteq> PLC_OUTPUT_BUFFER"
  by simp

lemma length_content:
  "buf_inv b \<Longrightarrow> int (length (content b)) = pEnd b - pStart b"
  by (simp add: buf_inv_def content_def length_slice)

lemma content_eq_Nil: "buf_inv b \<Longrightarrow> content b = [] \<longleftrightarrow> pStart b = pEnd b"
  using length_content [of b] by auto

lemmas size_defs = PLC_BUFFER_SIZE_def PLC_BUFFER_MIN_FREE_def MaxAllocSize_def INT_MAX_def
  in_int_def MAX_CHUNK_def

section \<open>Reset, reallocation and resizing\<close>

lemma reset_spec:
  assumes inv: "buf_inv (buf bt w)"
  shows "\<exists>b. plcBufferMaybeReset bt w = Ok 0 (set_buf bt b w) \<and> buf_inv b
    \<and> content b = content (buf bt w) \<and> bufSize b = bufSize (buf bt w)
    \<and> (content b = [] \<longrightarrow> pStart b = 0 \<and> pEnd b = 0)"
proof -
  define b0 where "b0 = buf bt w"
  define b where "b = (if pStart b0 = pEnd b0 then b0\<lparr>pStart := 0, pEnd := 0\<rparr> else b0)"
  have b: "buf_inv b" "content b = content b0" "bufSize b = bufSize b0"
    "content b = [] \<longrightarrow> pStart b = 0 \<and> pEnd b = 0"
    using inv content_eq_Nil [of b0] by (auto simp: b_def b0_def buf_inv_def content_def)
  have size2: "bufSize b sdiv 2 = bufSize b div 2"
    using b(1) by (simp add: buf_inv_def size_defs)
  show ?thesis
  proof (cases "bufSize b div 2 < pStart b")
    case False
    then have "plcBufferMaybeReset bt w = Ok 0 (set_buf bt b w)"
      unfolding plcBufferMaybeReset_def
      by (simp add: get_buf_def put_buf_def Let_def size2 returnM_def
          flip: b0_def b_def)
    with b show ?thesis by (auto simp: b0_def)
  next
    case True
    let ?bs = "content b"
    let ?n = "pEnd b - pStart b"
    have n: "0 \<le> ?n" "?n \<le> pStart b" "int (length ?bs) = ?n"
      using b(1) True length_content [OF b(1)] by (auto simp: buf_inv_def)
    have rd: "mem_read (bdata b) (pStart b) ?n = Some ?bs"
      using b(1) by (simp add: mem_read_slice buf_inv_def content_def)
    obtain d where d: "mem_write (bdata b) 0 ?bs = Some d"
      using mem_write_Some [of 0 ?bs "bdata b"] b(1) n by (auto simp: buf_inv_def)
    let ?b = "b\<lparr>bdata := d, pEnd := ?n, pStart := 0\<rparr>"
    have "plcBufferMaybeReset bt w = Ok 0 (set_buf bt ?b w)"
      unfolding plcBufferMaybeReset_def
      using True n(2) rd d
      by (simp add: get_buf_def put_buf_def Let_def size2 returnM_def flip: b0_def b_def)
    moreover have "buf_inv ?b"
      using b(1) n length_mem_write [OF d] by (auto simp: buf_inv_def)
    moreover have "content ?b = ?bs"
      using slice_mem_write [OF d, of 0] n by (simp add: content_def)
    ultimately show ?thesis
      using b n by (intro exI [of _ ?b]) (auto simp: b0_def)
  qed
qed

lemma reallocate_spec:
  assumes inv: "buf_inv (buf bt w)"
    and n: "int (length (content (buf bt w))) \<le> n" "PLC_BUFFER_SIZE \<le> n" "PLC_BUFFER_SIZE dvd n"
      "n \<le> INT_MAX"
    and law: "alloc_law w"
  shows "if alloc_ok w (nat n)
    then \<exists>b. reallocate bt n w = Ok 0 (set_buf bt b w) \<and> buf_inv b
      \<and> content b = content (buf bt w) \<and> pStart b = 0 \<and> bufSize b = n
    else reallocate bt n w = Elog (E_alloc (nat n)) w"
proof (cases "alloc_ok w (nat n)")
  case False
  with n show ?thesis
    by (simp add: reallocate_def get_buf_def plc_alloc_def size_of_int_nonneg size_defs)
next
  case True
  let ?b = "buf bt w"
  let ?bs = "content ?b"
  let ?new = "replicate (nat n) (junk w)"
  have len: "int (length ?bs) = pEnd ?b - pStart ?b"
    by (rule length_content [OF inv])
  have rd: "mem_read (bdata ?b) (pStart ?b) (pEnd ?b - pStart ?b) = Some ?bs"
    using inv by (simp add: mem_read_slice buf_inv_def content_def)
  obtain d where d: "mem_write ?new 0 ?bs = Some d"
    using mem_write_Some [of 0 ?bs ?new] n by auto
  let ?b' = "?b\<lparr>bdata := d, pEnd := pEnd ?b - pStart ?b, pStart := 0, bufSize := n\<rparr>"
  have "reallocate bt n w = Ok 0 (set_buf bt ?b' w)"
    using True rd d n
    by (simp add: reallocate_def get_buf_def put_buf_def plc_alloc_def size_of_int_nonneg
        returnM_def size_defs)
  moreover have "int (nat n) \<le> MaxAllocSize"
    using True law by (simp only: alloc_law_def)
  then have "buf_inv ?b'"
    using n len length_mem_write [OF d] by (auto simp: buf_inv_def)
  moreover have "content ?b' = ?bs"
    using slice_mem_write [OF d, of 0] len by (simp add: content_def)
  ultimately show ?thesis using True by auto
qed

lemma reallocate_ensures:
  assumes inv: "buf_inv (buf bt w)" and law: "alloc_law w"
    and m: "PLC_BUFFER_SIZE \<le> m" "PLC_BUFFER_SIZE dvd m" "m \<le> INT_MAX"
      "int (length (content (buf bt w))) + n \<le> m" "0 \<le> n" "m \<le> k"
  shows "ensures (reallocate bt m w)
    (\<lambda>r w'. r = 0 \<and> (\<exists>b. w' = set_buf bt b w \<and> buf_inv b \<and> content b = content (buf bt w)
       \<and> pEnd b + n \<le> bufSize b))
    (\<lambda>e w'. w' = w \<and> (\<exists>j. e = E_alloc j \<and> \<not> alloc_ok w j \<and> int j \<le> k)) (\<lambda>w'. False)"
proof (cases "alloc_ok w (nat m)")
  case True
  with reallocate_spec [OF inv _ m(1,2,3) law] m(4,5) obtain b where
    b: "reallocate bt m w = Ok 0 (set_buf bt b w)" "buf_inv b"
      "content b = content (buf bt w)" "pStart b = 0" "bufSize b = m"
    by auto
  moreover have "pEnd b + n \<le> bufSize b"
    using length_content [OF b(2)] b(3-5) m(4) by simp
  ultimately show ?thesis by auto
next
  case False
  with reallocate_spec [OF inv _ m(1,2,3) law] m(4,5)
  have "reallocate bt m w = Elog (E_alloc (nat m)) w" by simp
  with False m(1,6) show ?thesis by (auto simp: size_defs)
qed

lemma round_up:
  assumes "0 \<le> x"
  shows "x < (x div PLC_BUFFER_SIZE + 1) * PLC_BUFFER_SIZE"
    and "(x div PLC_BUFFER_SIZE + 1) * PLC_BUFFER_SIZE \<le> x + PLC_BUFFER_SIZE"
    and "PLC_BUFFER_SIZE \<le> (x div PLC_BUFFER_SIZE + 1) * PLC_BUFFER_SIZE"
proof -
  have "x = x div 8192 * 8192 + x mod 8192" "0 \<le> x mod 8192" "x mod 8192 < 8192" "0 \<le> x div 8192"
    using assms by (simp_all add: pos_imp_zdiv_nonneg_iff)
  then show "x < (x div PLC_BUFFER_SIZE + 1) * PLC_BUFFER_SIZE"
    and "(x div PLC_BUFFER_SIZE + 1) * PLC_BUFFER_SIZE \<le> x + PLC_BUFFER_SIZE"
    and "PLC_BUFFER_SIZE \<le> (x div PLC_BUFFER_SIZE + 1) * PLC_BUFFER_SIZE"
    unfolding PLC_BUFFER_SIZE_def distrib_right by linarith+
qed

text \<open>
  Resizing makes room for the transfer, keeps the data, and refuses only when the memory
  manager does; a buffer it shrinks really gets smaller.
\<close>

lemma resize_spec:
  assumes inv: "buf_inv (buf bt w)" and law: "alloc_law w" and n: "n \<le> MAX_CHUNK"
  shows "ensures (plcBufferMaybeResize bt n w)
    (\<lambda>r w'. r = 0 \<and> (\<exists>b. w' = set_buf bt b w \<and> buf_inv b \<and> content b = content (buf bt w)
       \<and> pEnd b + int n \<le> bufSize b))
    (\<lambda>e w'. w' = w \<and> (\<exists>k. e = E_alloc k \<and> \<not> alloc_ok w k
       \<and> int k \<le> max (bufSize (buf bt w)) (int (length (content (buf bt w))) + int n + 8392)))
    (\<lambda>w'. False)"
proof -
  let ?b = "buf bt w"
  define c where "c = int (length (content ?b))"
  define ds where "ds = c + int n + 200"
  have c: "pEnd ?b - pStart ?b = c" "0 \<le> c" "c \<le> MaxAllocSize" and size: "0 \<le> bufSize ?b"
    using length_content [OF inv] inv by (auto simp: c_def buf_inv_def size_defs)
  have n': "int_of_size n = int n" "int n \<le> 536866715"
    using n by (simp_all add: MAX_CHUNK_def)
  have ds: "0 \<le> ds" "in_int ds" "(pEnd ?b - pStart ?b) + int_of_size n + PLC_BUFFER_MIN_FREE = ds"
    using c n' by (simp_all add: ds_def size_defs)
  show ?thesis
  proof (cases "ds < bufSize ?b div 5 \<and> bufSize ?b > PLC_BUFFER_SIZE")
    case True
    define m where "m = (ds * 2 div PLC_BUFFER_SIZE + 1) * PLC_BUFFER_SIZE"
    have "8192 dvd bufSize ?b" using inv unfolding buf_inv_def size_defs by (elim conjE)
    then obtain k where k: "bufSize ?b = 8192 * k" by (rule dvdE)
    have big: "16384 \<le> bufSize ?b" "bufSize ?b \<le> 1073741823"
      using True inv k by (simp_all add: buf_inv_def size_defs)
    have m: "in_int m" "PLC_BUFFER_SIZE \<le> m" "m \<le> bufSize ?b" "ds \<le> m" "m \<le> INT_MAX"
      using True ds(1) big round_up [of "ds * 2", folded m_def] by (auto simp: size_defs)
    have "plcBufferMaybeResize bt n w = reallocate bt m w"
      using True ds m(1) size unfolding plcBufferMaybeResize_def
      by (simp add: get_buf_def size_defs m_def)
    moreover have "ensures (reallocate bt m w)
      (\<lambda>r w'. r = 0 \<and> (\<exists>b. w' = set_buf bt b w \<and> buf_inv b \<and> content b = content ?b
         \<and> pEnd b + int n \<le> bufSize b))
      (\<lambda>e w'. w' = w \<and> (\<exists>j. e = E_alloc j \<and> \<not> alloc_ok w j
         \<and> int j \<le> max (bufSize ?b) (int (length (content ?b)) + int n + 8392))) (\<lambda>w'. False)"
      using m by (intro reallocate_ensures inv law) (simp_all add: c_def [symmetric] ds_def m_def)
    ultimately show ?thesis by simp
  next
    case False
    show ?thesis
    proof (cases "pEnd ?b + int n > bufSize ?b - PLC_BUFFER_MIN_FREE")
      case True
      define m where "m = (ds div PLC_BUFFER_SIZE + 1) * PLC_BUFFER_SIZE"
      have wanted: "in_int (pEnd ?b + int n)"
        using inv n' by (auto simp: buf_inv_def size_defs)
      have m: "in_int m" "PLC_BUFFER_SIZE \<le> m" "ds \<le> m" "m \<le> ds + PLC_BUFFER_SIZE" "m \<le> INT_MAX"
        using ds c(2,3) n'(2) round_up [of ds, folded m_def] by (auto simp: size_defs ds_def)
      have "plcBufferMaybeResize bt n w = reallocate bt m w"
        using True False ds m(1) size n' wanted unfolding plcBufferMaybeResize_def
        by (cases "ds < bufSize ?b div 5") (simp_all add: get_buf_def size_defs m_def)
      moreover have "ensures (reallocate bt m w)
        (\<lambda>r w'. r = 0 \<and> (\<exists>b. w' = set_buf bt b w \<and> buf_inv b \<and> content b = content ?b
           \<and> pEnd b + int n \<le> bufSize b))
        (\<lambda>e w'. w' = w \<and> (\<exists>j. e = E_alloc j \<and> \<not> alloc_ok w j
           \<and> int j \<le> max (bufSize ?b) (int (length (content ?b)) + int n + 8392))) (\<lambda>w'. False)"
        using m by (intro reallocate_ensures inv law)
          (simp_all add: c_def [symmetric] ds_def m_def size_defs)
      ultimately show ?thesis by simp
    next
      case False': False
      have "plcBufferMaybeResize bt n w = Ok 0 w"
        using False False' ds size n' inv unfolding plcBufferMaybeResize_def
        by (cases "ds < bufSize ?b div 5") (simp_all add: get_buf_def size_defs returnM_def buf_inv_def)
      with inv False' show ?thesis
        by (intro exI [of _ ?b] | simp add: size_defs)+
    qed
  qed
qed

section \<open>Writing to the socket\<close>

definition same_out :: "world \<Rightarrow> world \<Rightarrow> bool" where
  "same_out w w' \<longleftrightarrow> out_frame w w' \<and> buf_inv (buf PLC_OUTPUT_BUFFER w')
     \<and> out_stream w' = out_stream w \<and> bufSize (buf PLC_OUTPUT_BUFFER w') = bufSize (buf PLC_OUTPUT_BUFFER w)"

lemma same_out_trans: "same_out w w' \<Longrightarrow> same_out w' w'' \<Longrightarrow> same_out w w''"
  by (auto simp: same_out_def intro: out_frame_trans)

lemma sends_good_mono: "sends_good w \<Longrightarrow> set (sends w') \<subseteq> set (sends w) \<Longrightarrow> sends_good w'"
  by (auto simp: sends_good_def)

lemma plcSocketSend_spec:
  assumes "bs \<noteq> []"
  shows "ensures (plcSocketSend bs w)
    (\<lambda>sz w'. sz \<le> int (length bs) \<and> (sz \<le> 0 \<longrightarrow> \<not> sends_good w)
       \<and> (\<exists>es. w' = w\<lparr>sends := es, wire := wire w @ take (nat sz) bs\<rparr> \<and> set es \<subseteq> set (sends w)))
    (\<lambda>e w'. e = E_interrupted \<and> \<not> sends_good w
       \<and> (\<exists>es. w' = w\<lparr>sends := es\<rparr> \<and> set es \<subseteq> set (sends w)))
    (\<lambda>w'. False)"
proof (cases "sends w")
  case Nil
  with assms show ?thesis by (auto simp: plcSocketSend_def)
next
  case (Cons ev es)
  show ?thesis
  proof (cases ev)
    case (SAccept n)
    with assms Cons show ?thesis
      by (auto simp: plcSocketSend_def sends_good_def min_def intro!: exI [of _ es])
  next
    case (SFail e)
    with Cons have "\<not> sends_good w" by (auto simp: sends_good_def)
    with SFail assms Cons show ?thesis
      by (cases "e = EINTR") (auto simp: plcSocketSend_def intro!: exI [of _ es])
  qed
qed

lemma flush_loop_spec:
  "buf_inv (buf PLC_OUTPUT_BUFFER w) \<Longrightarrow>
   ensures (flush_loop w)
     (\<lambda>r w'. same_out w w' \<and> (r = 0 \<and> content (buf PLC_OUTPUT_BUFFER w') = [] \<or> r = -1 \<and> \<not> sends_good w))
     (\<lambda>e w'. e = E_interrupted \<and> \<not> sends_good w \<and> same_out w w') (\<lambda>w'. False)"
proof (induction w rule: flush_loop.induct)
  case (1 w)
  define b where "b = buf PLC_OUTPUT_BUFFER w"
  have inv: "buf_inv b" using "1.prems" by (simp add: b_def)
  show ?case
  proof (cases "pStart b < pEnd b")
    case False
    with inv have "content b = []" by (simp add: content_def)
    moreover have "flush_loop w = Ok 0 w"
      using False by (subst flush_loop.simps) (simp add: b_def)
    ultimately show ?thesis using inv by (simp add: same_out_def b_def)
  next
    case True
    let ?bs = "content b"
    have rd: "mem_read (bdata b) (pStart b) (pEnd b - pStart b) = Some ?bs"
      using inv by (simp add: mem_read_slice buf_inv_def content_def)
    have bs: "?bs \<noteq> []" "int (length ?bs) = pEnd b - pStart b"
      using True length_content [OF inv] by auto
    have step: "flush_loop w = (case plcSocketSend ?bs w of
        Ok sent w' \<Rightarrow> (if sent \<le> 0 then Ok (-1) w'
           else flush_loop (set_buf PLC_OUTPUT_BUFFER (b\<lparr>pStart := pStart b + sent\<rparr>) w'))
      | Elog e w' \<Rightarrow> Elog e w' | Blocked w' \<Rightarrow> Blocked w' | Stuck u \<Rightarrow> Stuck u)"
      by (subst flush_loop.simps) (simp only: Let_def b_def [symmetric] True rd if_True option.case)
    note sent_spec = plcSocketSend_spec [OF bs(1), of w]
    show ?thesis
    proof (cases "plcSocketSend ?bs w")
      case (Ok sent w')
      then obtain es where w': "w' = w\<lparr>sends := es, wire := wire w @ take (nat sent) ?bs\<rparr>"
        and es: "set es \<subseteq> set (sends w)" and sent: "sent \<le> int (length ?bs)"
        "sent \<le> 0 \<longrightarrow> \<not> sends_good w"
        using sent_spec by auto
      show ?thesis
      proof (cases "sent \<le> 0")
        case True
        with Ok w' es sent inv show ?thesis
          by (simp add: step same_out_def out_frame_def out_stream_def b_def)
      next
        case False
        let ?b = "b\<lparr>pStart := pStart b + sent\<rparr>"
        let ?w = "set_buf PLC_OUTPUT_BUFFER ?b w'"
        have inv': "buf_inv ?b"
          using inv sent(1) False bs(2) by (auto simp: buf_inv_def)
        have "content ?b = drop (nat sent) ?bs"
          using inv False sent(1) bs(2) drop_slice [of "pStart b" sent "pEnd b" "bdata b"]
          by (simp add: content_def buf_inv_def)
        then have same: "same_out w ?w"
          using inv' w' es by (simp add: same_out_def out_frame_def out_stream_def b_def)
        have "ensures (flush_loop ?w)
          (\<lambda>r w'. same_out ?w w' \<and> (r = 0 \<and> content (buf PLC_OUTPUT_BUFFER w') = [] \<or> r = -1 \<and> \<not> sends_good ?w))
          (\<lambda>e w'. e = E_interrupted \<and> \<not> sends_good ?w \<and> same_out ?w w') (\<lambda>w'. False)"
          using "1.IH" [of b ?bs sent w'] True rd Ok False inv' by (simp add: b_def)
        moreover have "sends_good w \<Longrightarrow> sends_good ?w"
          using w' es sends_good_mono [of w ?w] by simp
        ultimately show ?thesis
          using Ok False same unfolding step
          by (auto elim!: ensures_mono intro: same_out_trans)
      qed
    next
      case (Elog e w')
      with sent_spec inv show ?thesis
        by (auto simp: step same_out_def out_frame_def out_stream_def b_def)
    next
      case (Blocked w')
      with sent_spec show ?thesis by simp
    next
      case (Stuck u)
      with sent_spec show ?thesis by simp
    qed
  qed
qed

lemma flush_spec:
  assumes inv: "buf_inv (buf PLC_OUTPUT_BUFFER w)"
  shows "ensures (plcBufferMaybeFlush f w)
    (\<lambda>r w'. same_out w w' \<and>
       (r = 0 \<and> (f \<longrightarrow> content (buf PLC_OUTPUT_BUFFER w') = [])
          \<and> length (content (buf PLC_OUTPUT_BUFFER w')) \<le> 8192
        \<or> r = -1 \<and> \<not> sends_good w))
    (\<lambda>e w'. e = E_interrupted \<and> \<not> sends_good w \<and> same_out w w') (\<lambda>w'. False)"
proof -
  let ?b = "buf PLC_OUTPUT_BUFFER w"
  let ?c = "bufSize ?b - pEnd ?b < PLC_BUFFER_MIN_FREE \<or> pEnd ?b - pStart ?b > PLC_BUFFER_SIZE \<or> f"
  have eq: "plcBufferMaybeFlush f w =
    (if ?c then bindM flush_loop (\<lambda>r. if r < 0 then returnM (-1)
       else bindM (plcBufferMaybeReset PLC_OUTPUT_BUFFER)
         (\<lambda>res. if res < 0 then returnM res else returnM 0)) w
     else Ok 0 w)"
    by (simp add: plcBufferMaybeFlush_def get_buf_def returnM_def)
  show ?thesis
  proof (cases ?c)
    case False
    then have "length (content ?b) \<le> 8192"
      using length_content [OF inv] by (simp add: size_defs)
    with False inv show ?thesis
      by (simp only: eq if_False ensures.simps) (simp add: same_out_def)
  next
    case True
    show ?thesis unfolding eq if_P [OF True]
    proof (rule ensures_bindM)
      show "ensures (flush_loop w)
        (\<lambda>r w'. same_out w w' \<and> (r = 0 \<and> content (buf PLC_OUTPUT_BUFFER w') = [] \<or> r = -1 \<and> \<not> sends_good w))
        (\<lambda>e w'. e = E_interrupted \<and> \<not> sends_good w \<and> same_out w w') (\<lambda>w'. False)"
        by (rule flush_loop_spec [OF inv])
    next
      fix r :: int and w'
      assume r: "same_out w w' \<and> (r = 0 \<and> content (buf PLC_OUTPUT_BUFFER w') = [] \<or> r = -1 \<and> \<not> sends_good w)"
      show "ensures ((if r < 0 then returnM (-1) else bindM (plcBufferMaybeReset PLC_OUTPUT_BUFFER)
           (\<lambda>res. if res < 0 then returnM res else returnM 0)) w')
        (\<lambda>r w'. same_out w w' \<and>
         (r = 0 \<and> (f \<longrightarrow> content (buf PLC_OUTPUT_BUFFER w') = [])
            \<and> length (content (buf PLC_OUTPUT_BUFFER w')) \<le> 8192
          \<or> r = -1 \<and> \<not> sends_good w))
        (\<lambda>e w'. e = E_interrupted \<and> \<not> sends_good w \<and> same_out w w') (\<lambda>w'. False)"
      proof (cases "r < 0")
        case True
        with r show ?thesis by simp
      next
        case False
        with r have w': "same_out w w'" "content (buf PLC_OUTPUT_BUFFER w') = []" by auto
        then obtain b where "plcBufferMaybeReset PLC_OUTPUT_BUFFER w' = Ok 0 (set_buf PLC_OUTPUT_BUFFER b w')"
          "buf_inv b" "content b = []" "bufSize b = bufSize (buf PLC_OUTPUT_BUFFER w')"
          using reset_spec [of w' PLC_OUTPUT_BUFFER] by (auto simp: same_out_def)
        with False w' show ?thesis
          by (simp add: returnM_def same_out_def out_frame_def out_stream_def)
      qed
    qed
  qed
qed

section \<open>Appending\<close>

definition out_kept :: "world \<Rightarrow> world \<Rightarrow> bool" where
  "out_kept w w' \<longleftrightarrow> out_frame w w' \<and> conn_inv w'"

lemma same_out_kept: "conn_inv w \<Longrightarrow> same_out w w' \<Longrightarrow> out_kept w w'"
  by (simp add: same_out_def out_kept_def conn_inv_def out_frame_def alloc_law_def)

text \<open>
  The making of room in \<open>plcBufferAppend\<close>: reset, flush, resize. \<open>Made_room\<close> and
  \<open>No_room\<close> say how it ends.
\<close>

definition Made_room :: "nat \<Rightarrow> world \<Rightarrow> int \<Rightarrow> world \<Rightarrow> bool" where
  "Made_room n w r w' \<longleftrightarrow> out_kept w w' \<and> out_stream w' = out_stream w
     \<and> (r = 0 \<and> pEnd (buf PLC_OUTPUT_BUFFER w') + int n \<le> bufSize (buf PLC_OUTPUT_BUFFER w')
        \<or> r = -1 \<and> \<not> sends_good w)"

definition No_room :: "world \<Rightarrow> elog \<Rightarrow> world \<Rightarrow> bool" where
  "No_room w e w' \<longleftrightarrow> out_kept w w' \<and> out_stream w' = out_stream w
     \<and> (e = E_interrupted \<and> \<not> sends_good w \<or> (\<exists>k. e = E_alloc k) \<and> \<not> alloc_all w)"

lemma resize_out_spec:
  assumes kept: "out_kept w w'" "out_stream w' = out_stream w" and n: "n \<le> MAX_CHUNK"
    and small: "length (content (buf PLC_OUTPUT_BUFFER w')) \<le> 8192"
  shows "ensures (plcBufferMaybeResize PLC_OUTPUT_BUFFER n w') (Made_room n w) (No_room w) (\<lambda>w'. False)"
proof -
  have inv': "buf_inv (buf PLC_OUTPUT_BUFFER w')" "alloc_law w'" "alloc_ok w' = alloc_ok w"
    using kept by (auto simp: out_kept_def conn_inv_def out_frame_def)
  show ?thesis
  proof (rule ensures_mono [OF resize_spec [OF inv'(1,2) n]], goal_cases)
    case (1 r w'')
    with kept show ?case
      by (auto simp: Made_room_def out_kept_def conn_inv_def out_frame_def out_stream_def alloc_law_def)
  next
    case (2 e w'')
    then obtain k where k: "e = E_alloc k" "\<not> alloc_ok w k" "w'' = w'"
      "int k \<le> max (bufSize (buf PLC_OUTPUT_BUFFER w')) (int (length (content (buf PLC_OUTPUT_BUFFER w'))) + int n + 8392)"
      using inv'(3) by auto
    moreover have "bufSize (buf PLC_OUTPUT_BUFFER w') \<le> MaxAllocSize"
      using inv'(1) by (simp add: buf_inv_def)
    ultimately have "int k \<le> MaxAllocSize"
      using small n by (auto simp: size_defs)
    with k kept show ?case by (auto simp: No_room_def alloc_all_def)
  qed simp
qed

lemma make_room_spec:
  assumes inv: "conn_inv w" and n: "n \<le> MAX_CHUNK"
  shows "ensures
    (bindM (plcBufferMaybeReset PLC_OUTPUT_BUFFER) (\<lambda>res.
       if res < 0 then returnM res
       else bindM (plcBufferMaybeFlush False) (\<lambda>res.
         if res < 0 then returnM res else plcBufferMaybeResize PLC_OUTPUT_BUFFER n)) w)
    (Made_room n w) (No_room w) (\<lambda>w'. False)"
proof -
  have invo: "buf_inv (buf PLC_OUTPUT_BUFFER w)"
    using inv by (simp add: conn_inv_def)
  obtain b where b: "plcBufferMaybeReset PLC_OUTPUT_BUFFER w = Ok 0 (set_buf PLC_OUTPUT_BUFFER b w)"
    "buf_inv b" "content b = content (buf PLC_OUTPUT_BUFFER w)"
    "bufSize b = bufSize (buf PLC_OUTPUT_BUFFER w)"
    using reset_spec [OF invo] by blast
  let ?w = "set_buf PLC_OUTPUT_BUFFER b w"
  have same: "same_out w ?w"
    using b by (simp add: same_out_def out_frame_def out_stream_def)
  have good: "sends_good ?w = sends_good w"
    by (simp add: sends_good_def)
  have "ensures (plcBufferMaybeFlush False ?w)
    (\<lambda>r w'. same_out w w' \<and>
       (r = 0 \<and> length (content (buf PLC_OUTPUT_BUFFER w')) \<le> 8192 \<or> r = -1 \<and> \<not> sends_good w))
    (No_room w) (\<lambda>w'. False)"
    using b(2) same good inv
    by (intro ensures_mono [OF flush_spec [of ?w False]])
      (auto simp: No_room_def dest: same_out_trans same_out_kept, auto simp: same_out_def)
  then have "ensures (bindM (plcBufferMaybeFlush False) (\<lambda>res.
       if res < 0 then returnM res else plcBufferMaybeResize PLC_OUTPUT_BUFFER n) ?w)
    (Made_room n w) (No_room w) (\<lambda>w'. False)"
  proof (rule ensures_bindM)
    fix r :: int and w'
    assume r: "same_out w w' \<and>
       (r = 0 \<and> length (content (buf PLC_OUTPUT_BUFFER w')) \<le> 8192 \<or> r = -1 \<and> \<not> sends_good w)"
    then have kept: "out_kept w w'" "out_stream w' = out_stream w"
      using inv by (simp_all add: same_out_kept) (simp add: same_out_def)
    with r resize_out_spec [OF kept n]
    show "ensures ((if r < 0 then returnM r else plcBufferMaybeResize PLC_OUTPUT_BUFFER n) w')
      (Made_room n w) (No_room w) (\<lambda>w'. False)"
      by (auto simp: Made_room_def)
  qed
  with b(1) show ?thesis by simp
qed

text \<open>
  Appending adds exactly the bytes to the stream, or adds nothing and says so. Without
  write errors and with a memory manager that serves every request up to its limit, it
  succeeds.
\<close>

definition Appended :: "byte list \<Rightarrow> world \<Rightarrow> int \<Rightarrow> world \<Rightarrow> bool" where
  "Appended bs w r w' \<longleftrightarrow> out_kept w w' \<and>
     (r = 0 \<and> out_stream w' = out_stream w @ bs
      \<or> r = -1 \<and> \<not> sends_good w \<and> out_stream w' = out_stream w)"

lemma append_write_spec:
  assumes kept: "out_kept w w'" "out_stream w' = out_stream w" and n: "n \<le> length src"
    and room: "pEnd (buf PLC_OUTPUT_BUFFER w') + int n \<le> bufSize (buf PLC_OUTPUT_BUFFER w')"
  shows "ensures (bindM (get_buf PLC_OUTPUT_BUFFER) (\<lambda>b.
       bindM (needM OutOfBounds (mem_read src 0 (int n))) (\<lambda>bs.
       bindM (needM OutOfBounds (mem_write (bdata b) (pEnd b) bs)) (\<lambda>d.
       bindM (put_buf PLC_OUTPUT_BUFFER (b\<lparr>bdata := d, pEnd := pEnd b + int n\<rparr>)) (\<lambda>_.
       bindM (checkM AssertFail (pEnd b + int n \<le> bufSize b)) (\<lambda>_.
       returnM 0))))) w') (Appended (take n src) w) (No_room w) (\<lambda>w'. False)"
proof -
  let ?b = "buf PLC_OUTPUT_BUFFER w'"
  have inv: "buf_inv ?b" using kept by (simp add: out_kept_def conn_inv_def)
  have rd: "mem_read src 0 (int n) = Some (take n src)"
    using n by (simp add: mem_read_def)
  obtain d where d: "mem_write (bdata ?b) (pEnd ?b) (take n src) = Some d"
    using mem_write_Some [of "pEnd ?b" "take n src" "bdata ?b"] room inv n
    by (auto simp: buf_inv_def)
  let ?b' = "?b\<lparr>bdata := d, pEnd := pEnd ?b + int n\<rparr>"
  have inv': "buf_inv ?b'"
    using inv room length_mem_write [OF d] by (auto simp: buf_inv_def)
  have "content ?b' = content ?b @ take n src"
    using slice_mem_write [OF d, of "pStart ?b"] inv n by (simp add: content_def buf_inv_def)
  with inv' rd d room kept show ?thesis
    by (auto simp: get_buf_def put_buf_def Appended_def out_kept_def conn_inv_def
        out_frame_def out_stream_def alloc_law_def)
qed

lemma append_spec:
  assumes inv: "conn_inv w" and n: "n \<le> MAX_CHUNK" "n \<le> length src"
  shows "ensures (plcBufferAppend src n w) (Appended (take n src) w) (No_room w) (\<lambda>w'. False)"
proof -
  let ?b = "buf PLC_OUTPUT_BUFFER w"
  let ?room = "bindM (plcBufferMaybeReset PLC_OUTPUT_BUFFER) (\<lambda>res.
       if res < 0 then returnM res
       else bindM (plcBufferMaybeFlush False) (\<lambda>res.
         if res < 0 then returnM res else plcBufferMaybeResize PLC_OUTPUT_BUFFER n))"
  have ni: "int_of_size n = int n"
    using n by (simp add: MAX_CHUNK_def)
  have "ensures ((if bufSize ?b - pEnd ?b < int n then ?room else returnM 0) w)
    (Made_room n w) (No_room w) (\<lambda>w'. False)"
    using make_room_spec [OF inv n(1)] inv by (simp add: Made_room_def out_kept_def)
  then have "ensures (bindM (if bufSize ?b - pEnd ?b < int n then ?room else returnM 0) (\<lambda>res.
     if res < 0 then returnM res
     else
       bindM (get_buf PLC_OUTPUT_BUFFER) (\<lambda>b.
       bindM (needM OutOfBounds (mem_read src 0 (int n))) (\<lambda>bs.
       bindM (needM OutOfBounds (mem_write (bdata b) (pEnd b) bs)) (\<lambda>d.
       bindM (put_buf PLC_OUTPUT_BUFFER (b\<lparr>bdata := d, pEnd := pEnd b + int n\<rparr>)) (\<lambda>_.
       bindM (checkM AssertFail (pEnd b + int n \<le> bufSize b)) (\<lambda>_.
       returnM 0)))))) w) (Appended (take n src) w) (No_room w) (\<lambda>w'. False)"
  proof (rule ensures_bindM, goal_cases)
    case (1 r w')
    show ?case
    proof (cases "r < 0")
      case True
      with 1 show ?thesis by (auto simp: Made_room_def Appended_def)
    next
      case False
      with 1 append_write_spec [of w w' n src] n(2) show ?thesis
        by (auto simp: Made_room_def)
    qed
  qed
  then show ?thesis
    by (simp add: plcBufferAppend_def get_buf_def ni)
qed

section \<open>Reading from the socket\<close>

lemma plcSocketRecv_spec:
  "0 < n \<Longrightarrow> ensures (plcSocketRecv n w)
    (\<lambda>x w'. \<exists>es. w' = w\<lparr>recvs := es\<rparr> \<and>
       (case x of (sz, bs) \<Rightarrow>
          0 < sz \<and> sz = int (length bs) \<and> length bs \<le> n \<and> avail (recvs w) = bs @ avail es
          \<or> sz \<le> 0 \<and> avail (recvs w) = []))
    (\<lambda>e w'. e = E_interrupted \<and> avail (recvs w) = [] \<and> (\<exists>es. w' = w\<lparr>recvs := es\<rparr>))
    (\<lambda>w'. avail (recvs w) = [] \<and> (\<exists>es. w' = w\<lparr>recvs := es\<rparr>))"
proof (induction n w rule: plcSocketRecv.induct)
  case (1 n w)
  show ?case
  proof (cases "recvs w")
    case Nil
    then have "w\<lparr>recvs := []\<rparr> = w" by (cases w) simp
    with Nil show ?thesis
      by (subst plcSocketRecv.simps) (auto intro!: exI [of _ "[]"])
  next
    case (Cons ev es)
    show ?thesis
    proof (cases ev)
      case (RData bs)
      show ?thesis
      proof (cases "bs = []")
        case True
        with Cons RData show ?thesis by (subst plcSocketRecv.simps) auto
      next
        case False
        with "1.prems" have "take n bs \<noteq> []" by simp
        moreover have "bs @ avail es = take n bs @ avail (if length bs \<le> n then es else RData (drop n bs) # es)"
          by simp
        ultimately show ?thesis
          using Cons RData False by (subst plcSocketRecv.simps) (auto simp: min_def)
      qed
    next
      case (RFail e)
      show ?thesis
      proof (cases e)
        case EAGAIN
        have eq: "plcSocketRecv n w = plcSocketRecv n (w\<lparr>recvs := es\<rparr>)"
          using Cons RFail EAGAIN by (subst plcSocketRecv.simps) simp
        have "ensures (plcSocketRecv n (w\<lparr>recvs := es\<rparr>))
          (\<lambda>x w'. \<exists>es'. w' = (w\<lparr>recvs := es\<rparr>)\<lparr>recvs := es'\<rparr> \<and>
             (case x of (sz, bs) \<Rightarrow>
                0 < sz \<and> sz = int (length bs) \<and> length bs \<le> n \<and> avail (recvs (w\<lparr>recvs := es\<rparr>)) = bs @ avail es'
                \<or> sz \<le> 0 \<and> avail (recvs (w\<lparr>recvs := es\<rparr>)) = []))
          (\<lambda>e w'. e = E_interrupted \<and> avail (recvs (w\<lparr>recvs := es\<rparr>)) = [] \<and> (\<exists>es'. w' = (w\<lparr>recvs := es\<rparr>)\<lparr>recvs := es'\<rparr>))
          (\<lambda>w'. avail (recvs (w\<lparr>recvs := es\<rparr>)) = [] \<and> (\<exists>es'. w' = (w\<lparr>recvs := es\<rparr>)\<lparr>recvs := es'\<rparr>))"
          using Cons RFail EAGAIN "1.prems" by (intro "1.IH") auto
        with Cons RFail EAGAIN show ?thesis unfolding eq by simp
      next
        case EINTR
        with Cons RFail show ?thesis by (subst plcSocketRecv.simps) auto
      next
        case EOTHER
        with Cons RFail show ?thesis by (subst plcSocketRecv.simps) auto
      qed
    qed
  qed
qed

definition in_kept :: "world \<Rightarrow> world \<Rightarrow> bool" where
  "in_kept w w' \<longleftrightarrow> in_frame w w' \<and> conn_inv w'"

lemma in_kept_trans: "in_kept w w' \<Longrightarrow> in_kept w' w'' \<Longrightarrow> in_kept w w''"
  by (auto simp: in_kept_def intro: in_frame_trans)

text \<open>
  How a fill ends: \<open>Filled k\<close> with \<open>k\<close> bytes in the buffer and the stream unchanged;
  \<open>Short k\<close> with all that ever came in the buffer, fewer than \<open>k\<close> bytes.
\<close>

definition Filled :: "int \<Rightarrow> world \<Rightarrow> world \<Rightarrow> bool" where
  "Filled k w w' \<longleftrightarrow> in_kept w w' \<and> in_stream w' = in_stream w
     \<and> k \<le> int (length (content (buf PLC_INPUT_BUFFER w')))"

definition Short :: "int \<Rightarrow> world \<Rightarrow> world \<Rightarrow> bool" where
  "Short k w w' \<longleftrightarrow> in_kept w w' \<and> content (buf PLC_INPUT_BUFFER w') = in_stream w
     \<and> int (length (in_stream w)) < k"

lemma conn_inv_recvs [simp]: "conn_inv (w\<lparr>recvs := es\<rparr>) = conn_inv w"
  by (simp add: conn_inv_def alloc_law_def)

lemma store_received:
  assumes inv: "conn_inv w" and room: "int (length bs) \<le> bufSize (buf PLC_INPUT_BUFFER w) - pEnd (buf PLC_INPUT_BUFFER w)"
    and b: "b = buf PLC_INPUT_BUFFER w" and av: "avail (recvs w) = bs @ avail es"
  shows "\<exists>d. mem_write (bdata b) (pEnd b) bs = Some d \<and>
    (let w' = set_buf PLC_INPUT_BUFFER (b\<lparr>bdata := d, pEnd := pEnd b + int (length bs)\<rparr>) (w\<lparr>recvs := es\<rparr>)
     in in_kept w w' \<and> in_stream w' = in_stream w
        \<and> content (buf PLC_INPUT_BUFFER w') = content b @ bs)"
proof -
  have binv: "buf_inv b" using inv b by (simp add: conn_inv_def)
  obtain d where d: "mem_write (bdata b) (pEnd b) bs = Some d"
    using mem_write_Some [of "pEnd b" bs "bdata b"] binv room b by (auto simp: buf_inv_def)
  let ?b = "b\<lparr>bdata := d, pEnd := pEnd b + int (length bs)\<rparr>"
  have "buf_inv ?b"
    using binv room b length_mem_write [OF d] by (auto simp: buf_inv_def)
  moreover have "content ?b = content b @ bs"
    using slice_mem_write [OF d, of "pStart b"] binv by (simp add: content_def buf_inv_def)
  ultimately show ?thesis
    using d inv b av
    by (auto simp: in_kept_def in_frame_def conn_inv_def in_stream_def alloc_law_def)
qed

lemma receive_fill_spec:
  "conn_inv w \<Longrightarrow> k \<le> bufSize (buf PLC_INPUT_BUFFER w) - pEnd (buf PLC_INPUT_BUFFER w) \<Longrightarrow>
   m = int (length (content (buf PLC_INPUT_BUFFER w))) + k \<Longrightarrow>
   ensures (receive_loop_fill k w)
     (\<lambda>r w'. r = 0 \<and> Filled m w w' \<or> r = -1 \<and> Short m w w')
     (\<lambda>e w'. e = E_interrupted \<and> Short m w w') (Short m w)"
proof (induction k w arbitrary: m rule: receive_loop_fill.induct)
  case (1 k w)
  define b where "b = buf PLC_INPUT_BUFFER w"
  have binv: "buf_inv b" using "1.prems" by (simp add: b_def conn_inv_def)
  show ?case
  proof (cases "0 < k")
    case False
    have "receive_loop_fill k w = Ok 0 w"
      using False by (subst receive_loop_fill.simps) simp
    with False "1.prems" show ?thesis by (simp add: Filled_def in_kept_def)
  next
    case True
    let ?n = "size_of_int (bufSize b - pEnd b)"
    have room: "0 < bufSize b - pEnd b" "int ?n = bufSize b - pEnd b"
      using True "1.prems"(2) binv by (auto simp: b_def size_of_int_nonneg buf_inv_def size_defs)
    have step: "receive_loop_fill k w = (case plcSocketRecv ?n w of
        Ok (recBytes, bs) w' \<Rightarrow> (if recBytes \<le> 0 then Ok (-1) w'
          else (case mem_write (bdata b) (pEnd b) bs of None \<Rightarrow> Stuck OutOfBounds
            | Some d \<Rightarrow> (if pEnd b + recBytes \<le> bufSize b
                 then receive_loop_fill (k - recBytes)
                   (set_buf PLC_INPUT_BUFFER (b\<lparr>bdata := d, pEnd := pEnd b + recBytes\<rparr>) w')
                 else Stuck AssertFail)))
      | Elog e w' \<Rightarrow> Elog e w' | Blocked w' \<Rightarrow> Blocked w' | Stuck u \<Rightarrow> Stuck u)"
      by (subst receive_loop_fill.simps) (simp only: Let_def b_def [symmetric] True if_True)
    have "0 < ?n" using room by linarith
    note recv = plcSocketRecv_spec [OF this, of w]
    have short: "Short m w (w\<lparr>recvs := es\<rparr>)" if "avail (recvs w) = []" for es
      using that "1.prems" True by (simp add: Short_def in_kept_def in_frame_def in_stream_def)
    show ?thesis
    proof (cases "plcSocketRecv ?n w")
      case (Ok x w')
      obtain sz bs where x: "x = (sz, bs)" by (cases x)
      show ?thesis
      proof (cases "sz \<le> 0")
        case True
        with recv Ok x short show ?thesis by (auto simp: step)
      next
        case False
        with recv Ok x obtain es where es: "w' = w\<lparr>recvs := es\<rparr>" "sz = int (length bs)"
          "length bs \<le> ?n" "avail (recvs w) = bs @ avail es" by auto
        have "int (length bs) \<le> bufSize (buf PLC_INPUT_BUFFER w) - pEnd (buf PLC_INPUT_BUFFER w)"
          using es(3) room(2) by (simp add: b_def)
        from store_received [OF "1.prems"(1) this b_def es(4)] obtain d where
          d: "mem_write (bdata b) (pEnd b) bs = Some d" and
          kept: "in_kept w (set_buf PLC_INPUT_BUFFER (b\<lparr>bdata := d, pEnd := pEnd b + sz\<rparr>) w')"
            "in_stream (set_buf PLC_INPUT_BUFFER (b\<lparr>bdata := d, pEnd := pEnd b + sz\<rparr>) w') = in_stream w"
            "content (b\<lparr>bdata := d, pEnd := pEnd b + sz\<rparr>) = content b @ bs"
          by (auto simp: Let_def es)
        let ?w = "set_buf PLC_INPUT_BUFFER (b\<lparr>bdata := d, pEnd := pEnd b + sz\<rparr>) w'"
        have fits: "pEnd b + sz \<le> bufSize b" using es(2,3) room(2) by linarith
        have "ensures (receive_loop_fill (k - sz) ?w)
          (\<lambda>r w'. r = 0 \<and> Filled m ?w w' \<or> r = -1 \<and> Short m ?w w')
          (\<lambda>e w'. e = E_interrupted \<and> Short m ?w w') (Short m ?w)"
          using "1.IH" [OF True b_def Ok x [symmetric] False d fits, of m] "1.prems" kept es(2)
          by (simp add: in_kept_def b_def)
        then have "ensures (receive_loop_fill (k - sz) ?w)
          (\<lambda>r w'. r = 0 \<and> Filled m w w' \<or> r = -1 \<and> Short m w w')
          (\<lambda>e w'. e = E_interrupted \<and> Short m w w') (Short m w)"
          by (rule ensures_mono)
            (auto simp: Filled_def Short_def kept(2) intro: in_kept_trans [OF kept(1)])
        with Ok x False d fits show ?thesis by (simp add: step)
      qed
    next
      case (Elog e w')
      with recv short show ?thesis by (auto simp: step)
    next
      case (Blocked w')
      with recv short show ?thesis by (auto simp: step)
    next
      case (Stuck u)
      with recv show ?thesis by simp
    qed
  qed
qed

definition No_memory :: "world \<Rightarrow> elog \<Rightarrow> world \<Rightarrow> bool" where
  "No_memory w e w' \<longleftrightarrow> (\<exists>k. e = E_alloc k) \<and> \<not> alloc_all w \<and> in_kept w w' \<and> in_stream w' = in_stream w"

lemma receive_spec:
  assumes inv: "conn_inv w" and n: "n \<le> MAX_CHUNK"
  shows "ensures (plcBufferReceive n w)
    (\<lambda>r w'. r = 0 \<and> Filled (int n) w w' \<or> r = -1 \<and> Short (int n) w w')
    (\<lambda>e w'. e = E_interrupted \<and> Short (int n) w w' \<or> No_memory w e w') (Short (int n) w)"
proof -
  let ?I = PLC_INPUT_BUFFER
  have ni: "int_of_size n = int n" using n by (simp add: MAX_CHUNK_def)
  have binv: "buf_inv (buf ?I w)" and law: "alloc_law w" using inv by (auto simp: conn_inv_def)
  have len: "int (length (content (buf ?I w))) = pEnd (buf ?I w) - pStart (buf ?I w)"
    by (rule length_content [OF binv])
  show ?thesis
  proof (cases "pEnd (buf ?I w) - pStart (buf ?I w) < int n")
    case False
    then have "plcBufferReceive n w = Ok 0 w"
      by (simp add: plcBufferReceive_def get_buf_def ni returnM_def)
    with False inv len show ?thesis
      by (simp add: Filled_def in_kept_def)
  next
    case True
    obtain b where b: "plcBufferMaybeReset ?I w = Ok 0 (set_buf ?I b w)" "buf_inv b"
      "content b = content (buf ?I w)" "bufSize b = bufSize (buf ?I w)"
      using reset_spec [OF binv] by blast
    let ?w = "set_buf ?I b w"
    have "plcBufferReceive n w = bindM (plcBufferMaybeResize ?I n) (\<lambda>res.
       if res < 0 then returnM res
       else bindM (get_buf ?I) (\<lambda>b. receive_loop_fill (int n - (pEnd b - pStart b)))) ?w"
      using True b(1) unfolding plcBufferReceive_def ni by (simp add: get_buf_def)
    moreover have "ensures (plcBufferMaybeResize ?I n ?w)
      (\<lambda>r w'. r = 0 \<and> (\<exists>b'. w' = set_buf ?I b' w \<and> buf_inv b' \<and> content b' = content (buf ?I w)
         \<and> pEnd b' + int n \<le> bufSize b'))
      (\<lambda>e w'. e = E_interrupted \<and> Short (int n) w w' \<or> No_memory w e w') (Short (int n) w)"
    proof (rule ensures_mono [OF resize_spec [of ?w ?I n]], goal_cases)
      case (5 e w')
      then obtain k where k: "e = E_alloc k" "\<not> alloc_ok w k" "w' = ?w"
        "int k \<le> max (bufSize b) (int (length (content b)) + int n + 8392)" by auto
      have "bufSize b \<le> MaxAllocSize" using b(2) by (simp add: buf_inv_def)
      with k(4) True len b(3) n have "int k \<le> MaxAllocSize"
        by (simp add: size_defs)
      with k inv b show ?case
        by (auto simp: No_memory_def alloc_all_def in_kept_def in_frame_def conn_inv_def
            in_stream_def alloc_law_def)
    qed (use b law n in \<open>auto simp: alloc_law_def\<close>)
    ultimately show ?thesis
    proof (simp only:, elim ensures_bindM, goal_cases)
      case (1 r w')
      then obtain b' where b': "r = 0" "w' = set_buf ?I b' w" "buf_inv b'"
        "content b' = content (buf ?I w)" "pEnd b' + int n \<le> bufSize b'" by blast
      have inv': "conn_inv w'" and kept: "in_kept w w'" and str: "in_stream w' = in_stream w"
        using b' inv by (auto simp: conn_inv_def in_kept_def in_frame_def in_stream_def alloc_law_def)
      have b'len: "int (length (content b')) = pEnd b' - pStart b'"
        by (rule length_content [OF b'(3)])
      have "0 \<le> pStart b'" "pStart b' \<le> pEnd b'" using b'(3) by (auto simp: buf_inv_def)
      then have "ensures (receive_loop_fill (int n - (pEnd b' - pStart b')) w')
        (\<lambda>r w''. r = 0 \<and> Filled (int n) w' w'' \<or> r = -1 \<and> Short (int n) w' w'')
        (\<lambda>e w''. e = E_interrupted \<and> Short (int n) w' w'') (Short (int n) w')"
        using b' b'len by (intro receive_fill_spec inv') auto
      then have "ensures (receive_loop_fill (int n - (pEnd b' - pStart b')) w')
        (\<lambda>r w''. r = 0 \<and> Filled (int n) w w'' \<or> r = -1 \<and> Short (int n) w w'')
        (\<lambda>e w''. e = E_interrupted \<and> Short (int n) w w'' \<or> No_memory w e w'') (Short (int n) w)"
        by (rule ensures_mono) (auto simp: Filled_def Short_def str intro: in_kept_trans [OF kept])
      with b' show ?case by (simp add: get_buf_def)
    qed
  qed
qed

text \<open>Reading takes a prefix of the stream, or reports that the stream is too short.\<close>

definition Took :: "nat \<Rightarrow> world \<Rightarrow> int \<times> byte list option \<Rightarrow> world \<Rightarrow> bool" where
  "Took n w x w' \<longleftrightarrow>
     x = (0, Some (take n (in_stream w))) \<and> n \<le> length (in_stream w)
       \<and> in_kept w w' \<and> in_stream w' = drop n (in_stream w)
     \<or> x = (-1, None) \<and> Short (int n) w w'"

lemma read_spec:
  assumes inv: "conn_inv w" and n: "n \<le> MAX_CHUNK"
  shows "ensures (plcBufferRead n w) (Took n w)
    (\<lambda>e w'. e = E_interrupted \<and> Short (int n) w w' \<or> No_memory w e w') (Short (int n) w)"
  unfolding plcBufferRead_def
proof (rule ensures_bindM, rule receive_spec [OF inv n], goal_cases)
  case (1 r w')
  show ?case
  proof (cases "r = 0")
    case False
    with 1 show ?thesis by (auto simp: Took_def)
  next
    case True
    let ?b = "buf PLC_INPUT_BUFFER w'"
    let ?b' = "?b\<lparr>pStart := pStart ?b + int n\<rparr>"
    let ?w = "set_buf PLC_INPUT_BUFFER ?b' w'"
    from 1 True have f: "Filled (int n) w w'" by auto
    then have binv: "buf_inv ?b" and kept: "in_kept w w'" and str: "in_stream w' = in_stream w"
      and len: "int n \<le> pEnd ?b - pStart ?b" "n \<le> length (content ?b)"
      using length_content [of ?b] by (auto simp: Filled_def in_kept_def conn_inv_def)
    have rd: "mem_read (bdata ?b) (pStart ?b) (int n) = Some (take n (content ?b))"
      using binv len mem_read_slice [of "pStart ?b" "pStart ?b + int n" "bdata ?b"]
        take_slice [of "int n" "pStart ?b" "pEnd ?b" "bdata ?b"]
      by (simp add: buf_inv_def content_def)
    have cont: "content ?b' = drop n (content ?b)"
      using binv len drop_slice [of "pStart ?b" "int n" "pEnd ?b" "bdata ?b"]
      by (simp add: buf_inv_def content_def)
    have "buf_inv ?b'" using binv len by (auto simp: buf_inv_def)
    with kept have kept': "in_kept w ?w"
      by (auto simp: in_kept_def in_frame_def conn_inv_def alloc_law_def)
    have w: "take n (in_stream w) = take n (content ?b)" "drop n (in_stream w) = in_stream ?w"
      "n \<le> length (in_stream w)"
      using len(2) str [symmetric] cont by (simp_all add: in_stream_def)
    then show ?thesis
      using True rd kept' by (simp add: get_buf_def put_buf_def Took_def returnM_def)
  qed
qed

end
