(* ===== verification/Message_Data.thy ===== *)
theory Message_Data
  imports Connectivity
begin

text \<open>
  The data the protocol carries: \<^verbatim>\<open>src/common/messages/*.h\<close> and the operations of
  \<^verbatim>\<open>src/common/comm_messages.c\<close> on it that do not release memory.

  A \<open>char*\<close> is \<open>None\<close> for NULL or the block's bytes without the final NUL. The
  \<open>value\<close> pointer of a \<open>rawdata\<close> is \<open>None\<close> for NULL or the object it points to, by its
  type: a number is its bit pattern (so a \<open>float4\<close> is the 32 bits of the float), an array is a
  \<open>plcArray\<close> on the receiving side and a \<open>plcIterator\<close> on the sending side, the
  latter given by the objects its \<open>next\<close> callback returns, in order.
\<close>

section \<open>Types\<close>

datatype plcDatatype =
    PLC_DATA_INT1
  | PLC_DATA_INT2
  | PLC_DATA_INT4
  | PLC_DATA_INT8
  | PLC_DATA_FLOAT4
  | PLC_DATA_FLOAT8
  | PLC_DATA_TEXT
  | PLC_DATA_ARRAY
  | PLC_DATA_UDT
  | PLC_DATA_BYTEA
  | PLC_DATA_INVALID
  | PLC_DATA_OTHER int   \<comment> \<open>an \<open>int\<close> outside the enumeration\<close>

fun dt_code :: "plcDatatype \<Rightarrow> int" where
  "dt_code PLC_DATA_INT1 = 0"
| "dt_code PLC_DATA_INT2 = 1"
| "dt_code PLC_DATA_INT4 = 2"
| "dt_code PLC_DATA_INT8 = 3"
| "dt_code PLC_DATA_FLOAT4 = 4"
| "dt_code PLC_DATA_FLOAT8 = 5"
| "dt_code PLC_DATA_TEXT = 6"
| "dt_code PLC_DATA_ARRAY = 7"
| "dt_code PLC_DATA_UDT = 8"
| "dt_code PLC_DATA_BYTEA = 9"
| "dt_code PLC_DATA_INVALID = 10"
| "dt_code (PLC_DATA_OTHER i) = i"

definition dt_of_code :: "int \<Rightarrow> plcDatatype" where
  "dt_of_code i =
     (if 0 \<le> i \<and> i \<le> 10 then
        [PLC_DATA_INT1, PLC_DATA_INT2, PLC_DATA_INT4, PLC_DATA_INT8, PLC_DATA_FLOAT4,
         PLC_DATA_FLOAT8, PLC_DATA_TEXT, PLC_DATA_ARRAY, PLC_DATA_UDT, PLC_DATA_BYTEA,
         PLC_DATA_INVALID] ! nat i
      else PLC_DATA_OTHER i)"

type_synonym cstr = "byte list option"

datatype plcType = PlcType
  (ty: plcDatatype) (nSubTypes: i16) (typeName: cstr) (subTypes: "plcType list")

section \<open>Values\<close>

record plcArrayMeta =
  atype :: plcDatatype
  ndims :: i32
  dims :: "i32 list"
  asize :: i32

datatype rvalue =
    VInt1 byte
  | VInt2 i16
  | VInt4 i32
  | VInt8 i64
  | VFloat4 i32
  | VFloat8 i64
  | VText "byte list"
  | VBytea "byte list"
  | VArray plcArrayMeta "rawdata list"   \<comment> \<open>\<open>plcArray\<close>: cell \<open>i\<close> of \<open>nulls\<close> and \<open>data\<close>\<close>
  | VIter plcArrayMeta "rawdata list"    \<comment> \<open>\<open>plcIterator\<close>: what \<open>next\<close> returns\<close>
  | VUdt "rawdata list"                  \<comment> \<open>\<open>plcUDT\<close>\<close>
and rawdata = Rawdata (isnull: bool) (rvalue: "rvalue option")

record plcArgument =
  argType :: plcType
  argName :: cstr
  argData :: rawdata

section \<open>Messages\<close>

definition MT_CALLREQ :: byte where "MT_CALLREQ = 67"
definition MT_RESULT :: byte where "MT_RESULT = 82"
definition MT_EXCEPTION :: byte where "MT_EXCEPTION = 69"
definition MT_SQL :: byte where "MT_SQL = 83"
definition MT_LOG :: byte where "MT_LOG = 76"
definition MT_PING :: byte where "MT_PING = 80"

record plcMsgCallreq =
  objectid :: i32
  hasChanged :: i32
  procName :: cstr
  procSrc :: cstr
  retType :: plcType
  retset :: i32
  nargs :: i32
  args :: "plcArgument list"

record plcMsgError =
  emessage :: cstr
  stacktrace :: cstr

text \<open>
  \<open>exception_callback\<close> is \<open>None\<close> for a NULL callback, else the function called after the rows
  are sent; it may return NULL.
\<close>

record plcMsgResult =
  rows :: i32
  cols :: i32
  types :: "plcType list"
  names :: "cstr list"
  rdata :: "rawdata list list"
  exception_callback :: "(unit \<Rightarrow> plcMsgError option) option"

record plcMsgLog =
  level :: i32
  lmessage :: cstr

definition SQL_TYPE_STATEMENT :: i32 where "SQL_TYPE_STATEMENT = 1"

record plcMsgSQL =
  sqltype :: i32
  statement :: cstr

datatype plcMessage =
    MsgPing
  | MsgCallreq plcMsgCallreq
  | MsgResult plcMsgResult
  | MsgError plcMsgError
  | MsgLog plcMsgLog
  | MsgSQL plcMsgSQL
  | MsgUnknown i16   \<comment> \<open>a \<open>msgtype\<close> that is none of these\<close>

section \<open>Lengths and names of types\<close>

text \<open>\<open>plc_get_type_length\<close>: the width of an array element; a pointer for the boxed types.\<close>

fun plc_get_type_length :: "plcDatatype \<Rightarrow> ('s, int) prog" where
  "plc_get_type_length PLC_DATA_INT1 = returnM 1"
| "plc_get_type_length PLC_DATA_INT2 = returnM 2"
| "plc_get_type_length PLC_DATA_INT4 = returnM 4"
| "plc_get_type_length PLC_DATA_INT8 = returnM 8"
| "plc_get_type_length PLC_DATA_FLOAT4 = returnM 4"
| "plc_get_type_length PLC_DATA_FLOAT8 = returnM 8"
| "plc_get_type_length PLC_DATA_TEXT = returnM 8"
| "plc_get_type_length PLC_DATA_UDT = returnM 8"
| "plc_get_type_length PLC_DATA_BYTEA = returnM 8"
| "plc_get_type_length dt = elogM (E_type_length (dt_code dt))"

definition plc_get_type_name :: "plcDatatype \<Rightarrow> string" where
  "plc_get_type_name dt =
     (if 0 \<le> dt_code dt \<and> dt_code dt \<le> 10 then
        [''PLC_DATA_INT1'', ''PLC_DATA_INT2'', ''PLC_DATA_INT4'', ''PLC_DATA_INT8'',
         ''PLC_DATA_FLOAT4'', ''PLC_DATA_FLOAT8'', ''PLC_DATA_TEXT'', ''PLC_DATA_ARRAY'',
         ''PLC_DATA_UDT'', ''PLC_DATA_BYTEA'', ''PLC_DATA_INVALID''] ! nat (dt_code dt)
      else ''UNKNOWN'')"

section \<open>Allocation\<close>

text \<open>The blocks \<open>plc_alloc_array\<close> and \<open>plc_alloc_udt\<close> ask for, with the sizes of the C structures.\<close>

definition plc_alloc_array :: "i32 \<Rightarrow> (world, unit) prog" where
  "plc_alloc_array n =
     bindM (plc_alloc 24) (\<lambda>_.
     bindM (plc_alloc 24) (\<lambda>_.
     if 0 < sint n then bindM (plc_alloc (size_mult (size_of_int (sint n)) 4)) (\<lambda>_. returnM ())
     else returnM ()))"

definition plc_alloc_udt :: "int \<Rightarrow> (world, unit) prog" where
  "plc_alloc_udt n =
     bindM (plc_alloc 8) (\<lambda>_.
     bindM (plc_alloc (size_mult (size_of_int n) 16)) (\<lambda>_. returnM ()))"

section \<open>Releasing values\<close>

text \<open>
  \<open>plc_free_udt\<close>, \<open>plc_free_array\<close>, \<open>free_result\<close> and \<open>free_callreq\<close> as the programs that send and receive meet them. Values
  have no addresses here, so nothing becomes free; what is left of a release are the pointers it goes through: \<open>pfree\<close> of NULL and
  a structure that is not what the type says are undefined. The theory \<open>Release\<close> has the same functions on blocks of memory.
\<close>

definition free_value :: "rvalue option \<Rightarrow> ('s, unit) prog" where
  "free_value v = (case v of None \<Rightarrow> stuckM NullDeref | Some _ \<Rightarrow> returnM ())"

lemma rawdata_size: "d \<in> set ds \<Longrightarrow> size_option size (rvalue d) \<le> size_list size ds"
proof (induction ds)
  case (Cons x ds)
  have "size_option size (rvalue x) \<le> size x" by (cases x) simp
  with Cons show ?case by auto
qed simp

function release_udt :: "rvalue option \<Rightarrow> plcType \<Rightarrow> bool \<Rightarrow> ('s, unit) prog"
  and release_array :: "rvalue option \<Rightarrow> plcType \<Rightarrow> bool \<Rightarrow> ('s, unit) prog" where
  "release_udt udt type isSender =
     (case udt of
        None \<Rightarrow> stuckM NullDeref
      | Some (VUdt ds) \<Rightarrow>
          traverse (nat (sint (nSubTypes type))) (zip (subTypes type) ds) (\<lambda>(sub, d).
            if \<not> isnull d then
              if \<not> isSender \<and> ty sub = PLC_DATA_ARRAY then release_array (rvalue d) sub isSender
              else free_value (rvalue d)
            else returnM ())
      | Some _ \<Rightarrow> stuckM BadShape)"
| "release_array arr type isSender =
     (case arr of
        None \<Rightarrow> returnM ()
      | Some (VArray meta cells) \<Rightarrow>
          bindM (if atype meta = PLC_DATA_TEXT \<or> atype meta = PLC_DATA_BYTEA then
                   traverse (nat (sint (asize meta))) cells (\<lambda>_. returnM ())
                 else returnM ()) (\<lambda>_.
          if atype meta = PLC_DATA_UDT then
            traverse (nat (sint (asize meta))) cells (\<lambda>c.
              if rvalue c \<noteq> None then
                (case subTypes type of [] \<Rightarrow> stuckM OutOfBounds | sub # _ \<Rightarrow> release_udt (rvalue c) sub isSender)
              else returnM ())
          else returnM ())
      | Some _ \<Rightarrow> stuckM BadShape)"
  by pat_completeness auto
termination
  by (relation "measure (case_sum (\<lambda>(v, t, s). size_option size v) (\<lambda>(v, t, s). size_option size v))")
    (auto dest!: set_zip_rightD rawdata_size)

declare release_udt.simps [simp del] release_array.simps [simp del]

definition release_data :: "bool \<Rightarrow> plcType \<Rightarrow> rawdata \<Rightarrow> ('s, unit) prog" where
  "release_data isSender type d =
     (if rvalue d \<noteq> None then
        bindM (if ty type = PLC_DATA_UDT then release_udt (rvalue d) type isSender else returnM ()) (\<lambda>_.
        if \<not> isSender \<and> ty type = PLC_DATA_ARRAY then release_array (rvalue d) type isSender else returnM ())
      else returnM ())"

definition release_result :: "bool \<Rightarrow> plcMsgResult \<Rightarrow> ('s, unit) prog" where
  "release_result isSender res =
     traverse (nat (sint (rows res))) (rdata res) (\<lambda>row.
       traverse (nat (sint (cols res))) (zip (types res) row) (\<lambda>(t, d). release_data isSender t d))"

text \<open>With \<open>isShared\<close>, which is how the server calls it: the names belong to the description of the function.\<close>

definition release_callreq :: "bool \<Rightarrow> plcMsgCallreq \<Rightarrow> ('s, unit) prog" where
  "release_callreq isSender req =
     traverse (nat (sint (nargs req))) (args req) (\<lambda>a. release_data isSender (argType a) (argData a))"

text \<open>No value that is not marked NULL is a NULL pointer, at any depth.\<close>

fun marked :: "rawdata \<Rightarrow> bool" where
  "marked (Rawdata isn v) \<longleftrightarrow> isn \<or> (case v of
       None \<Rightarrow> False
     | Some (VArray m ds) \<Rightarrow> (\<forall>d \<in> set ds. marked d)
     | Some (VIter m ds) \<Rightarrow> (\<forall>d \<in> set ds. marked d)
     | Some (VUdt ds) \<Rightarrow> (\<forall>d \<in> set ds. marked d)
     | Some _ \<Rightarrow> True)"

lemma marked_value: "marked d \<Longrightarrow> \<not> isnull d \<Longrightarrow> rvalue d \<noteq> None"
  by (cases d) (auto split: option.splits)

section \<open>Facts about the data model\<close>

text \<open>A type's code is canonical when \<open>PLC_DATA_OTHER\<close> is not used for a named type.\<close>

definition dt_ok :: "plcDatatype \<Rightarrow> bool" where
  "dt_ok dt \<longleftrightarrow> dt_of_code (dt_code dt) = dt \<and> - 128 \<le> dt_code dt \<and> dt_code dt < 128"

lemma dt_of_code_code: "(\<forall>i. dt \<noteq> PLC_DATA_OTHER i) \<Longrightarrow> dt_of_code (dt_code dt) = dt"
  by (cases dt) (simp_all add: dt_of_code_def nth_Cons')

lemma dt_code_of_code [simp]: "dt_code (dt_of_code i) = i"
proof (cases "0 \<le> i \<and> i \<le> 10")
  case True
  then have "i \<in> {0, 1, 2, 3, 4, 5, 6, 7, 8, 9, 10}" by (simp, presburger)
  then show ?thesis by (auto simp: dt_of_code_def nth_Cons')
next
  case False
  then show ?thesis by (auto simp: dt_of_code_def)
qed

lemma dt_of_code_ok: "- 128 \<le> i \<Longrightarrow> i < 128 \<Longrightarrow> dt_ok (dt_of_code i)"
  by (simp add: dt_ok_def)

end
