(* ===== verification/Channel.thy ===== *)
theory Channel
  imports Message_Data
begin

text \<open>
  \<^verbatim>\<open>src/common/comm_channel.c\<close>: the encoding of every message on the connection and its
  decoding, one definition per C function. \<open>res |= f(...)\<close> is \<open>orM res (f ...)\<close>; a loop is
  \<open>each\<close> or, with \<open>res == 0\<close> in its condition, \<open>each0\<close>. A receive function returns its
  code and what it stored through its output pointer, \<open>None\<close> where that is left unwritten
  or, on a failure, partly written; the C reads of an unwritten variable are
  \<open>needM Uninit\<close>. What is released on the way is released with the functions of \<open>Message_Data\<close>.
\<close>

section \<open>Sending primitive data\<close>

definition message_start :: "byte \<Rightarrow> (world, int) prog" where
  "message_start msgType = plcBufferAppend [msgType] 1"

definition message_end :: "(world, int) prog" where
  "message_end = plcBufferFlush"

definition send_char :: "byte \<Rightarrow> (world, int) prog" where
  "send_char c = plcBufferAppend [c] 1"

definition send_int16 :: "i16 \<Rightarrow> (world, int) prog" where
  "send_int16 i = plcBufferAppend (le_bytes 2 i) 2"

definition send_int32 :: "i32 \<Rightarrow> (world, int) prog" where
  "send_int32 i = plcBufferAppend (le_bytes 4 i) 4"

definition send_uint32 :: "i32 \<Rightarrow> (world, int) prog" where
  "send_uint32 i = plcBufferAppend (le_bytes 4 i) 4"

definition send_int64 :: "i64 \<Rightarrow> (world, int) prog" where
  "send_int64 i = plcBufferAppend (le_bytes 8 i) 8"

definition send_float4 :: "i32 \<Rightarrow> (world, int) prog" where
  "send_float4 f = plcBufferAppend (le_bytes 4 f) 4"

definition send_float8 :: "i64 \<Rightarrow> (world, int) prog" where
  "send_float8 f = plcBufferAppend (le_bytes 8 f) 8"

definition strlen :: "byte list \<Rightarrow> nat" where
  "strlen s = length (takeWhile (\<lambda>c. c \<noteq> 0) s)"

definition send_cstring :: "cstr \<Rightarrow> (world, int) prog" where
  "send_cstring s =
     (case s of
        None \<Rightarrow> send_int32 (-1)
      | Some s \<Rightarrow>
          let cnt = of_nat (strlen s) :: i32 in
          bindM (orM 0 (send_int32 cnt)) (\<lambda>res.
          if res = 0 \<and> 0 < sint cnt
          then plcBufferAppend (s @ [0]) (size_of_int (sint cnt))
          else returnM res))"

text \<open>A bytea block is its length in four bytes followed by the data.\<close>

definition send_bytea :: "byte list \<Rightarrow> (world, int) prog" where
  "send_bytea s =
     (let len = of_nat (length s) :: i32 in
      bindM (orM 0 (send_int32 len)) (\<lambda>res.
      orM res (plcBufferAppend s (size_of_int (sint len)))))"

lemma elem_size_le: "x \<in> set xs \<Longrightarrow> size x \<le> size_list size xs"
  by (induction xs) auto

lemma zip_size_le: "(t, d) \<in> set (zip ts ds) \<Longrightarrow> size d \<le> size_list size ds"
  by (auto dest: set_zip_rightD elem_size_le)

section \<open>Sending values and types\<close>

text \<open>
  \<open>send_raw_object\<close>, \<open>send_raw_array_iter\<close> and \<open>send_udt\<close>. \<open>iter->next\<close> past the objects the
  iterator has is \<open>OutOfBounds\<close>. An object of an iterator is released when it has been sent, in the server with \<open>pfree\<close>, which
  does not take NULL. The \<open>cleanup\<close> of the iterator, \<open>plc_backend_array_free\<close> of the theory \<open>Release\<close>, only goes through pointers that
  \<open>plc_datum_as_array\<close> has set.
\<close>

definition release_item :: "plcType \<Rightarrow> rawdata \<Rightarrow> ('s, unit) prog" where
  "release_item type raw_object =
     (if \<not> isnull raw_object then
        bindM (if ty type = PLC_DATA_UDT then release_udt (rvalue raw_object) type True else returnM ()) (\<lambda>_.
        free_value (rvalue raw_object))
      else returnM ())"

function send_raw_object :: "plcType \<Rightarrow> rawdata \<Rightarrow> (world, int) prog"
  and send_raw_array_iter :: "plcType \<Rightarrow> plcArrayMeta \<Rightarrow> rawdata list \<Rightarrow> (world, int) prog"
  and send_udt :: "plcType \<Rightarrow> rawdata list \<Rightarrow> (world, int) prog" where
  "send_raw_object type (Rawdata isn val) =
     (if isn then orM 0 (send_char 78)
      else
        bindM (orM 0 (send_char 68)) (\<lambda>res.
        case ty type of
          PLC_DATA_INT1 \<Rightarrow> (case val of Some (VInt1 v) \<Rightarrow> orM res (send_char v)
            | None \<Rightarrow> stuckM NullDeref | _ \<Rightarrow> stuckM BadShape)
        | PLC_DATA_INT2 \<Rightarrow> (case val of Some (VInt2 v) \<Rightarrow> orM res (send_int16 v)
            | None \<Rightarrow> stuckM NullDeref | _ \<Rightarrow> stuckM BadShape)
        | PLC_DATA_INT4 \<Rightarrow> (case val of Some (VInt4 v) \<Rightarrow> orM res (send_int32 v)
            | None \<Rightarrow> stuckM NullDeref | _ \<Rightarrow> stuckM BadShape)
        | PLC_DATA_INT8 \<Rightarrow> (case val of Some (VInt8 v) \<Rightarrow> orM res (send_int64 v)
            | None \<Rightarrow> stuckM NullDeref | _ \<Rightarrow> stuckM BadShape)
        | PLC_DATA_FLOAT4 \<Rightarrow> (case val of Some (VFloat4 v) \<Rightarrow> orM res (send_float4 v)
            | None \<Rightarrow> stuckM NullDeref | _ \<Rightarrow> stuckM BadShape)
        | PLC_DATA_FLOAT8 \<Rightarrow> (case val of Some (VFloat8 v) \<Rightarrow> orM res (send_float8 v)
            | None \<Rightarrow> stuckM NullDeref | _ \<Rightarrow> stuckM BadShape)
        | PLC_DATA_TEXT \<Rightarrow> (case val of Some (VText s) \<Rightarrow> orM res (send_cstring (Some s))
            | None \<Rightarrow> orM res (send_cstring None) | _ \<Rightarrow> stuckM BadShape)
        | PLC_DATA_BYTEA \<Rightarrow> (case val of Some (VBytea s) \<Rightarrow> orM res (send_bytea s)
            | None \<Rightarrow> stuckM NullDeref | _ \<Rightarrow> stuckM BadShape)
        | PLC_DATA_ARRAY \<Rightarrow>
            (case subTypes type of [] \<Rightarrow> stuckM Uninit | sub # _ \<Rightarrow>
              (case val of Some (VIter meta objs) \<Rightarrow> orM res (send_raw_array_iter sub meta objs)
               | None \<Rightarrow> stuckM NullDeref | _ \<Rightarrow> stuckM BadShape))
        | PLC_DATA_UDT \<Rightarrow> (case val of Some (VUdt ds) \<Rightarrow> orM res (send_udt type ds)
            | None \<Rightarrow> stuckM NullDeref | _ \<Rightarrow> stuckM BadShape)
        | _ \<Rightarrow> elogM (E_unsupported_argument (dt_code (ty type)))))"
| "send_raw_array_iter type meta objs =
     bindM (orM 0 (send_int32 (ndims meta))) (\<lambda>res.
     bindM (each res send_int32 (nat (sint (ndims meta))) (dims meta)) (\<lambda>res.
     each0 res (\<lambda>d. bindM (send_raw_object type d) (\<lambda>r. bindM (release_item type d) (\<lambda>_. returnM r)))
       (nat (sint (asize meta))) objs))"
| "send_udt type ds =
     each0 0 (\<lambda>(t, d). send_raw_object t d) (nat (sint (nSubTypes type)))
       (zip (subTypes type) ds)"
  by pat_completeness auto
termination
  by (relation "measure (case_sum (\<lambda>(t, r). 2 * size r)
        (case_sum (\<lambda>(t, m, os). Suc (2 * size_list size os)) (\<lambda>(t, ds). Suc (2 * size_list size ds))))")
    (auto dest: zip_size_le elem_size_le)

fun send_type :: "plcType \<Rightarrow> (world, int) prog" where
  "send_type (PlcType t n nm subs) =
     bindM (orM 0 (send_char (of_int (dt_code t)))) (\<lambda>res.
     bindM (orM res (send_cstring nm)) (\<lambda>res.
     if t = PLC_DATA_ARRAY \<or> t = PLC_DATA_UDT then
       bindM (orM res (send_int16 n)) (\<lambda>res.
       each0 res send_type (nat (sint n)) subs)
     else returnM res))"

section \<open>Sending messages\<close>

definition send_argument :: "plcArgument \<Rightarrow> (world, int) prog" where
  "send_argument arg =
     bindM (orM 0 (send_cstring (argName arg))) (\<lambda>res.
     bindM (orM res (send_type (argType arg))) (\<lambda>res.
     orM res (send_raw_object (argType arg) (argData arg))))"

definition ping :: "byte list" where
  "ping = [112, 105, 110, 103]"

definition send_ping :: "(world, int) prog" where
  "send_ping =
     bindM (orM 0 (message_start MT_PING)) (\<lambda>res.
     bindM (orM res (send_cstring (Some ping))) (\<lambda>res.
     orM res message_end))"

definition send_call :: "plcMsgCallreq \<Rightarrow> (world, int) prog" where
  "send_call call =
     bindM (orM 0 (message_start MT_CALLREQ)) (\<lambda>res.
     bindM (orM res (send_cstring (procName call))) (\<lambda>res.
     bindM (orM res (send_cstring (procSrc call))) (\<lambda>res.
     bindM (orM res (send_uint32 (objectid call))) (\<lambda>res.
     bindM (orM res (send_int32 (hasChanged call))) (\<lambda>res.
     bindM (orM res (send_type (retType call))) (\<lambda>res.
     bindM (orM res (send_int32 (retset call))) (\<lambda>res.
     bindM (orM res (send_int32 (nargs call))) (\<lambda>res.
     bindM (each res send_argument (nat (sint (nargs call))) (args call)) (\<lambda>res.
     orM res message_end)))))))))"

definition send_exception :: "plcMsgError \<Rightarrow> (world, int) prog" where
  "send_exception err =
     bindM (orM 0 (message_start MT_EXCEPTION)) (\<lambda>res.
     bindM (orM res (send_cstring (emessage err))) (\<lambda>res.
     bindM (orM res (send_cstring (stacktrace err))) (\<lambda>res.
     orM res message_end)))"

definition send_column :: "plcType \<times> cstr \<Rightarrow> (world, int) prog" where
  "send_column tn =
     bindM (orM 0 (send_type (fst tn))) (\<lambda>res.
     orM res (send_cstring (snd tn)))"

definition send_row :: "plcMsgResult \<Rightarrow> rawdata list \<Rightarrow> (world, int) prog" where
  "send_row ret row =
     each 0 (\<lambda>(t, d). send_raw_object t d) (nat (sint (cols ret))) (zip (types ret) row)"

definition send_result :: "plcMsgResult \<Rightarrow> (world, int) prog" where
  "send_result ret =
     bindM (orM 0 (message_start MT_RESULT)) (\<lambda>res.
     bindM (orM res (send_int32 (rows ret))) (\<lambda>res.
     bindM (orM res (send_int32 (cols ret))) (\<lambda>res.
     bindM (each res send_column (nat (sint (cols ret))) (zip (types ret) (names ret))) (\<lambda>res.
     bindM (each res (send_row ret) (nat (sint (rows ret))) (rdata ret)) (\<lambda>res.
     bindM (case (case exception_callback ret of None \<Rightarrow> None | Some cb \<Rightarrow> cb ()) of
              None \<Rightarrow> orM res (send_char 78)
            | Some msg \<Rightarrow> orM res (send_exception msg)) (\<lambda>res.
     orM res message_end))))))"

definition send_log :: "plcMsgLog \<Rightarrow> (world, int) prog" where
  "send_log mlog =
     bindM (orM 0 (message_start MT_LOG)) (\<lambda>res.
     bindM (orM res (send_int32 (level mlog))) (\<lambda>res.
     bindM (orM res (send_cstring (lmessage mlog))) (\<lambda>res.
     orM res message_end)))"

definition send_sql :: "plcMsgSQL \<Rightarrow> (world, int) prog" where
  "send_sql msg =
     (if sqltype msg = SQL_TYPE_STATEMENT then
        bindM (orM 0 (message_start MT_SQL)) (\<lambda>res.
        bindM (orM res (send_int32 (sqltype msg))) (\<lambda>res.
        bindM (orM res (send_cstring (statement msg))) (\<lambda>res.
        orM res message_end)))
      else elogM (E_unhandled_sql (sqltype msg)))"

fun pljvm_channel_send :: "plcMessage \<Rightarrow> (world, int) prog" where
  "pljvm_channel_send MsgPing = send_ping"
| "pljvm_channel_send (MsgCallreq call) = send_call call"
| "pljvm_channel_send (MsgResult res) = send_result res"
| "pljvm_channel_send (MsgError err) = send_exception err"
| "pljvm_channel_send (MsgLog log) = send_log log"
| "pljvm_channel_send (MsgSQL sql) = send_sql sql"
| "pljvm_channel_send (MsgUnknown t) = elogM (E_unhandled_message t)"

section \<open>Receiving primitive data\<close>

text \<open>The byte \<open>'@'\<close> stays when no byte could be read.\<close>

definition receive_message_type :: "(world, int \<times> byte) prog" where
  "receive_message_type =
     bindM (plcBufferReceive 1) (\<lambda>res.
     if res = 0 then
       bindM (plcBufferRead 1) (\<lambda>(res, bs).
       returnM (res, case bs of Some bs \<Rightarrow> hd bs | None \<Rightarrow> 64))
     else returnM (res, 64))"

definition receive_char :: "(world, int \<times> byte option) prog" where
  "receive_char = bindM (plcBufferRead 1) (\<lambda>(res, bs). returnM (res, map_option hd bs))"

definition receive_int16 :: "(world, int \<times> i16 option) prog" where
  "receive_int16 = bindM (plcBufferRead 2) (\<lambda>(res, bs). returnM (res, map_option le_word bs))"

definition receive_int32 :: "(world, int \<times> i32 option) prog" where
  "receive_int32 = bindM (plcBufferRead 4) (\<lambda>(res, bs). returnM (res, map_option le_word bs))"

definition receive_uint32 :: "(world, int \<times> i32 option) prog" where
  "receive_uint32 = bindM (plcBufferRead 4) (\<lambda>(res, bs). returnM (res, map_option le_word bs))"

definition receive_int64 :: "(world, int \<times> i64 option) prog" where
  "receive_int64 = bindM (plcBufferRead 8) (\<lambda>(res, bs). returnM (res, map_option le_word bs))"

definition receive_float4 :: "(world, int \<times> i32 option) prog" where
  "receive_float4 = bindM (plcBufferRead 4) (\<lambda>(res, bs). returnM (res, map_option le_word bs))"

definition receive_float8 :: "(world, int \<times> i64 option) prog" where
  "receive_float8 = bindM (plcBufferRead 8) (\<lambda>(res, bs). returnM (res, map_option le_word bs))"

definition receive_raw :: "nat \<Rightarrow> (world, int \<times> byte list option) prog" where
  "receive_raw len = plcBufferRead len"

definition receive_cstring :: "(world, int \<times> cstr option) prog" where
  "receive_cstring =
     bindM receive_int32 (\<lambda>(r, cnt).
     if r < 0 then returnM (-1, None)
     else
       bindM (needM Uninit cnt) (\<lambda>cnt.
       if cnt = -1 then returnM (0, Some None)
       else
         bindM (intM (sint cnt + 1)) (\<lambda>len.
         bindM (plc_alloc (size_of_int len)) (\<lambda>_.
         if 0 < sint cnt then
           bindM (plcBufferRead (size_of_int (sint cnt))) (\<lambda>(res, bs).
           returnM (res, map_option Some bs))
         else
           bindM (checkM OutOfBounds (0 \<le> sint cnt)) (\<lambda>_.
           returnM (0, Some (Some [])))))))"

definition receive_bytea :: "(world, int \<times> byte list option) prog" where
  "receive_bytea =
     bindM receive_int32 (\<lambda>(r, len).
     if r < 0 then returnM (-1, None)
     else
       bindM (needM Uninit len) (\<lambda>len.
       bindM (intM (sint len + 4)) (\<lambda>size.
       bindM (plc_alloc (size_of_int size)) (\<lambda>_.
       bindM (checkM OutOfBounds (4 \<le> size_of_int size)) (\<lambda>_.
       if 0 < sint len then plcBufferRead (size_of_int (sint len))
       else returnM (0, Some []))))))"

section \<open>Receiving values and types\<close>

text \<open>
  The cell of an array of type \<open>dt\<close> that holds the bytes \<open>bs\<close>: the element read through a
  pointer of its type.
\<close>

fun cell_value :: "plcDatatype \<Rightarrow> byte list \<Rightarrow> rvalue option" where
  "cell_value PLC_DATA_INT1 bs = Some (VInt1 (le_word bs))"
| "cell_value PLC_DATA_INT2 bs = Some (VInt2 (le_word bs))"
| "cell_value PLC_DATA_INT4 bs = Some (VInt4 (le_word bs))"
| "cell_value PLC_DATA_INT8 bs = Some (VInt8 (le_word bs))"
| "cell_value PLC_DATA_FLOAT4 bs = Some (VFloat4 (le_word bs))"
| "cell_value PLC_DATA_FLOAT8 bs = Some (VFloat8 (le_word bs))"
| "cell_value dt bs = None"

text \<open>
  \<open>arr->meta->dims[i]\<close> is read after each receive, so a failed receive makes it an unwritten
  read. The size is their product, in C \<open>int\<close> arithmetic.
\<close>

fun receive_dims :: "nat \<Rightarrow> int \<Rightarrow> int \<Rightarrow> (world, int \<times> i32 list \<times> int) prog" where
  "receive_dims 0 res prd = returnM (res, [], prd)"
| "receive_dims (Suc n) res prd =
     bindM receive_int32 (\<lambda>(r, d).
     bindM (needM Uninit d) (\<lambda>d.
     bindM (intM (prd * sint d)) (\<lambda>prd.
     bindM (receive_dims n (res OR r) prd) (\<lambda>(res, ds, prd).
     returnM (res, d # ds, prd)))))"

text \<open>
  \<open>or_res res m\<close>: \<open>res |= m\<close> for a receive function. \<open>store f m\<close>: the object it stores in
  the \<open>value\<close> pointer of a \<open>rawdata\<close> that is not null.
\<close>

definition or_res :: "int \<Rightarrow> (world, int \<times> 'a option) prog \<Rightarrow> (world, int \<times> 'a option) prog" where
  "or_res res m = bindM m (\<lambda>(r, x). returnM (res OR r, x))"

definition store :: "('a \<Rightarrow> rvalue option) \<Rightarrow> (world, int \<times> 'a option) prog
    \<Rightarrow> (world, int \<times> rawdata option) prog" where
  "store f m = bindM m (\<lambda>(r, x). returnM (r, map_option (\<lambda>x. Rawdata False (f x)) x))"

text \<open>
  The part of \<open>receive_array\<close> after the dimensions, with \<open>prd\<close> the \<open>meta->size\<close> they gave:
  \<open>cell entrylen\<close> is the body of its loop.
\<close>

definition fill_array :: "(int \<Rightarrow> (world, int \<times> rawdata option) prog) \<Rightarrow> int \<Rightarrow> plcArrayMeta
    \<Rightarrow> int \<Rightarrow> (world, int \<times> rawdata option) prog" where
  "fill_array cell res meta prd =
     (if 0 < prd then
        bindM (plc_get_type_length (atype meta)) (\<lambda>entrylen.
        bindM (plc_alloc (nat prd)) (\<lambda>_.
        bindM (intM (prd * entrylen)) (\<lambda>bytes.
        bindM (plc_alloc (nat bytes)) (\<lambda>_.
        bindM (gather0 res (\<lambda>_. cell entrylen) (nat prd) (replicate (nat prd) ()))
          (\<lambda>(res, cells). returnM (res,
             if res = 0 then Some (Rawdata False (Some (VArray meta cells))) else None))))))
      else returnM (res, Some (Rawdata False (Some (VArray meta [])))))"

text \<open>
  \<open>receive_array\<close> and, for the body of its loop after the element's null flag,
  \<open>receive_cell\<close>; \<open>receive_raw_object\<close>; \<open>receive_udt\<close>. The element type of a type that was
  received without subtypes is an unwritten pointer.
\<close>

function receive_raw_object :: "plcType \<Rightarrow> (world, int \<times> rawdata option) prog"
  and receive_array :: "plcType \<Rightarrow> (world, int \<times> rawdata option) prog"
  and receive_cell :: "int \<Rightarrow> plcType \<Rightarrow> (world, int \<times> rawdata option) prog"
  and receive_udt :: "plcType \<Rightarrow> (world, int \<times> rawdata option) prog" where
  "receive_raw_object type =
     bindM receive_char (\<lambda>(res, isn).
     bindM (needM Uninit isn) (\<lambda>isn.
     if isn = 78 then returnM (res, Some (Rawdata True None))
     else case ty type of
       PLC_DATA_INT1 \<Rightarrow> bindM (plc_alloc 1) (\<lambda>_. or_res res (store (Some \<circ> VInt1) receive_char))
     | PLC_DATA_INT2 \<Rightarrow> bindM (plc_alloc 2) (\<lambda>_. or_res res (store (Some \<circ> VInt2) receive_int16))
     | PLC_DATA_INT4 \<Rightarrow> bindM (plc_alloc 4) (\<lambda>_. or_res res (store (Some \<circ> VInt4) receive_int32))
     | PLC_DATA_INT8 \<Rightarrow> bindM (plc_alloc 8) (\<lambda>_. or_res res (store (Some \<circ> VInt8) receive_int64))
     | PLC_DATA_FLOAT4 \<Rightarrow>
         bindM (plc_alloc 4) (\<lambda>_. or_res res (store (Some \<circ> VFloat4) receive_float4))
     | PLC_DATA_FLOAT8 \<Rightarrow>
         bindM (plc_alloc 8) (\<lambda>_. or_res res (store (Some \<circ> VFloat8) receive_float8))
     | PLC_DATA_TEXT \<Rightarrow> or_res res (store (map_option VText) receive_cstring)
     | PLC_DATA_BYTEA \<Rightarrow> or_res res (store (Some \<circ> VBytea) receive_bytea)
     | PLC_DATA_ARRAY \<Rightarrow>
         (case subTypes type of [] \<Rightarrow> stuckM Uninit | sub # _ \<Rightarrow> or_res res (receive_array sub))
     | PLC_DATA_UDT \<Rightarrow> or_res res (receive_udt type)
     | _ \<Rightarrow> elogM (E_unsupported_argument (dt_code (ty type)))))"
| "receive_array type =
     bindM receive_int32 (\<lambda>(res, nd).
     bindM (needM Uninit nd) (\<lambda>nd.
     bindM (plc_alloc_array nd) (\<lambda>_.
     bindM (receive_dims (nat (sint nd)) res (if 0 < sint nd then 1 else 0)) (\<lambda>(res, ds, prd).
     fill_array (\<lambda>entrylen. receive_cell entrylen type) res
       \<lparr>atype = ty type, ndims = nd, dims = ds, asize = word_of_int prd\<rparr> prd))))"
| "receive_cell entrylen type =
     bindM receive_char (\<lambda>(res, isnull).
     bindM (needM Uninit isnull) (\<lambda>isnull.
     if isnull = 78 then returnM (res, Some (Rawdata True None))
     else case ty type of
       PLC_DATA_TEXT \<Rightarrow> or_res res (store (map_option VText) receive_cstring)
     | PLC_DATA_BYTEA \<Rightarrow> or_res res (store (Some \<circ> VBytea) receive_bytea)
     | PLC_DATA_UDT \<Rightarrow> or_res res (receive_udt type)
     | PLC_DATA_ARRAY \<Rightarrow> elogM E_should_not_get_here
     | PLC_DATA_INVALID \<Rightarrow> elogM E_should_not_get_here
     | PLC_DATA_OTHER _ \<Rightarrow> elogM E_should_not_get_here
     | _ \<Rightarrow> or_res res (store (cell_value (ty type)) (receive_raw (nat entrylen)))))"
| "receive_udt type =
     bindM (plc_alloc_udt (sint (nSubTypes type))) (\<lambda>_.
     bindM (gather0 0 (\<lambda>t. receive_raw_object t) (nat (sint (nSubTypes type))) (subTypes type))
       (\<lambda>(res, ds). returnM (res,
          if res = 0 then Some (Rawdata False (Some (VUdt ds))) else None)))"
  by pat_completeness auto
termination
proof (relation "measure (case_sum (case_sum (\<lambda>t. 4 * size t + 1) (\<lambda>t. 4 * size t + 3))
    (case_sum (\<lambda>(e, t). 4 * size t + 2) (\<lambda>t. 4 * size t)))", goal_cases)
  case (2 type sub subs)
  then show ?case by (cases type) auto
next
  case (6 type t)
  then show ?case by (cases type) (auto dest: elem_size_le)
qed auto

text \<open>
  \<open>receive_type\<close> calls itself for every subtype as deep as the input says; its first argument
  is the number of frames the C stack has left. The fields of a type whose reception fails
  are set as far as the code gets.
\<close>

primrec receive_type_d :: "nat \<Rightarrow> (world, int \<times> plcType option) prog" where
  "receive_type_d 0 = stuckM StackOverflow"
| "receive_type_d (Suc d) =
     bindM receive_char (\<lambda>(res, typ).
     bindM (or_res res receive_cstring) (\<lambda>(res, nm).
     bindM (needM Uninit typ) (\<lambda>typ.
     let t = dt_of_code (sint typ); nm = (case nm of Some nm \<Rightarrow> nm | None \<Rightarrow> None) in
     if t = PLC_DATA_ARRAY \<or> t = PLC_DATA_UDT then
       bindM (or_res res receive_int16) (\<lambda>(res, n).
       bindM (needM Uninit n) (\<lambda>n.
       if 0 < sint n then
         bindM (plc_alloc (size_mult (size_of_int (sint n)) 24)) (\<lambda>_.
         bindM (gather0 res (\<lambda>_. receive_type_d d) (nat (sint n)) (replicate (nat (sint n)) ()))
           (\<lambda>(res, subs). returnM (res, Some (PlcType t n nm subs))))
       else returnM (res, Some (PlcType t n nm []))))
     else returnM (res, Some (PlcType t 0 nm [])))))"

definition receive_type :: "(world, int \<times> plcType option) prog" where
  "receive_type = (\<lambda>w. receive_type_d (stack w) w)"

section \<open>Receiving messages\<close>

text \<open>
  The message comes back when all its fields were received. The first argument of
  \<open>plc_alloc\<close> is the size of the C structure.
\<close>

fun both :: "'a option \<Rightarrow> 'b option \<Rightarrow> ('a \<times> 'b) option" where
  "both (Some x) (Some y) = Some (x, y)"
| "both _ _ = None"

definition receive_argument :: "(world, int \<times> plcArgument option) prog" where
  "receive_argument =
     bindM receive_cstring (\<lambda>(res, nm).
     bindM (or_res res receive_type) (\<lambda>(res, t).
     bindM (needM Uninit t) (\<lambda>t.
     bindM (or_res res (receive_raw_object t)) (\<lambda>(res, d).
     returnM (res, map_option (\<lambda>(nm, d). \<lparr>argType = t, argName = nm, argData = d\<rparr>) (both nm d))))))"

definition receive_exception :: "(world, int \<times> plcMessage option) prog" where
  "receive_exception =
     bindM (plc_alloc 24) (\<lambda>_.
     bindM receive_cstring (\<lambda>(res, m).
     bindM (or_res res receive_cstring) (\<lambda>(res, st).
     returnM (res, map_option (\<lambda>(m, st). MsgError \<lparr>emessage = m, stacktrace = st\<rparr>) (both m st)))))"

text \<open>A column's type and name, and the cells of a row: these loops have no \<open>res == 0\<close>.\<close>

definition receive_column :: "(world, int \<times> (plcType \<times> cstr) option) prog" where
  "receive_column =
     bindM receive_type (\<lambda>(res, t).
     bindM (or_res res receive_cstring) (\<lambda>(res, nm).
     returnM (res, both t nm)))"

definition receive_row :: "i32 \<Rightarrow> plcType list \<Rightarrow> (world, int \<times> rawdata list option) prog" where
  "receive_row ncols ts =
     (if 0 < sint ncols then
        bindM (plc_alloc (size_mult (size_of_int (sint ncols)) 16)) (\<lambda>_.
        bindM (gather 0 receive_raw_object (nat (sint ncols)) ts) (\<lambda>(res, ds).
        returnM (res, Some ds)))
      else returnM (0, Some []))"

text \<open>
  After the rows a result carries \<open>'N'\<close> or an exception, which then replaces it; the result is released.
\<close>

definition receive_result :: "(world, int \<times> plcMessage option) prog" where
  "receive_result =
     bindM (plc_alloc 48) (\<lambda>_.
     bindM receive_int32 (\<lambda>(res, nrows).
     bindM (or_res res receive_int32) (\<lambda>(res, ncols).
     bindM (case both nrows ncols of
              Some (nrows, ncols) \<Rightarrow>
                if res = 0 then
                  bindM (if 0 < sint nrows
                         then plc_alloc (size_mult (size_of_int (sint nrows)) 8) else returnM []) (\<lambda>_.
                  bindM (plc_alloc (size_mult (size_of_int (sint ncols)) 24)) (\<lambda>_.
                  bindM (plc_alloc (size_mult (size_of_int (sint ncols)) 8)) (\<lambda>_.
                  bindM (gather res (\<lambda>_. receive_column) (nat (sint ncols))
                           (replicate (nat (sint ncols)) ())) (\<lambda>(res, tns).
                  bindM (gather0 res (\<lambda>_. receive_row ncols (List.map fst tns)) (nat (sint nrows))
                           (replicate (nat (sint nrows)) ())) (\<lambda>(res, rws).
                  returnM (res, Some \<lparr>rows = nrows, cols = ncols,
                    types = List.map fst tns, names = List.map snd tns, rdata = rws,
                    exception_callback = None\<rparr>))))))
                else returnM (res, None)
            | None \<Rightarrow> returnM (res, None)) (\<lambda>(res, ret).
     bindM (or_res res receive_char) (\<lambda>(res, exc).
     bindM (needM Uninit exc) (\<lambda>exc.
     if exc = MT_EXCEPTION then
       bindM (or_res res receive_exception) (\<lambda>(res, err).
       bindM (needM Uninit ret) (\<lambda>ret.
       bindM (release_result False ret) (\<lambda>_.
       returnM (res, err))))
     else returnM (res, map_option MsgResult ret)))))))"

definition receive_log :: "(world, int \<times> plcMessage option) prog" where
  "receive_log =
     bindM (plc_alloc 16) (\<lambda>_.
     bindM receive_int32 (\<lambda>(res, l).
     bindM (or_res res receive_cstring) (\<lambda>(res, m).
     returnM (res, map_option (\<lambda>(l, m). MsgLog \<lparr>level = l, lmessage = m\<rparr>) (both l m)))))"

definition receive_sql_statement :: "(world, int \<times> plcMessage option) prog" where
  "receive_sql_statement =
     bindM (plc_alloc 16) (\<lambda>_.
     bindM receive_cstring (\<lambda>(res, s).
     returnM (res, map_option (\<lambda>s. MsgSQL \<lparr>sqltype = SQL_TYPE_STATEMENT, statement = s\<rparr>) s)))"

text \<open>\<open>strncmp(s, t, n)\<close> is 0: the blocks agree up to the first NUL of \<open>s\<close> or \<open>n\<close> bytes.\<close>

fun strncmp_eq :: "byte list \<Rightarrow> byte list \<Rightarrow> nat \<Rightarrow> bool" where
  "strncmp_eq s t 0 = True"
| "strncmp_eq [] [] (Suc n) = True"
| "strncmp_eq (a # s) (b # t) (Suc n) = (a = b \<and> (a = 0 \<or> strncmp_eq s t n))"
| "strncmp_eq (a # s) [] (Suc n) = (a = 0)"
| "strncmp_eq [] (b # t) (Suc n) = (b = 0)"

definition receive_ping :: "(world, int \<times> plcMessage option) prog" where
  "receive_ping =
     bindM (plc_alloc 2) (\<lambda>_.
     bindM receive_cstring (\<lambda>(res, s).
     if res = 0 then
       bindM (needM Uninit s) (\<lambda>s.
       bindM (needM NullDeref s) (\<lambda>s.
       returnM (if strncmp_eq s ping 4 then 0 else -1, Some MsgPing)))
     else returnM (res, Some MsgPing)))"

definition receive_call :: "(world, int \<times> plcMessage option) prog" where
  "receive_call =
     bindM (plc_alloc 72) (\<lambda>_.
     bindM receive_cstring (\<lambda>(res, nm).
     bindM (or_res res receive_cstring) (\<lambda>(res, src).
     bindM (or_res res receive_uint32) (\<lambda>(res, oid).
     bindM (or_res res receive_int32) (\<lambda>(res, chg).
     bindM (or_res res receive_type) (\<lambda>(res, rt).
     bindM (or_res res receive_int32) (\<lambda>(res, rs).
     bindM (or_res res receive_int32) (\<lambda>(res, na).
     case both nm (both src (both oid (both chg (both rt (both rs na))))) of
       Some (nm, src, oid, chg, rt, rs, na) \<Rightarrow>
         if res = 0 then
           bindM (plc_alloc (size_mult 48 (size_of_int (sint na)))) (\<lambda>_.
           bindM (gather0 res (\<lambda>_. receive_argument) (nat (sint na)) (replicate (nat (sint na)) ()))
             (\<lambda>(res, as). returnM (res, Some (MsgCallreq \<lparr>objectid = oid, hasChanged = chg,
                procName = nm, procSrc = src, retType = rt, retset = rs, nargs = na, args = as\<rparr>))))
         else returnM (res, None)
     | None \<Rightarrow> returnM (res, None)))))))))"

definition receive_sql :: "(world, int \<times> plcMessage option) prog" where
  "receive_sql =
     bindM receive_int32 (\<lambda>(res, sqlType).
     if res = 0 then
       bindM (needM Uninit sqlType) (\<lambda>sqlType.
       if sqlType = SQL_TYPE_STATEMENT then receive_sql_statement
       else elogM (E_unhandled_sql sqlType))
     else returnM (res, None))"

definition pljvm_channel_receive :: "(world, int \<times> plcMessage option) prog" where
  "pljvm_channel_receive =
     bindM receive_message_type (\<lambda>(res, cType).
     if res < 0 then returnM (-3, None)
     else if cType = MT_PING then receive_ping
     else if cType = MT_CALLREQ then receive_call
     else if cType = MT_RESULT then receive_result
     else if cType = MT_EXCEPTION then receive_exception
     else if cType = MT_LOG then receive_log
     else if cType = MT_SQL then receive_sql
     else elogM (E_message_type_unknown cType))"

declare send_raw_object.simps [simp del] send_raw_array_iter.simps [simp del] send_udt.simps [simp del]
  receive_raw_object.simps [simp del] receive_array.simps [simp del] receive_cell.simps [simp del]
  receive_udt.simps [simp del]

end
