(* ===== verification/Wire.thy ===== *)
theory Wire
  imports Conn_Stream Channel
begin

text \<open>
  What sending and receiving do to the byte streams of the connection, and the interface
  every item of the protocol has: a sender that appends the item's bytes, a receiver that
  takes exactly these bytes and returns the item. The interpretations for the primitive
  items are at the end; types, values and messages follow in \<open>Wire_Values\<close> and
  \<open>Wire_Messages\<close>.
\<close>

section \<open>Programs that send\<close>

text \<open>
  \<open>emits f k bs\<close>: the statement \<open>k\<close>, run with the result code \<open>res\<close> of what came before, leaves
  \<open>res\<close> zero only if it was and the stream has grown by \<open>bs\<close>; without write errors it does not
  fail, and it raises only on a write error or for lack of memory. \<open>f\<close> says that the buffer
  is empty afterwards.
\<close>

definition Emitted :: "bool \<Rightarrow> byte list \<Rightarrow> int \<Rightarrow> world \<Rightarrow> int \<Rightarrow> world \<Rightarrow> bool" where
  "Emitted f bs res w r w' \<longleftrightarrow> out_kept w w'
     \<and> (r = 0 \<longrightarrow> res = 0 \<and> out_stream w' = out_stream w @ bs
          \<and> (f \<longrightarrow> content (buf PLC_OUTPUT_BUFFER w') = []))
     \<and> (res = 0 \<and> sends_good w \<longrightarrow> r = 0)"

definition Send_failed :: "world \<Rightarrow> elog \<Rightarrow> world \<Rightarrow> bool" where
  "Send_failed w e w' \<longleftrightarrow> out_kept w w' \<and> \<not> (sends_good w \<and> alloc_all w)"

definition emits :: "bool \<Rightarrow> (int \<Rightarrow> (world, int) prog) \<Rightarrow> byte list \<Rightarrow> bool" where
  "emits f k bs \<longleftrightarrow> (\<forall>res w. conn_inv w \<longrightarrow>
     ensures (k res w) (Emitted f bs res w) (Send_failed w) (\<lambda>w'. False))"

definition puts :: "bool \<Rightarrow> (world, int) prog \<Rightarrow> byte list \<Rightarrow> bool" where
  "puts f m bs \<longleftrightarrow> (\<forall>w. conn_inv w \<longrightarrow>
     ensures (m w) (Emitted f bs 0 w) (Send_failed w) (\<lambda>w'. False))"

lemma or_int_eq_0 [simp]: "(a::int) OR b = 0 \<longleftrightarrow> a = 0 \<and> b = 0"
  by (simp add: or_eq_0_iff)

lemma orM_0 [simp]: "orM 0 m = m"
  by (auto simp: prog_simps fun_eq_iff split: outcome.splits)

lemma out_kept_refl: "conn_inv w \<Longrightarrow> out_kept w w"
  by (simp add: out_kept_def)

lemma out_kept_trans: "out_kept w w' \<Longrightarrow> out_kept w' w'' \<Longrightarrow> out_kept w w''"
  by (auto simp: out_kept_def intro: out_frame_trans)

lemma out_kept_good: "out_kept w w' \<Longrightarrow> sends_good w \<Longrightarrow> sends_good w'"
  by (auto simp: out_kept_def out_frame_def intro: sends_good_mono)

lemma out_kept_alloc: "out_kept w w' \<Longrightarrow> alloc_all w' = alloc_all w"
  by (auto simp: out_kept_def out_frame_def alloc_all_def)

lemma Emitted_trans:
  assumes "Emitted f bs res w r w'" and "Emitted f' bs' r w' r' w''"
  shows "Emitted f' (bs @ bs') res w r' w''"
proof -
  have "out_kept w w'" "out_kept w' w''" using assms by (simp_all add: Emitted_def)
  then have "out_kept w w''" and "sends_good w \<Longrightarrow> sends_good w'"
    by (rule out_kept_trans) (rule out_kept_good [OF \<open>out_kept w w'\<close>])
  with assms show ?thesis unfolding Emitted_def by (metis append_assoc)
qed

lemma Emitted_failed:
  assumes "Emitted f bs res w r w'" and "Send_failed w' e w''"
  shows "Send_failed w e w''"
proof -
  have kept: "out_kept w w'" "out_kept w' w''"
    using assms by (simp_all add: Emitted_def Send_failed_def)
  then have "out_kept w w''" by (rule out_kept_trans)
  with assms(2) show ?thesis
    unfolding Send_failed_def using out_kept_good [OF kept(1)] out_kept_alloc [OF kept(1)] by blast
qed

lemma emits_return: "emits False returnM []"
  by (simp add: emits_def Emitted_def out_kept_refl)

lemma emits_bind:
  assumes k: "emits f k bs" and k': "emits f' k' bs'"
  shows "emits f' (\<lambda>res. bindM (k res) k') (bs @ bs')"
  unfolding emits_def
proof (intro allI impI)
  fix res :: int and w
  assume "conn_inv w"
  with k have "ensures (k res w) (Emitted f bs res w) (Send_failed w) (\<lambda>w'. False)"
    by (simp add: emits_def)
  then show "ensures (bindM (k res) k' w) (Emitted f' (bs @ bs') res w) (Send_failed w) (\<lambda>w'. False)"
  proof (rule ensures_bindM)
    fix r :: int and w'
    assume r: "Emitted f bs res w r w'"
    then have "conn_inv w'" by (simp add: Emitted_def out_kept_def)
    with k' have "ensures (k' r w') (Emitted f' bs' r w') (Send_failed w') (\<lambda>w'. False)"
      by (simp add: emits_def)
    then show "ensures (k' r w') (Emitted f' (bs @ bs') res w) (Send_failed w) (\<lambda>w'. False)"
      by (rule ensures_mono) (auto intro: Emitted_trans [OF r] Emitted_failed [OF r])
  qed
qed

lemma emits_orM:
  assumes "puts f m bs"
  shows "emits f (\<lambda>res. orM res m) bs"
  unfolding emits_def
proof (intro allI impI)
  fix res :: int and w
  assume "conn_inv w"
  with assms have "ensures (m w) (Emitted f bs 0 w) (Send_failed w) (\<lambda>w'. False)"
    by (simp add: puts_def)
  then show "ensures (orM res m w) (Emitted f bs res w) (Send_failed w) (\<lambda>w'. False)"
    unfolding orM_def by (rule ensures_bindM) (auto simp: Emitted_def)
qed

lemma emits_puts: "emits f k bs \<Longrightarrow> puts f (k 0) bs"
  by (simp add: emits_def puts_def)

lemma emits_run: "emits f k bs \<Longrightarrow> conn_inv w \<Longrightarrow>
    ensures (k res w) (Emitted f bs res w) (Send_failed w) (\<lambda>w'. False)"
  by (simp add: emits_def)

lemma puts_run: "puts f m bs \<Longrightarrow> conn_inv w \<Longrightarrow>
    ensures (m w) (Emitted f bs 0 w) (Send_failed w) (\<lambda>w'. False)"
  by (simp add: puts_def)

lemma puts_bind: "puts f m bs \<Longrightarrow> emits f' k bs' \<Longrightarrow> puts f' (bindM m k) (bs @ bs')"
  using emits_puts [OF emits_bind [OF emits_orM]] by fastforce

lemma puts_weaken: "puts f m bs \<Longrightarrow> puts False m bs"
  unfolding puts_def by (auto elim!: ensures_mono simp: Emitted_def)

lemma puts_Ok:
  assumes "puts f m bs" and "conn_inv w" and "sends_good w" and "alloc_all w"
  shows "\<exists>w'. m w = Ok 0 w' \<and> out_kept w w' \<and> out_stream w' = out_stream w @ bs
    \<and> (f \<longrightarrow> content (buf PLC_OUTPUT_BUFFER w') = [])"
  using puts_run [OF assms(1,2)] assms(3,4)
  by (cases "m w") (auto simp: Emitted_def Send_failed_def)

lemma emits_each:
  assumes "\<And>i. i < n \<Longrightarrow> puts False (g (xs ! i)) (bss ! i)" and "length bss = n" and "n \<le> length xs"
  shows "emits False (\<lambda>res. each res g n xs) (concat bss)"
  using assms
proof (induction n arbitrary: xs bss)
  case 0
  then show ?case using emits_return by simp
next
  case (Suc n)
  then obtain x xs' b bss' where eq: "xs = x # xs'" "bss = b # bss'" "length bss' = n" "n \<le> length xs'"
    by (auto simp: Suc_le_length_iff length_Suc_conv)
  have "emits False (\<lambda>res. each res g n xs') (concat bss')"
    by (rule Suc.IH) (use Suc.prems(1) [of "Suc _"] eq in auto)
  moreover have "emits False (\<lambda>res. orM res (g x)) b"
    using Suc.prems(1) [of 0] eq by (simp add: emits_orM)
  ultimately show ?case
    using emits_bind [of False "\<lambda>res. orM res (g x)" b False "\<lambda>res. each res g n xs'"] eq by simp
qed

lemma emits_guard:
  assumes "emits f k bs"
  shows "emits f (\<lambda>res. if res = 0 then k res else returnM res) bs"
  using assms by (auto simp: emits_def Emitted_def out_kept_refl)

lemma emits_each0:
  assumes "\<And>i. i < n \<Longrightarrow> puts False (g (xs ! i)) (bss ! i)" and "length bss = n" and "n \<le> length xs"
  shows "emits False (\<lambda>res. each0 res g n xs) (concat bss)"
  using assms
proof (induction n arbitrary: xs bss)
  case 0
  then show ?case using emits_return by simp
next
  case (Suc n)
  then obtain x xs' b bss' where eq: "xs = x # xs'" "bss = b # bss'" "length bss' = n" "n \<le> length xs'"
    by (auto simp: Suc_le_length_iff length_Suc_conv)
  have "emits False (\<lambda>res. each0 res g n xs') (concat bss')"
    by (rule Suc.IH) (use Suc.prems(1) [of "Suc _"] eq in auto)
  moreover have "emits False (\<lambda>res. orM res (g x)) b"
    using Suc.prems(1) [of 0] eq by (simp add: emits_orM)
  ultimately show ?case
    using emits_guard [OF emits_bind [of False "\<lambda>res. orM res (g x)" b False "\<lambda>res. each0 res g n xs'"]] eq
    by simp
qed

section \<open>Programs that receive\<close>

text \<open>
  \<open>takes d m bs y\<close>: with \<open>d\<close> stack frames left and memory to be had, \<open>m\<close> takes the bytes \<open>bs\<close>
  off the front of the input stream and returns \<open>y\<close>, however the socket cuts the stream.
\<close>

definition takes :: "nat \<Rightarrow> (world, 'a) prog \<Rightarrow> byte list \<Rightarrow> 'a \<Rightarrow> bool" where
  "takes d m bs y \<longleftrightarrow> (\<forall>w rest. conn_inv w \<and> alloc_all w \<and> d \<le> stack w \<and> in_stream w = bs @ rest \<longrightarrow>
     (\<exists>w'. m w = Ok y w' \<and> in_kept w w' \<and> in_stream w' = rest))"

lemma takesI:
  assumes "\<And>w rest. conn_inv w \<Longrightarrow> alloc_all w \<Longrightarrow> d \<le> stack w \<Longrightarrow> in_stream w = bs @ rest \<Longrightarrow>
     \<exists>w'. m w = Ok y w' \<and> in_kept w w' \<and> in_stream w' = rest"
  shows "takes d m bs y"
  using assms by (simp add: takes_def)

lemma takes_run:
  "takes d m bs y \<Longrightarrow> conn_inv w \<Longrightarrow> alloc_all w \<Longrightarrow> d \<le> stack w \<Longrightarrow> in_stream w = bs @ rest \<Longrightarrow>
     \<exists>w'. m w = Ok y w' \<and> in_kept w w' \<and> in_stream w' = rest"
  by (simp add: takes_def)

lemma in_kept_facts:
  "in_kept w w' \<Longrightarrow> conn_inv w' \<and> alloc_all w' = alloc_all w \<and> stack w' = stack w"
  by (auto simp: in_kept_def in_frame_def alloc_all_def)

lemma takes_bind:
  assumes m: "takes d m bs x" and f: "takes d (f x) bs' y"
  shows "takes d (bindM m f) (bs @ bs') y"
proof (rule takesI)
  fix w rest
  assume w: "conn_inv w" "alloc_all w" "d \<le> stack w" "in_stream w = (bs @ bs') @ rest"
  then obtain w' where w': "m w = Ok x w'" "in_kept w w'" "in_stream w' = bs' @ rest"
    using takes_run [OF m, of w "bs' @ rest"] by auto
  moreover obtain w'' where "f x w' = Ok y w''" "in_kept w' w''" "in_stream w'' = rest"
    using takes_run [OF f, of w' rest] w w' in_kept_facts [OF w'(2)] by auto
  ultimately show "\<exists>w'. bindM m f w = Ok y w' \<and> in_kept w w' \<and> in_stream w' = rest"
    by (auto intro: in_kept_trans)
qed

lemma takes_bind_nil: "takes d m [] x \<Longrightarrow> takes d (f x) bs y \<Longrightarrow> takes d (bindM m f) bs y"
  using takes_bind [of d m "[]" x f bs y] by simp

lemma takes_bind_last: "takes d m bs x \<Longrightarrow> takes d (f x) [] y \<Longrightarrow> takes d (bindM m f) bs y"
  using takes_bind [of d m bs x f "[]" y] by simp

lemma takes_bind2:
  "takes d m bs (r, x) \<Longrightarrow> takes d (f r x) bs' y \<Longrightarrow> takes d (bindM m (\<lambda>(r, x). f r x)) (bs @ bs') y"
  by (erule takes_bind) simp

lemma takes_bind2_last:
  "takes d m bs (r, x) \<Longrightarrow> takes d (f r x) [] y \<Longrightarrow> takes d (bindM m (\<lambda>(r, x). f r x)) bs y"
  using takes_bind2 [of d m bs r x f "[]" y] by simp

lemma takes_return: "takes d (returnM y) [] y"
  by (rule takesI) (auto simp: in_kept_def)

lemma takes_return_eq: "y = z \<Longrightarrow> takes d (returnM y) [] z"
  by (simp add: takes_return)

lemma takes_alloc:
  assumes "int n \<le> MaxAllocSize" and "\<And>blk. takes d (f blk) bs y"
  shows "takes d (bindM (plc_alloc n) f) bs y"
proof (rule takesI)
  fix w rest
  assume w: "conn_inv w" "alloc_all w" "d \<le> stack w" "in_stream w = bs @ rest"
  then have "plc_alloc n w = Ok (replicate n (junk w)) w"
    using assms(1) by (simp add: plc_alloc_def alloc_all_def)
  with takes_run [OF assms(2) w]
  show "\<exists>w'. bindM (plc_alloc n) f w = Ok y w' \<and> in_kept w w' \<and> in_stream w' = rest"
    by simp
qed

lemma takes_mono: "takes d m bs y \<Longrightarrow> d \<le> d' \<Longrightarrow> takes d' m bs y"
  by (auto simp: takes_def)

lemma takes_read:
  assumes "length bs = n" and "n \<le> MAX_CHUNK"
  shows "takes d (plcBufferRead n) bs (0, Some bs)"
proof (rule takesI)
  fix w rest
  assume w: "conn_inv w" "alloc_all w" "in_stream w = bs @ rest"
  then have "\<not> Short (int n) w w'" and "\<not> No_memory w e w'" for w' e
    using assms(1) by (auto simp: Short_def No_memory_def)
  with read_spec [OF w(1) assms(2)] w assms(1)
  show "\<exists>w'. plcBufferRead n w = Ok (0, Some bs) w' \<and> in_kept w w' \<and> in_stream w' = rest"
    by (cases "plcBufferRead n w") (auto simp: Took_def)
qed

lemma or_res_0 [simp]: "or_res 0 m = m"
  by (auto simp: or_res_def prog_simps fun_eq_iff split: outcome.splits)

lemma takes_store:
  "takes d m bs (0, Some x) \<Longrightarrow> takes d (store f m) bs (0, Some (Rawdata False (f x)))"
  unfolding store_def by (rule takes_bind_last) (auto intro: takes_return)

lemma takes_gather:
  assumes "\<And>i. i < n \<Longrightarrow> takes d (g (xs ! i)) (bss ! i) (0, Some (ys ! i))"
    and "length bss = n" and "length ys = n" and "n \<le> length xs"
  shows "takes d (gather 0 g n xs) (concat bss) (0, ys)"
  using assms
proof (induction n arbitrary: xs bss ys)
  case 0
  then show ?case by (auto intro: takes_return)
next
  case (Suc n)
  then obtain x xs' b bss' y ys' where eq: "xs = x # xs'" "bss = b # bss'" "ys = y # ys'"
    "length bss' = n" "n \<le> length xs'" "length ys' = n"
    by (auto simp: Suc_le_length_iff length_Suc_conv)
  have tail: "takes d (gather 0 g n xs') (concat bss') (0, ys')"
    by (rule Suc.IH) (use Suc.prems(1) [of "Suc _"] eq in auto)
  have head: "takes d (g x) b (0, Some y)"
    using Suc.prems(1) [of 0] eq by simp
  show ?case
    by (auto simp: eq intro!: takes_bind2 [OF head] takes_bind2_last [OF tail] takes_return)
qed

lemma takes_gather0:
  assumes "\<And>i. i < n \<Longrightarrow> takes d (g (xs ! i)) (bss ! i) (0, Some (ys ! i))"
    and "length bss = n" and "length ys = n" and "n \<le> length xs"
  shows "takes d (gather0 0 g n xs) (concat bss) (0, ys)"
  using assms
proof (induction n arbitrary: xs bss ys)
  case 0
  then show ?case by (auto intro: takes_return)
next
  case (Suc n)
  then obtain x xs' b bss' y ys' where eq: "xs = x # xs'" "bss = b # bss'" "ys = y # ys'"
    "length bss' = n" "n \<le> length xs'" "length ys' = n"
    by (auto simp: Suc_le_length_iff length_Suc_conv)
  have tail: "takes d (gather0 0 g n xs') (concat bss') (0, ys')"
    by (rule Suc.IH) (use Suc.prems(1) [of "Suc _"] eq in auto)
  have head: "takes d (g x) b (0, Some y)"
    using Suc.prems(1) [of 0] eq by simp
  show ?case
    by (auto simp: eq intro!: takes_bind2 [OF head] takes_bind2_last [OF tail] takes_return)
qed

section \<open>The interface of a protocol item\<close>

text \<open>
  \<open>put\<close> sends an item as \<open>enc\<close> says and \<open>get\<close>, on a stack of \<open>need\<close> frames, receives it as
  \<open>view\<close> says, for items that satisfy \<open>ok\<close>.
\<close>

lemma nth_in_zip: "i < length xs \<Longrightarrow> i < length ys \<Longrightarrow> (xs ! i, ys ! i) \<in> set (zip xs ys)"
  by (auto simp: set_zip)

lemma nth_in_take: "i < n \<Longrightarrow> n \<le> length xs \<Longrightarrow> xs ! i \<in> set (take n xs)"
  by (metis length_take min.absorb2 nth_mem nth_take)

locale wire_item =
  fixes put :: "'a \<Rightarrow> (world, int) prog" and get :: "(world, int \<times> 'b option) prog"
    and enc :: "'a \<Rightarrow> byte list" and view :: "'a \<Rightarrow> 'b" and ok :: "'a \<Rightarrow> bool" and need :: "'a \<Rightarrow> nat"
  assumes put_ok: "ok x \<Longrightarrow> puts False (put x) (enc x)"
    and get_ok: "ok x \<Longrightarrow> takes (need x) get (enc x) (0, Some (view x))"
begin

lemma get_deep: "ok x \<Longrightarrow> need x \<le> d \<Longrightarrow> takes d get (enc x) (0, Some (view x))"
  by (rule takes_mono [OF get_ok])

lemma transfer:
  assumes "ok x" and "conn_inv ws" and "sends_good ws" and "alloc_all ws"
    and "conn_inv wr" and "alloc_all wr" and "need x \<le> stack wr"
  shows "\<exists>ws'. put x ws = Ok 0 ws' \<and> out_kept ws ws' \<and> out_stream ws' = out_stream ws @ enc x
    \<and> (in_stream wr = enc x @ rest \<longrightarrow>
        (\<exists>wr'. get wr = Ok (0, Some (view x)) wr' \<and> in_kept wr wr' \<and> in_stream wr' = rest))"
proof -
  obtain ws' where "put x ws = Ok 0 ws'" "out_kept ws ws'" "out_stream ws' = out_stream ws @ enc x"
    using puts_Ok [OF put_ok [OF assms(1)] assms(2-4)] by blast
  moreover have "in_stream wr = enc x @ rest \<longrightarrow>
      (\<exists>wr'. get wr = Ok (0, Some (view x)) wr' \<and> in_kept wr wr' \<and> in_stream wr' = rest)"
    using takes_run [OF get_ok [OF assms(1)] assms(5-7)] by blast
  ultimately show ?thesis by blast
qed

lemma put_each:
  assumes "n \<le> length xs" and "\<forall>x \<in> set (take n xs). ok x"
  shows "emits False (\<lambda>res. each res put n xs) (concat (map enc (take n xs)))"
  using assms by (intro emits_each) (auto intro: put_ok nth_in_take)

lemma put_each0:
  assumes "n \<le> length xs" and "\<forall>x \<in> set (take n xs). ok x"
  shows "emits False (\<lambda>res. each0 res put n xs) (concat (map enc (take n xs)))"
  using assms by (intro emits_each0) (auto intro: put_ok nth_in_take)

lemma get_gather:
  assumes "\<forall>x \<in> set xs. ok x \<and> need x \<le> d" and "n = length xs"
  shows "takes d (gather 0 (\<lambda>_. get) n (replicate n ())) (concat (map enc xs)) (0, map view xs)"
  using assms by (intro takes_gather) (auto intro: get_deep)

lemma get_gather0:
  assumes "\<forall>x \<in> set xs. ok x \<and> need x \<le> d" and "n = length xs"
  shows "takes d (gather0 0 (\<lambda>_. get) n (replicate n ())) (concat (map enc xs)) (0, map view xs)"
  using assms by (intro takes_gather0) (auto intro: get_deep)

end

text \<open>A world whose socket will deliver the given bytes, to run a receiver in.\<close>

definition init_buf :: plcBuffer where
  "init_buf = \<lparr>bdata = replicate (nat PLC_BUFFER_SIZE) 0, pStart = 0, pEnd = 0, bufSize = PLC_BUFFER_SIZE\<rparr>"

definition world_of :: "nat \<Rightarrow> recv_ev list \<Rightarrow> send_ev list \<Rightarrow> world" where
  "world_of d rs ss = \<lparr>conn = \<lparr>sock = 5, buffer = (\<lambda>_. init_buf)\<rparr>, recvs = rs, sends = ss,
     wire = [], alloc_ok = (\<lambda>n. int n \<le> MaxAllocSize), junk = 0, stack = d\<rparr>"

lemma world_of_inv [simp]:
  "conn_inv (world_of d rs ss)" "alloc_all (world_of d rs ss)" "stack (world_of d rs ss) = d"
  "in_stream (world_of d rs ss) = avail rs" "out_stream (world_of d rs ss) = []"
  "recvs (world_of d rs ss) = rs" "sends (world_of d rs ss) = ss" "wire (world_of d rs ss) = []"
  by (simp_all add: world_of_def conn_inv_def alloc_law_def alloc_all_def init_buf_def
      buf_inv_def size_defs in_stream_def out_stream_def content_def)

lemma sends_good_world_of [simp]: "sends_good (world_of d rs ss) \<longleftrightarrow> (\<forall>e\<in>set ss. \<exists>n. e = SAccept (Suc n))"
  by (simp add: sends_good_def)

lemma takes_unique:
  assumes "takes d m bs y" and "takes d' m bs' y'" and "bs @ rest = bs' @ rest'"
  shows "y = y' \<and> rest = rest'"
proof -
  let ?w = "world_of (max d d') [RData (bs @ rest)] []"
  have "in_stream ?w = bs @ rest" "in_stream ?w = bs' @ rest'"
    using assms(3) by (auto split: if_splits)
  with takes_run [OF assms(1), of ?w rest] takes_run [OF assms(2), of ?w rest']
  show ?thesis by auto
qed

context wire_item
begin

lemma prefix_free:
  assumes "ok x" and "ok y" and "enc x @ rest = enc y @ rest'"
  shows "view x = view y \<and> rest = rest'"
  using takes_unique [OF get_ok get_ok, OF assms] by simp

end

section \<open>Primitive items\<close>

lemma puts_append:
  "n \<le> MAX_CHUNK \<Longrightarrow> n \<le> length src \<Longrightarrow> puts False (plcBufferAppend src n) (take n src)"
  unfolding puts_def
  by (auto intro!: ensures_mono [OF append_spec] simp: Appended_def Emitted_def No_room_def Send_failed_def)

lemma puts_append_all:
  "n \<le> MAX_CHUNK \<Longrightarrow> n = length src \<Longrightarrow> puts False (plcBufferAppend src n) src"
  using puts_append [of n src] by simp

lemma puts_message_end: "puts True message_end []"
  unfolding puts_def message_end_def plcBufferFlush_def
proof (intro allI impI)
  fix w
  assume inv: "conn_inv w"
  then have "buf_inv (buf PLC_OUTPUT_BUFFER w)" by (simp add: conn_inv_def)
  from flush_spec [OF this, of True]
  show "ensures (plcBufferMaybeFlush True w) (Emitted True [] 0 w) (Send_failed w) (\<lambda>w'. False)"
    by (rule ensures_mono)
      (auto simp: Emitted_def Send_failed_def same_out_kept [OF inv], auto simp: same_out_def)
qed

lemma puts_fixed: "length bs \<le> 8 \<Longrightarrow> n = length bs \<Longrightarrow> puts False (plcBufferAppend bs n) bs"
  by (rule puts_append_all) (simp_all add: MAX_CHUNK_def)

lemma small_chunk: "n \<le> 8 \<Longrightarrow> n \<le> MAX_CHUNK"
  by (simp add: MAX_CHUNK_def)

lemma takes_char: "takes d receive_char [b] (0, Some b)"
  unfolding receive_char_def
  by (rule takes_bind2_last, rule takes_read) (auto intro: takes_return_eq simp: MAX_CHUNK_def)

lemma takes_word:
  assumes "m = bindM (plcBufferRead n) (\<lambda>(res, bs). returnM (res, map_option le_word bs))"
    and "n \<le> 8" and "LENGTH('a) \<le> 8 * n"
  shows "takes d m (le_bytes n (x::'a::len word)) (0, Some x)"
  unfolding assms(1)
  by (rule takes_bind2_last, rule takes_read) (use assms in \<open>auto intro: takes_return_eq simp: MAX_CHUNK_def\<close>)

lemmas prim_defs = send_char_def send_int16_def send_int32_def send_uint32_def send_int64_def
  send_float4_def send_float8_def message_start_def receive_int16_def receive_int32_def
  receive_uint32_def receive_int64_def receive_float4_def receive_float8_def

interpretation w_char: wire_item send_char receive_char "\<lambda>c. [c]" id "\<lambda>_. True" "\<lambda>_. 0"
  by unfold_locales (simp_all add: prim_defs puts_fixed takes_char)

interpretation w_int16: wire_item send_int16 receive_int16 "le_bytes 2" id "\<lambda>_. True" "\<lambda>_. 0"
  by unfold_locales (simp_all add: prim_defs puts_fixed takes_word)

interpretation w_int32: wire_item send_int32 receive_int32 "le_bytes 4" id "\<lambda>_. True" "\<lambda>_. 0"
  by unfold_locales (simp_all add: prim_defs puts_fixed takes_word)

interpretation w_uint32: wire_item send_uint32 receive_uint32 "le_bytes 4" id "\<lambda>_. True" "\<lambda>_. 0"
  by unfold_locales (simp_all add: prim_defs puts_fixed takes_word)

interpretation w_int64: wire_item send_int64 receive_int64 "le_bytes 8" id "\<lambda>_. True" "\<lambda>_. 0"
  by unfold_locales (simp_all add: prim_defs puts_fixed takes_word)

interpretation w_float4: wire_item send_float4 receive_float4 "le_bytes 4" id "\<lambda>_. True" "\<lambda>_. 0"
  by unfold_locales (simp_all add: prim_defs puts_fixed takes_word)

interpretation w_float8: wire_item send_float8 receive_float8 "le_bytes 8" id "\<lambda>_. True" "\<lambda>_. 0"
  by unfold_locales (simp_all add: prim_defs puts_fixed takes_word)

lemma puts_message_start: "puts False (message_start b) [b]"
  by (simp add: prim_defs puts_fixed)

subsection \<open>Strings\<close>

definition enc_cstring :: "cstr \<Rightarrow> byte list" where
  "enc_cstring s = (case s of None \<Rightarrow> le_bytes 4 (-1 :: i32)
     | Some s \<Rightarrow> le_bytes 4 (of_nat (length s) :: i32) @ s)"

definition ok_cstring :: "cstr \<Rightarrow> bool" where
  "ok_cstring s = (case s of None \<Rightarrow> True | Some s \<Rightarrow> 0 \<notin> set s \<and> length s \<le> MAX_CHUNK)"

definition enc_bytea :: "byte list \<Rightarrow> byte list" where
  "enc_bytea s = le_bytes 4 (of_nat (length s) :: i32) @ s"

definition ok_bytea :: "byte list \<Rightarrow> bool" where
  "ok_bytea s \<longleftrightarrow> length s \<le> MAX_CHUNK"

lemma strlen_ok: "0 \<notin> set s \<Longrightarrow> strlen s = length s"
  by (induction s) (auto simp: strlen_def)

lemma sint_chunk: "n \<le> MAX_CHUNK \<Longrightarrow> sint (of_nat n :: i32) = int n"
  by (simp add: MAX_CHUNK_def sint_of_nat_small)

lemma chunk_not_neg: "n \<le> MAX_CHUNK \<Longrightarrow> (of_nat n :: i32) \<noteq> -1"
  using sint_chunk [of n] by (metis of_nat_0_le_iff sint_n1 not_le neg_less_0_iff_less zero_less_one)

lemma size_of_int_nat: "n \<le> 2147483647 \<Longrightarrow> size_of_int (int n) = n"
  by (simp add: size_of_int_nonneg INT_MAX_def)

lemma size_of_chunk: "n \<le> MAX_CHUNK \<Longrightarrow> size_of_int (int n) = n"
  by (simp add: size_of_int_nat MAX_CHUNK_def)

lemma puts_cstring:
  assumes "ok_cstring s"
  shows "puts False (send_cstring s) (enc_cstring s)"
proof (cases s)
  case None
  then show ?thesis
    using w_int32.put_ok [of "-1"] by (simp add: send_cstring_def enc_cstring_def)
next
  case (Some t)
  let ?n = "length t"
  from assms Some have n: "strlen t = ?n" "?n \<le> MAX_CHUNK"
    by (auto simp: ok_cstring_def strlen_ok)
  have "emits False (\<lambda>res. if res = 0 \<and> 0 < int ?n
      then plcBufferAppend (t @ [0]) ?n else returnM res) t"
  proof (cases "?n = 0")
    case True
    then show ?thesis using emits_return by simp
  next
    case False
    have "puts False (plcBufferAppend (t @ [0]) ?n) t"
      using puts_append [of ?n "t @ [0]"] n by simp
    with False show ?thesis
      by (auto simp: puts_def emits_def Emitted_def out_kept_refl)
  qed
  from puts_bind [OF w_int32.put_ok this, of "of_nat ?n"]
  show ?thesis
    unfolding send_cstring_def enc_cstring_def Some option.case Let_def n(1) orM_0
      sint_chunk [OF n(2)] size_of_chunk [OF n(2)] by simp
qed

lemma takes_cstring:
  assumes "ok_cstring s"
  shows "takes d receive_cstring (enc_cstring s) (0, Some s)"
proof (cases s)
  case None
  have "takes d receive_cstring (le_bytes 4 (-1 :: i32)) (0, Some None)"
    unfolding receive_cstring_def
    by (rule takes_bind2_last, rule w_int32.get_deep) (auto intro: takes_return)
  with None show ?thesis by (simp add: enc_cstring_def)
next
  case (Some t)
  let ?n = "length t"
  from assms Some have n: "?n \<le> MAX_CHUNK" by (auto simp: ok_cstring_def)
  have al: "int (?n + 1) \<le> MaxAllocSize" "in_int (int ?n + 1)" "size_of_int (int ?n + 1) = ?n + 1"
    using n by (auto simp: size_defs size_of_int_def nat_add_distrib)
  have "takes d receive_cstring (le_bytes 4 (of_nat ?n :: i32) @ t) (0, Some (Some t))"
    unfolding receive_cstring_def
  proof (rule takes_bind2, rule w_int32.get_deep)
    show "takes d (if (0::int) < 0 then returnM (-1, None)
      else bindM (needM Uninit (Some (id (of_nat ?n :: i32)))) (\<lambda>cnt.
        if cnt = -1 then returnM (0, Some None)
        else bindM (intM (sint cnt + 1)) (\<lambda>len. bindM (plc_alloc (size_of_int len)) (\<lambda>_.
          if 0 < sint cnt then bindM (plcBufferRead (size_of_int (sint cnt)))
             (\<lambda>(res, bs). returnM (res, map_option Some bs))
          else bindM (checkM OutOfBounds (0 \<le> sint cnt)) (\<lambda>_. returnM (0, Some (Some []))))))) t
      (0, Some (Some t))"
      using n al chunk_not_neg [OF n]
      by (auto simp: sint_chunk size_of_chunk intro!: takes_alloc takes_return
          takes_bind2_last [OF takes_read])
  qed simp_all
  with Some show ?thesis by (simp add: enc_cstring_def)
qed

interpretation w_cstring: wire_item send_cstring receive_cstring enc_cstring id ok_cstring "\<lambda>_. 0"
  by unfold_locales (auto intro: puts_cstring takes_cstring)

subsection \<open>Binary strings\<close>

lemma puts_bytea:
  assumes "ok_bytea s"
  shows "puts False (send_bytea s) (enc_bytea s)"
proof -
  let ?n = "length s"
  have n: "?n \<le> MAX_CHUNK" using assms by (simp add: ok_bytea_def)
  have "emits False (\<lambda>res. orM res (plcBufferAppend s ?n)) s"
    by (rule emits_orM [OF puts_append_all [OF n refl]])
  from puts_bind [OF w_int32.put_ok this, of "of_nat ?n"]
  show ?thesis
    unfolding send_bytea_def enc_bytea_def Let_def orM_0 sint_chunk [OF n] size_of_chunk [OF n]
    by simp
qed

lemma takes_bytea:
  assumes "ok_bytea s"
  shows "takes d receive_bytea (enc_bytea s) (0, Some s)"
proof -
  let ?n = "length s"
  have n: "?n \<le> MAX_CHUNK" using assms by (simp add: ok_bytea_def)
  have al: "int (?n + 4) \<le> MaxAllocSize" "in_int (int ?n + 4)" "size_of_int (int ?n + 4) = ?n + 4"
    using n by (auto simp: size_defs size_of_int_def nat_add_distrib)
  show ?thesis
    unfolding receive_bytea_def enc_bytea_def
    by (rule takes_bind2 [OF w_int32.get_deep])
      (use n al in \<open>auto simp: sint_chunk size_of_chunk intro!: takes_alloc takes_return_eq
          takes_read\<close>)
qed

interpretation w_bytea: wire_item send_bytea receive_bytea enc_bytea id ok_bytea "\<lambda>_. 0"
  by unfold_locales (auto intro: puts_bytea takes_bytea)

end
