(* ===== verification/Connection_Props.thy ===== *)
theory Connection_Props
  imports Wire
begin

text \<open>
  The properties of the buffered connection: what each buffer operation does to the two byte
  streams, that no access leaves a block, and how failures of the socket and of the memory
  manager show.
\<close>

text \<open>
  C14: appending \<open>n\<close> bytes extends the output stream by exactly them and returns 0, or leaves
  the stream as it was and says so (-1 on a failed write, an error when \<open>send\<close> was
  interrupted or memory ran out), whatever reset, flush or growth of the buffer it takes;
  no block is overrun and the invariant is kept.
\<close>

theorem buffer_append:
  assumes "conn_inv w" and "n \<le> MAX_CHUNK" and "n \<le> length src"
  shows "ensures (plcBufferAppend src n w)
    (\<lambda>r w'. conn_inv w' \<and> in_stream w' = in_stream w
       \<and> (r = 0 \<and> out_stream w' = out_stream w @ take n src
          \<or> r = -1 \<and> \<not> sends_good w \<and> out_stream w' = out_stream w))
    (\<lambda>e w'. conn_inv w' \<and> in_stream w' = in_stream w \<and> out_stream w' = out_stream w
       \<and> (e = E_interrupted \<and> \<not> sends_good w \<or> (\<exists>k. e = E_alloc k) \<and> \<not> alloc_all w))
    (\<lambda>w'. False)"
  by (rule ensures_mono [OF append_spec [OF assms]])
    (auto simp: Appended_def No_room_def out_kept_def out_frame_def in_stream_def)

lemma buffer_append_witness:
  "ensures (plcBufferAppend [1, 2, 3] 2 (world_of 0 [] []))
    (\<lambda>r w'. r = 0 \<and> out_stream w' = [1, 2]) (\<lambda>e w'. False) (\<lambda>w'. False)"
  by (rule ensures_mono [OF buffer_append [of "world_of 0 [] []" 2 "[1, 2, 3]"]])
    (auto simp: MAX_CHUNK_def)

text \<open>
  C15: a read of \<open>n\<close> bytes takes exactly the next \<open>n\<close> of the stream, or takes none and says why:
  -1, an interrupted call or a call that still waits only when fewer than \<open>n\<close> bytes will
  ever come, and a refused allocation. The bytes that came stay in the buffer.
\<close>

theorem buffer_read:
  assumes "conn_inv w" and "n \<le> MAX_CHUNK"
  shows "ensures (plcBufferRead n w)
    (\<lambda>(r, bs) w'. conn_inv w' \<and> out_stream w' = out_stream w
       \<and> (r = 0 \<and> n \<le> length (in_stream w) \<and> bs = Some (take n (in_stream w))
             \<and> in_stream w' = drop n (in_stream w)
          \<or> r = -1 \<and> bs = None \<and> length (in_stream w) < n
             \<and> content (buf PLC_INPUT_BUFFER w') = in_stream w))
    (\<lambda>e w'. conn_inv w' \<and> out_stream w' = out_stream w
       \<and> (e = E_interrupted \<and> length (in_stream w) < n \<or> (\<exists>k. e = E_alloc k) \<and> \<not> alloc_all w))
    (\<lambda>w'. conn_inv w' \<and> out_stream w' = out_stream w \<and> length (in_stream w) < n)"
proof -
  have kept: "conn_inv w' \<and> out_stream w' = out_stream w" if "in_kept w w'" for w'
    using that by (auto simp: in_kept_def in_frame_def out_stream_def)
  show ?thesis
    by (rule ensures_mono [OF read_spec [OF assms]])
      (auto simp: Took_def Short_def No_memory_def dest: kept)
qed

lemma buffer_read_witness:
  "ensures (plcBufferRead 2 (world_of 0 [RData [7], RFail EAGAIN, RData [8, 9]] []))
    (\<lambda>x w'. x = (0, Some [7, 8]) \<and> in_stream w' = [9]) (\<lambda>e w'. False) (\<lambda>w'. False)"
  by (rule ensures_mono [OF buffer_read [of "world_of 0 [RData [7], RFail EAGAIN, RData [8, 9]] []" 2]])
    (auto simp: MAX_CHUNK_def numeral_2_eq_2)

text \<open>
  C28: a flush that returns 0 has given the socket every byte appended before and leaves the
  output buffer empty; partial writes are completed. It returns -1 only after a failed
  write, and then no byte is lost or doubled.
\<close>

theorem buffer_flush:
  assumes "conn_inv w"
  shows "ensures (plcBufferFlush w)
    (\<lambda>r w'. conn_inv w' \<and> out_stream w' = out_stream w
       \<and> (r = 0 \<and> wire w' = out_stream w \<and> content (buf PLC_OUTPUT_BUFFER w') = []
          \<or> r = -1 \<and> \<not> sends_good w))
    (\<lambda>e w'. e = E_interrupted \<and> \<not> sends_good w \<and> out_stream w' = out_stream w) (\<lambda>w'. False)"
proof -
  have "buf_inv (buf PLC_OUTPUT_BUFFER w)" using assms by (simp add: conn_inv_def)
  moreover have "conn_inv w' \<and> out_stream w' = out_stream w" if "same_out w w'" for w'
    using same_out_kept [OF assms that] that by (simp add: out_kept_def same_out_def)
  moreover have "wire w' = out_stream w'" if "content (buf PLC_OUTPUT_BUFFER w') = []" for w'
    using that by (simp add: out_stream_def)
  ultimately show ?thesis
    unfolding plcBufferFlush_def
    by (intro ensures_mono [OF flush_spec [of w True]]) auto
qed

lemma buffer_flush_witness:
  "ensures (plcBufferFlush (world_of 0 [] [SFail EOTHER]))
    (\<lambda>r w'. r = 0 \<and> wire w' = [] \<or> r = -1) (\<lambda>e w'. e = E_interrupted) (\<lambda>w'. False)"
  by (rule ensures_mono [OF buffer_flush [of "world_of 0 [] [SFail EOTHER]"]]) auto

text \<open>
  C29: a resize for a transfer of \<open>n\<close> bytes makes room for them behind the data and keeps the
  data; the new size is a multiple of \<open>PLC_BUFFER_SIZE\<close> no larger than \<open>palloc\<close> serves. It
  fails only by an allocation that was refused, and then the buffer is as it was.
\<close>

theorem buffer_resize:
  assumes "buf_inv (buf bt w)" and "alloc_law w" and "n \<le> MAX_CHUNK"
  shows "ensures (plcBufferMaybeResize bt n w)
    (\<lambda>r w'. r = 0 \<and> content (buf bt w') = content (buf bt w)
       \<and> pEnd (buf bt w') + int n \<le> bufSize (buf bt w')
       \<and> PLC_BUFFER_SIZE dvd bufSize (buf bt w') \<and> bufSize (buf bt w') \<le> MaxAllocSize)
    (\<lambda>e w'. w' = w \<and> (\<exists>k. e = E_alloc k \<and> \<not> alloc_ok w k)) (\<lambda>w'. False)"
  by (rule ensures_mono [OF resize_spec [OF assms]]) (auto simp: buf_inv_def)

lemma buffer_resize_witness:
  "ensures (plcBufferMaybeResize PLC_OUTPUT_BUFFER 10000 (world_of 0 [] []))
    (\<lambda>r w'. r = 0 \<and> pEnd (buf PLC_OUTPUT_BUFFER w') + 10000 \<le> bufSize (buf PLC_OUTPUT_BUFFER w'))
    (\<lambda>e w'. True) (\<lambda>w'. False)"
proof -
  have "buf_inv (buf PLC_OUTPUT_BUFFER (world_of 0 [] []))" "alloc_law (world_of 0 [] [])"
    using world_of_inv(1) [of 0 "[]" "[]"] by (simp_all add: conn_inv_def)
  from ensures_mono [OF buffer_resize [OF this, of 10000]] show ?thesis
    by (auto simp: MAX_CHUNK_def)
qed

text \<open>
  A reset always succeeds, keeps the data and the size, and an emptied buffer starts
  again at its front.
\<close>

lemma buffer_reset:
  assumes "buf_inv (buf bt w)"
  shows "\<exists>w'. plcBufferMaybeReset bt w = Ok 0 w' \<and> buf_inv (buf bt w')
    \<and> content (buf bt w') = content (buf bt w) \<and> bufSize (buf bt w') = bufSize (buf bt w)
    \<and> (content (buf bt w) = [] \<longrightarrow> pStart (buf bt w') = 0 \<and> pEnd (buf bt w') = 0)
    \<and> (\<forall>bt'. bt' \<noteq> bt \<longrightarrow> buf bt' w' = buf bt' w)"
  using reset_spec [OF assms] by fastforce

text \<open>
  A new connection satisfies the invariant with both buffers empty, whatever was in the
  memory it is built in.
\<close>

lemma conn_init:
  assumes "alloc_law w" and "alloc_all w"
  shows "\<exists>w'. plcConnInit s w = Ok () w' \<and> conn_inv w' \<and> sock (conn w') = s
    \<and> content (buf PLC_INPUT_BUFFER w') = [] \<and> out_stream w' = wire w"
  using assms
  by (simp add: plcConnInit_def bindM_def plc_alloc_def alloc_all_def size_of_int_def conn_inv_def
      buf_inv_def alloc_law_def size_defs content_def out_stream_def)

end
