(* ===== verification/Wire_Values.thy ===== *)
theory Wire_Values
  imports Wire
begin

text \<open>
  The wire format of types and values: what \<open>send_type\<close> and \<open>send_raw_object\<close> write, and that
  \<open>receive_type\<close> and \<open>receive_raw_object\<close> read it back.
\<close>

section \<open>Types\<close>

abbreviation nested :: "plcDatatype \<Rightarrow> bool" where
  "nested t \<equiv> t = PLC_DATA_ARRAY \<or> t = PLC_DATA_UDT"

fun enc_type :: "plcType \<Rightarrow> byte list" where
  "enc_type (PlcType t n nm subs) =
     [word_of_int (dt_code t)] @ enc_cstring nm
     @ (if nested t then le_bytes 2 n @ concat (map enc_type subs) else [])"

text \<open>
  A type the wire can carry: a code that fits a \<open>char\<close>, as many subtypes as \<open>nSubTypes\<close> says.
  Its depth is the number of stack frames \<open>receive_type\<close> needs for it.
\<close>

fun ok_type :: "plcType \<Rightarrow> bool" where
  "ok_type (PlcType t n nm subs) \<longleftrightarrow> dt_ok t \<and> ok_cstring nm
     \<and> (if nested t then 0 \<le> sint n \<and> length subs = nat (sint n) \<and> (\<forall>s \<in> set subs. ok_type s)
        else n = 0 \<and> subs = [])"

fun type_depth :: "plcType \<Rightarrow> nat" where
  "type_depth (PlcType t n nm subs) = Suc (foldr max (map type_depth subs) 0)"

lemma foldr_max_le: "x \<in> set xs \<Longrightarrow> (x::nat) \<le> foldr max xs 0"
  by (induction xs) auto

lemma sub_depth: "s \<in> set subs \<Longrightarrow> type_depth s < type_depth (PlcType t n nm subs)"
  by (simp add: foldr_max_le less_Suc_eq_le)

lemma dt_char: "dt_ok t \<Longrightarrow> dt_of_code (sint (word_of_int (dt_code t) :: byte)) = t"
proof -
  assume t: "dt_ok t"
  then have "sint (word_of_int (dt_code t) :: byte) = dt_code t"
    unfolding dt_ok_def by (simp add: sint_sbintrunc' signed_take_bit_int_eq_self)
  with t show ?thesis by (simp add: dt_ok_def)
qed

lemma sint16_le: "sint (n :: i16) \<le> 32767"
  using sint_lt [of n] by simp

lemma sub_alloc:
  assumes "0 \<le> sint (n :: i16)" and "k \<le> 24"
  shows "int (size_mult (size_of_int (sint n)) k) \<le> MaxAllocSize"
proof -
  let ?m = "nat (sint n)"
  have "?m \<le> 32767" using sint16_le [of n] by linarith
  then have "?m * k \<le> 32767 * 24" using assms(2) by (rule mult_le_mono)
  moreover have "size_of_int (sint n) = ?m"
    using assms(1) sint16_le [of n] by (simp add: size_of_int_nonneg INT_MAX_def)
  ultimately have "size_mult (size_of_int (sint n)) k \<le> 786408"
    by (auto simp: size_mult_def intro: le_trans [OF mod_less_eq_dividend])
  then show ?thesis unfolding MaxAllocSize_def by linarith
qed

lemma puts_type: "ok_type t \<Longrightarrow> puts False (send_type t) (enc_type t)"
proof (induction t)
  case (PlcType t n nm subs)
  let ?tail = "\<lambda>res. if nested t then
       bindM (orM res (send_int16 n)) (\<lambda>res. each0 res send_type (nat (sint n)) subs)
     else returnM res"
  have "emits False (\<lambda>res. each0 res send_type (nat (sint n)) subs) (concat (map enc_type subs))"
    if "nested t"
    using PlcType that by (intro emits_each0) auto
  then have "emits False ?tail (if nested t then le_bytes 2 n @ concat (map enc_type subs) else [])"
    using emits_return by (auto intro!: emits_bind [OF emits_orM [OF w_int16.put_ok]])
  moreover have "ok_cstring nm" using PlcType.prems by simp
  ultimately show ?case
    unfolding send_type.simps enc_type.simps orM_0
    by (intro puts_bind [OF w_char.put_ok] emits_bind [OF emits_orM [OF w_cstring.put_ok]]) simp_all
qed

lemma takes_type_d:
  "ok_type t \<Longrightarrow> type_depth t \<le> d \<Longrightarrow> takes s (receive_type_d d) (enc_type t) (0, Some t)"
proof (induction t arbitrary: d)
  case (PlcType t n nm subs)
  then obtain d' where d: "d = Suc d'" by (cases d) auto
  have ok: "dt_ok t" "ok_cstring nm" using PlcType.prems by simp_all
  have tail: "takes s
     (if nested t then
       bindM (or_res 0 receive_int16) (\<lambda>(res, n).
       bindM (needM Uninit n) (\<lambda>n.
       if 0 < sint n then
         bindM (plc_alloc (size_mult (size_of_int (sint n)) 24)) (\<lambda>_.
         bindM (gather0 res (\<lambda>_. receive_type_d d') (nat (sint n)) (replicate (nat (sint n)) ()))
           (\<lambda>(res, subs). returnM (res, Some (PlcType t n nm subs))))
       else returnM (res, Some (PlcType t n nm []))))
     else returnM (0, Some (PlcType t 0 nm [])))
     (if nested t then le_bytes 2 n @ concat (map enc_type subs) else []) (0, Some (PlcType t n nm subs))"
  proof (cases "nested t")
    case False
    with PlcType.prems show ?thesis by (auto intro: takes_return_eq)
  next
    case True
    with PlcType.prems have n: "0 \<le> sint n" "length subs = nat (sint n)" "\<forall>s \<in> set subs. ok_type s"
      by auto
    have sub: "takes s (gather0 0 (\<lambda>_. receive_type_d d') (nat (sint n)) (replicate (nat (sint n)) ()))
        (concat (map enc_type subs)) (0, subs)"
    proof (rule takes_gather0)
      fix i
      assume i: "i < nat (sint n)"
      then have mem: "subs ! i \<in> set subs" using n(2) by simp
      then have "type_depth (subs ! i) \<le> d'"
        using sub_depth [OF mem] PlcType.prems(2) d by (metis le_trans less_Suc_eq_le less_eq_Suc_le not_less_eq_eq)
      with mem n i PlcType.IH [OF mem]
      show "takes s (receive_type_d d') (map enc_type subs ! i) (0, Some (subs ! i))" by simp
    qed (use n in auto)
    show ?thesis unfolding if_P [OF True] or_res_0
    proof (rule takes_bind2 [OF w_int16.get_deep])
      show "takes s (bindM (needM Uninit (Some (id n))) (\<lambda>n.
         if 0 < sint n then
           bindM (plc_alloc (size_mult (size_of_int (sint n)) 24)) (\<lambda>_.
           bindM (gather0 0 (\<lambda>_. receive_type_d d') (nat (sint n)) (replicate (nat (sint n)) ()))
             (\<lambda>(res, subs). returnM (res, Some (PlcType t n nm subs))))
         else returnM (0, Some (PlcType t n nm []))))
         (concat (map enc_type subs)) (0, Some (PlcType t n nm subs))"
        using n sub_alloc [OF n(1), of 24]
        by (auto intro!: takes_alloc takes_bind2_last [OF sub] takes_return_eq)
    qed simp_all
  qed
  have c: "takes s receive_char [word_of_int (dt_code t)] (0, Some (word_of_int (dt_code t)))"
    and nm: "takes s (or_res 0 receive_cstring) (enc_cstring nm) (0, Some nm)"
    using w_char.get_deep [where d = s] w_cstring.get_deep [OF ok(2), of s] by simp_all
  show ?case
    unfolding d receive_type_d.simps enc_type.simps
    by (rule takes_bind2 [OF c], rule takes_bind2 [OF nm])
      (simp only: bindM_needM Let_def dt_char [OF ok(1)] option.case tail)
qed

interpretation w_type: wire_item send_type receive_type enc_type id ok_type type_depth
proof
  fix t :: plcType
  assume ok: "ok_type t"
  show "puts False (send_type t) (enc_type t)" by (rule puts_type [OF ok])
  show "takes (type_depth t) receive_type (enc_type t) (0, Some (id t))"
    unfolding receive_type_def id_apply
    by (rule takesI) (rule takes_run [OF takes_type_d [OF ok, of _ "stack _"]], auto)
qed

section \<open>Values\<close>

function enc_object :: "plcType \<Rightarrow> rawdata \<Rightarrow> byte list" where
  "enc_object t (Rawdata isn v) =
     (if isn then [78]
      else 68 # (case v of
          None \<Rightarrow> enc_cstring None
        | Some (VInt1 x) \<Rightarrow> [x]
        | Some (VInt2 x) \<Rightarrow> le_bytes 2 x
        | Some (VInt4 x) \<Rightarrow> le_bytes 4 x
        | Some (VInt8 x) \<Rightarrow> le_bytes 8 x
        | Some (VFloat4 x) \<Rightarrow> le_bytes 4 x
        | Some (VFloat8 x) \<Rightarrow> le_bytes 8 x
        | Some (VText s) \<Rightarrow> enc_cstring (Some s)
        | Some (VBytea s) \<Rightarrow> enc_bytea s
        | Some (VArray m ds) \<Rightarrow> []
        | Some (VIter m ds) \<Rightarrow> le_bytes 4 (ndims m) @ concat (map (le_bytes 4) (dims m))
            @ concat (map (\<lambda>d. enc_object (hd (subTypes t)) d) ds)
        | Some (VUdt ds) \<Rightarrow> concat (map (\<lambda>(t, d). enc_object t d) (zip (subTypes t) ds))))"
  by pat_completeness auto
termination
  by (relation "measure (\<lambda>(t, d). size d)") (auto dest: zip_size_le elem_size_le)

text \<open>
  The shape of an array the wire can carry: the dimensions multiply, in \<open>int\<close>, to the number
  of elements, and the elements have a width and fit one allocation.
\<close>

fun dims_size :: "int \<Rightarrow> i32 list \<Rightarrow> int option" where
  "dims_size p [] = Some p"
| "dims_size p (d # ds) = (if in_int (p * sint d) then dims_size (p * sint d) ds else None)"

fun elem_width :: "plcDatatype \<Rightarrow> int option" where
  "elem_width PLC_DATA_INT1 = Some 1"
| "elem_width PLC_DATA_INT2 = Some 2"
| "elem_width PLC_DATA_INT4 = Some 4"
| "elem_width PLC_DATA_INT8 = Some 8"
| "elem_width PLC_DATA_FLOAT4 = Some 4"
| "elem_width PLC_DATA_FLOAT8 = Some 8"
| "elem_width PLC_DATA_TEXT = Some 8"
| "elem_width PLC_DATA_UDT = Some 8"
| "elem_width PLC_DATA_BYTEA = Some 8"
| "elem_width dt = None"

lemma plc_get_type_length_width: "elem_width dt = Some n \<Longrightarrow> plc_get_type_length dt = returnM n"
  by (cases dt) simp_all

definition ok_meta :: "plcDatatype \<Rightarrow> plcArrayMeta \<Rightarrow> nat \<Rightarrow> bool" where
  "ok_meta dt m n \<longleftrightarrow> atype m = dt
     \<and> sint (ndims m) = int (length (dims m)) \<and> 4 * int (length (dims m)) \<le> MaxAllocSize
     \<and> dims_size (if dims m = [] then 0 else 1) (dims m) = Some (sint (asize m))
     \<and> sint (asize m) = int n
     \<and> (0 < n \<longrightarrow> (case elem_width dt of None \<Rightarrow> False | Some e \<Rightarrow> int n * e \<le> MaxAllocSize))"

text \<open>
  An object of an iterator, which the sender releases after sending it: neither its value nor a value of its row is a NULL
  pointer without being marked NULL.
\<close>

definition pointed :: "rawdata \<Rightarrow> bool" where
  "pointed d \<longleftrightarrow> isnull d \<or> (case rvalue d of
       None \<Rightarrow> False
     | Some (VUdt ds) \<Rightarrow> (\<forall>x \<in> set ds. isnull x \<or> rvalue x \<noteq> None)
     | Some _ \<Rightarrow> True)"

lemma marked_pointed: "marked d \<Longrightarrow> pointed d"
  by (cases d) (auto simp: pointed_def split: option.splits rvalue.splits dest: marked_value)

function ok_object :: "plcType \<Rightarrow> rawdata \<Rightarrow> bool" where
  "ok_object t (Rawdata isn v) =
     (if isn then v = None
      else (case v of
          None \<Rightarrow> ty t = PLC_DATA_TEXT
        | Some (VInt1 x) \<Rightarrow> ty t = PLC_DATA_INT1
        | Some (VInt2 x) \<Rightarrow> ty t = PLC_DATA_INT2
        | Some (VInt4 x) \<Rightarrow> ty t = PLC_DATA_INT4
        | Some (VInt8 x) \<Rightarrow> ty t = PLC_DATA_INT8
        | Some (VFloat4 x) \<Rightarrow> ty t = PLC_DATA_FLOAT4
        | Some (VFloat8 x) \<Rightarrow> ty t = PLC_DATA_FLOAT8
        | Some (VText s) \<Rightarrow> ty t = PLC_DATA_TEXT \<and> ok_cstring (Some s)
        | Some (VBytea s) \<Rightarrow> ty t = PLC_DATA_BYTEA \<and> ok_bytea s
        | Some (VArray m ds) \<Rightarrow> False
        | Some (VIter m ds) \<Rightarrow> ty t = PLC_DATA_ARRAY \<and> subTypes t \<noteq> []
            \<and> ok_meta (ty (hd (subTypes t))) m (length ds)
            \<and> (\<forall>d \<in> set ds. pointed d \<and> ok_object (hd (subTypes t)) d)
        | Some (VUdt ds) \<Rightarrow> ty t = PLC_DATA_UDT
            \<and> sint (nSubTypes t) = int (length ds) \<and> length (subTypes t) = length ds
            \<and> (\<forall>(t, d) \<in> set (zip (subTypes t) ds). ok_object t d)))"
  by pat_completeness auto
termination
  by (relation "measure (\<lambda>(t, d). size d)") (auto dest: zip_size_le elem_size_le)

lemma release_item_ok:
  assumes "ok_object t d" and "pointed d"
  shows "release_item t d = (returnM () :: ('s, unit) prog)"
proof (cases d)
  case (Rawdata isn v)
  show ?thesis
  proof (cases isn)
    case False
    then obtain x where x: "v = Some x" using assms(2) Rawdata by (cases v) (auto simp: pointed_def)
    show ?thesis
    proof (cases "ty t = PLC_DATA_UDT")
      case True
      then obtain ds where ds: "x = VUdt ds" "sint (nSubTypes t) = int (length ds)" "length (subTypes t) = length ds"
        using assms(1) Rawdata False x by (cases x) auto
      have "free_value (rvalue y) = (returnM () :: ('s, unit) prog)" if "y \<in> set ds" "\<not> isnull y" for y
        using assms(2) that Rawdata x ds(1) False by (auto simp: pointed_def free_value_def)
      note free = this [OF set_zip_rightD]
      have "release_udt (Some x) t True = (returnM () :: ('s, unit) prog)"
        using ds by (auto simp: release_udt.simps intro!: traverse_skip free)
      with Rawdata x True False show ?thesis by (simp add: release_item_def free_value_def)
    qed (use Rawdata x False in \<open>simp add: release_item_def free_value_def\<close>)
  qed (simp add: release_item_def Rawdata)
qed

text \<open>What the receiver gets for what was sent: an array in place of the iterator.\<close>

fun deliver :: "rawdata \<Rightarrow> rawdata" where
  "deliver (Rawdata isn v) = Rawdata isn (case v of
       Some (VIter m ds) \<Rightarrow> Some (VArray m (map deliver ds))
     | Some (VUdt ds) \<Rightarrow> Some (VUdt (map deliver ds))
     | _ \<Rightarrow> v)"

lemma deliver_sel [simp]: "isnull (deliver d) = isnull d" "rvalue (deliver d) = None \<longleftrightarrow> rvalue d = None"
  by (cases d; simp split: option.split rvalue.split)+

lemma marked_deliver: "marked (deliver d) = marked d"
  by (induction d rule: deliver.induct) (auto split: option.split rvalue.split)

text \<open>Values that arrived are released without going through NULL when they are marked, and values that were sent as well.\<close>

lemma release_udt_delivered:
  assumes "sint (nSubTypes t) = int (length ds)" and "length (subTypes t) = length ds" and "\<forall>d \<in> set ds. marked d"
    and "\<And>s d. (s, d) \<in> set (zip (subTypes t) ds) \<Longrightarrow> \<not> isnull d \<Longrightarrow> ty s = PLC_DATA_ARRAY
      \<Longrightarrow> release_array (rvalue (deliver d)) s False = (returnM () :: ('s, unit) prog)"
  shows "release_udt (Some (VUdt (map deliver ds))) t False = (returnM () :: ('s, unit) prog)"
proof -
  have "free_value (rvalue (deliver d)) = (returnM () :: ('s, unit) prog)" if "d \<in> set ds" "\<not> isnull d" for d
    using marked_value [of "deliver d"] assms(3) that by (auto simp: marked_deliver free_value_def split: option.split)
  note free = this [OF set_zip_rightD]
  show ?thesis
    using assms(1,2) by (auto simp: release_udt.simps zip_map2 intro!: traverse_skip free assms(4))
qed

lemma release_delivered:
  assumes "ok_object t d" and "marked d"
  shows "release_data False t (deliver d) = (returnM () :: ('s, unit) prog)
    \<and> (ty t = PLC_DATA_UDT \<longrightarrow> rvalue d \<noteq> None \<longrightarrow> release_udt (rvalue (deliver d)) t False = (returnM () :: ('s, unit) prog))
    \<and> (ty t = PLC_DATA_ARRAY \<longrightarrow> release_array (rvalue (deliver d)) t False = (returnM () :: ('s, unit) prog))"
  using assms
proof (induction t d rule: ok_object.induct)
  case (1 t isn v)
  show ?case
  proof (cases isn)
    case True
    with "1.prems" show ?thesis by (simp add: release_data_def release_array.simps)
  next
    case False
    note ok = "1.prems"(1) [unfolded ok_object.simps if_not_P [OF False]]
    obtain x where x: "v = Some x" using "1.prems"(2) False by (cases v) auto
    show ?thesis
    proof (cases x)
      case (VIter m ds)
      with ok x have arr: "ty t = PLC_DATA_ARRAY" "subTypes t \<noteq> []" "ok_meta (ty (hd (subTypes t))) m (length ds)"
        "\<forall>d \<in> set ds. ok_object (hd (subTypes t)) d" by auto
      obtain sub subs where t: "subTypes t = sub # subs" using arr(2) by (cases "subTypes t") auto
      have "release_udt (Some y) sub False = (returnM () :: ('s, unit) prog)"
        if "d \<in> set ds" "rvalue (deliver d) = Some y" "ty sub = PLC_DATA_UDT" for d y
      proof -
        have "rvalue d \<noteq> None" using that(2) deliver_sel(2) [of d] by simp
        with "1.IH"(1) [OF False x VIter that(1)] "1.prems"(2) arr(4) t that x VIter False show ?thesis by simp
      qed
      moreover have "nat (sint (asize m)) \<le> length ds" "atype m = ty sub" using arr(3) t by (simp_all add: ok_meta_def)
      ultimately have "release_array (Some (VArray m (map deliver ds))) t False = (returnM () :: ('s, unit) prog)"
        by (auto simp: release_array.simps t intro!: traverse_skip)
      with x VIter arr(1) show ?thesis by (simp add: release_data_def)
    next
      case (VUdt ds)
      with ok x have t: "ty t = PLC_DATA_UDT" "sint (nSubTypes t) = int (length ds)" "length (subTypes t) = length ds"
        "\<forall>(t, d) \<in> set (zip (subTypes t) ds). ok_object t d" by auto
      have "release_udt (Some (VUdt (map deliver ds))) t False = (returnM () :: ('s, unit) prog)"
      proof (rule release_udt_delivered [OF t(2,3)])
        show "\<forall>d \<in> set ds. marked d" using "1.prems"(2) x VUdt False by simp
        fix s d
        assume sd: "(s, d) \<in> set (zip (subTypes t) ds)" "\<not> isnull d" "ty s = PLC_DATA_ARRAY"
        then have "d \<in> set ds" by (auto dest: set_zip_rightD)
        with "1.IH"(2) [OF False x VUdt sd(1) refl] sd t(4) "1.prems"(2) x VUdt False
        show "release_array (rvalue (deliver d)) s False = (returnM () :: ('s, unit) prog)" by auto
      qed
      with x VUdt t(1) show ?thesis by (simp add: release_data_def)
    qed (use ok x in \<open>auto simp: release_data_def\<close>)
  qed
qed

lemma puts_array:
  assumes "ok_meta dt m (length ds)" and "\<forall>d \<in> set ds. puts False (send_raw_object t d) (enc_object t d)"
    and release: "\<And>d. d \<in> set ds \<Longrightarrow> release_item t d = (returnM () :: (world, unit) prog)"
  shows "puts False (send_raw_array_iter t m ds)
    (le_bytes 4 (ndims m) @ concat (map (le_bytes 4) (dims m)) @ concat (map (enc_object t) ds))"
proof -
  have n: "nat (sint (ndims m)) = length (dims m)" "nat (sint (asize m)) = length ds"
    using assms(1) by (simp_all add: ok_meta_def)
  have "emits False (\<lambda>res. each res send_int32 (length (dims m)) (dims m)) (concat (map (le_bytes 4) (dims m)))"
    using w_int32.put_each [of "length (dims m)" "dims m"] by simp
  moreover have "emits False (\<lambda>res. each0 res (\<lambda>d. bindM (send_raw_object t d) (\<lambda>r. bindM (release_item t d) (\<lambda>_. returnM r)))
      (length ds) ds) (concat (map (enc_object t) ds))"
    using assms(2) release by (intro emits_each0) auto
  ultimately show ?thesis
    unfolding send_raw_array_iter.simps orM_0 n
    by (intro puts_bind [OF w_int32.put_ok] emits_bind) simp_all
qed

lemma puts_udt:
  assumes "sint (nSubTypes t) = int (length ds)" and "length (subTypes t) = length ds"
    and "\<forall>(s, d) \<in> set (zip (subTypes t) ds). puts False (send_raw_object s d) (enc_object s d)"
  shows "puts False (send_udt t ds) (concat (map (\<lambda>(s, d). enc_object s d) (zip (subTypes t) ds)))"
proof -
  have "emits False (\<lambda>res. each0 res (\<lambda>(s, d). send_raw_object s d) (length ds) (zip (subTypes t) ds))
     (concat (map (\<lambda>(s, d). enc_object s d) (zip (subTypes t) ds)))"
    using assms by (intro emits_each0) (auto simp: set_zip)
  from emits_puts [OF this] assms(1) show ?thesis by (simp add: send_udt.simps)
qed

lemma puts_object: "ok_object t d \<Longrightarrow> puts False (send_raw_object t d) (enc_object t d)"
proof (induction t d rule: enc_object.induct)
  case (1 t isn v)
  show ?case
  proof (cases isn)
    case True
    then show ?thesis
      unfolding send_raw_object.simps enc_object.simps orM_0 if_P [OF True] by (intro w_char.put_ok) simp
  next
    case False
    note ok = "1.prems" [unfolded ok_object.simps if_not_P [OF False]]
    have flag: "puts False (bindM (orM 0 (send_char 68)) k) (68 # bs)" if "emits False k bs" for k bs
      using puts_bind [OF w_char.put_ok that, of 68] by simp
    show ?thesis
      unfolding send_raw_object.simps enc_object.simps if_not_P [OF False]
    proof (rule flag, goal_cases)
      case g: 1
      show ?case
      proof (cases v)
      case None
      with ok show "?thesis" by (simp add: emits_orM puts_cstring ok_cstring_def)
    next
      case (Some x)
      show "?thesis"
      proof (cases x)
        case (VIter m ds)
        with ok Some "1.IH" False show ?thesis
          by (cases "subTypes t") (auto intro!: emits_orM puts_array release_item_ok)
      next
        case (VUdt ds)
        with ok Some "1.IH" False show ?thesis
          by (fastforce intro!: emits_orM puts_udt)
      qed (use ok Some in \<open>simp_all add: emits_orM w_char.put_ok w_int16.put_ok w_int32.put_ok
          w_int64.put_ok w_float4.put_ok w_float8.put_ok puts_cstring puts_bytea\<close>)
      qed
    qed
  qed
qed

lemma takes_flag:
  assumes "takes s (f 0 b) bs y"
  shows "takes s (bindM receive_char (\<lambda>(res, isn). bindM (needM Uninit isn) (f res))) (b # bs) y"
  using takes_bind2 [OF takes_char [of s b], of "\<lambda>res isn. bindM (needM Uninit isn) (f res)" bs y] assms
  by simp

lemma takes_dims:
  "dims_size p ds = Some q \<Longrightarrow>
   takes s (receive_dims (length ds) 0 p) (concat (map (le_bytes 4) ds)) (0, ds, q)"
proof (induction ds arbitrary: p)
  case Nil
  then show ?case by (simp add: takes_return_eq)
next
  case (Cons d ds)
  then have p: "in_int (p * sint d)" "dims_size (p * sint d) ds = Some q"
    by (auto split: if_splits)
  have "takes s (bindM (receive_dims (length ds) 0 (p * sint d)) (\<lambda>(res, ds, prd). returnM (res, d # ds, prd)))
      (concat (map (le_bytes 4) ds)) (0, d # ds, q)"
    by (rule takes_bind_last [OF Cons.IH [OF p(2)]]) (simp add: takes_return_eq)
  with p(1) show ?case
    by (auto intro!: takes_bind2 [OF w_int32.get_deep])
qed

lemma elem_width_pos: "elem_width dt = Some e \<Longrightarrow> 1 \<le> e \<and> e \<le> 8"
  by (cases dt) auto

lemma takes_alloc_array:
  assumes "sint n = int k" and "4 * int k \<le> MaxAllocSize" and "takes s (f ()) bs y"
  shows "takes s (bindM (plc_alloc_array n) f) bs y"
proof -
  have "int (size_mult (size_of_int (int k)) 4) \<le> MaxAllocSize"
    using assms(2) by (simp add: size_mult_def size_of_int_nonneg size_defs)
  then have "takes s (plc_alloc_array n) [] ()"
    unfolding plc_alloc_array_def assms(1)
    by (auto intro!: takes_alloc takes_return simp: size_defs)
  then show ?thesis by (rule takes_bind_nil) (rule assms(3))
qed

lemma takes_alloc_udt:
  assumes "0 \<le> sint (nSubTypes t)" and "takes s (f ()) bs y"
  shows "takes s (bindM (plc_alloc_udt (sint (nSubTypes t))) f) bs y"
proof -
  have "takes s (plc_alloc_udt (sint (nSubTypes t))) [] ()"
    using sub_alloc [OF assms(1), of 16] unfolding plc_alloc_udt_def
    by (auto intro!: takes_alloc takes_return simp: size_defs)
  then show ?thesis by (rule takes_bind_nil) (rule assms(2))
qed

lemma takes_fill_array:
  assumes meta: "ok_meta dt m (length ds)"
    and cells: "\<And>d e. d \<in> set ds \<Longrightarrow> elem_width dt = Some e \<Longrightarrow>
      takes s (cell e) (enc_object t d) (0, Some (deliver d))"
  shows "takes s (fill_array cell 0 m (int (length ds))) (concat (map (enc_object t) ds))
    (0, Some (Rawdata False (Some (VArray m (map deliver ds)))))"
proof (cases "ds = []")
  case True
  then show ?thesis by (simp add: fill_array_def takes_return_eq)
next
  case False
  let ?n = "length ds"
  obtain e where e: "elem_width dt = Some e" "int ?n * e \<le> MaxAllocSize"
    using meta False by (auto simp: ok_meta_def split: option.splits)
  have pos: "1 \<le> e" using elem_width_pos [OF e(1)] by simp
  then have "int ?n * 1 \<le> int ?n * e" by (intro mult_left_mono) auto
  then have n: "int ?n \<le> MaxAllocSize" using e(2) by simp
  have "0 \<le> int ?n * e" using pos by simp
  then have fits: "in_int (int ?n * e)" "int (nat (int ?n * e)) \<le> MaxAllocSize"
    using e(2) unfolding size_defs by linarith+
  have dt: "atype m = dt" using meta by (simp add: ok_meta_def)
  have g: "takes s (gather0 0 (\<lambda>_. cell e) ?n (replicate ?n ()))
    (concat (map (enc_object t) ds)) (0, map deliver ds)"
    using cells [OF _ e(1)] by (intro takes_gather0) auto
  from False n fits show ?thesis
    unfolding fill_array_def dt plc_get_type_length_width [OF e(1)]
    by (auto intro!: takes_alloc takes_bind2_last [OF g] takes_return_eq)
qed

lemma takes_array:
  assumes meta: "ok_meta (ty t) m (length ds)"
    and cells: "\<And>d e. d \<in> set ds \<Longrightarrow> elem_width (ty t) = Some e \<Longrightarrow>
      takes s (receive_cell e t) (enc_object t d) (0, Some (deliver d))"
  shows "takes s (receive_array t)
    (le_bytes 4 (ndims m) @ concat (map (le_bytes 4) (dims m)) @ concat (map (enc_object t) ds))
    (0, Some (Rawdata False (Some (VArray m (map deliver ds)))))"
proof -
  let ?n = "int (length ds)"
  have m: "sint (ndims m) = int (length (dims m))" "4 * int (length (dims m)) \<le> MaxAllocSize"
    "dims_size (if 0 < sint (ndims m) then 1 else 0) (dims m) = Some ?n" "sint (asize m) = ?n"
    "atype m = ty t"
    using meta by (auto simp: ok_meta_def)
  have m_eq: "\<lparr>atype = ty t, ndims = ndims m, dims = dims m, asize = word_of_int ?n\<rparr> = m"
    using m(5) by (simp flip: m(4))
  have nd: "nat (sint (ndims m)) = length (dims m)" using m(1) by simp
  note fill = takes_fill_array [OF meta cells]
  have "takes s (bindM (receive_dims (length (dims m)) 0 (if 0 < sint (ndims m) then 1 else 0))
      (\<lambda>(res, ds, prd). fill_array (\<lambda>e. receive_cell e t) res
         \<lparr>atype = ty t, ndims = ndims m, dims = ds, asize = word_of_int prd\<rparr> prd))
    (concat (map (le_bytes 4) (dims m)) @ concat (map (enc_object t) ds))
    (0, Some (Rawdata False (Some (VArray m (map deliver ds)))))"
    by (rule takes_bind [OF takes_dims [OF m(3)]])
      (simp only: prod.case m_eq takes_fill_array [OF meta cells])
  note dims = this
  show ?thesis
    unfolding receive_array.simps
  proof (rule takes_bind2 [OF w_int32.get_deep], simp, simp, unfold id_apply bindM_needM)
  qed (rule takes_alloc_array [OF m(1,2)], unfold nd, rule dims)
qed

lemma takes_udt:
  assumes n: "sint (nSubTypes t) = int (length ds)" "length (subTypes t) = length ds"
    and sub: "\<And>s' d. (s', d) \<in> set (zip (subTypes t) ds) \<Longrightarrow>
      takes s (receive_raw_object s') (enc_object s' d) (0, Some (deliver d))"
  shows "takes s (receive_udt t) (concat (map (\<lambda>(s', d). enc_object s' d) (zip (subTypes t) ds)))
    (0, Some (Rawdata False (Some (VUdt (map deliver ds)))))"
proof -
  have nn: "0 \<le> sint (nSubTypes t)" and nat: "nat (sint (nSubTypes t)) = length ds"
    using n(1) by simp_all
  have g: "takes s (gather0 0 (\<lambda>t. receive_raw_object t) (length ds) (subTypes t))
    (concat (map (\<lambda>(s', d). enc_object s' d) (zip (subTypes t) ds))) (0, map deliver ds)"
    using n(2) sub by (intro takes_gather0) (auto simp: set_zip)
  show ?thesis
    unfolding receive_udt.simps nat
    by (rule takes_alloc_udt [OF nn], rule takes_bind2_last [OF g]) (simp add: takes_return_eq)
qed

text \<open>A value and, where it can be an array element, the same value in a cell.\<close>

definition takes_value :: "nat \<Rightarrow> plcType \<Rightarrow> rawdata \<Rightarrow> bool" where
  "takes_value s t d \<longleftrightarrow>
     takes s (receive_raw_object t) (enc_object t d) (0, Some (deliver d))
     \<and> (\<forall>e. elem_width (ty t) = Some e \<longrightarrow>
           takes s (receive_cell e t) (enc_object t d) (0, Some (deliver d)))"

lemma takes_raw: "n = length bs \<Longrightarrow> n \<le> 8 \<Longrightarrow> takes s (receive_raw n) bs (0, Some bs)"
  unfolding receive_raw_def by (rule takes_read) (simp_all add: MAX_CHUNK_def)

lemma takes_cell_value:
  "n = length bs \<Longrightarrow> n \<le> 8 \<Longrightarrow> v = cell_value dt bs \<Longrightarrow>
   takes s (store (cell_value dt) (receive_raw n)) bs (0, Some (Rawdata False v))"
  by (simp add: takes_store takes_raw)

lemma takes_null: "takes_value s t (Rawdata True None)"
  unfolding takes_value_def receive_raw_object.simps receive_cell.simps enc_object.simps if_True
    deliver.simps
  by (auto intro!: takes_flag takes_return_eq)

lemma takes_store_eq:
  "takes s m bs (0, Some x) \<Longrightarrow> z = Rawdata False (f x) \<Longrightarrow> takes s (store f m) bs (0, Some z)"
  by (simp add: takes_store)

lemma takes_alloc_few: "n \<le> 8 \<Longrightarrow> (\<And>blk. takes d (f blk) bs y) \<Longrightarrow> takes d (bindM (plc_alloc n) f) bs y"
  by (rule takes_alloc) (simp_all add: MaxAllocSize_def)

lemmas takes_prims = takes_char w_int16.get_deep [unfolded id_apply] w_int32.get_deep [unfolded id_apply]
  w_int64.get_deep [unfolded id_apply] w_float4.get_deep [unfolded id_apply]
  w_float8.get_deep [unfolded id_apply] takes_cstring takes_bytea

lemma takes_text:
  "ok_cstring s \<Longrightarrow> takes d (store (map_option VText) receive_cstring) (enc_cstring s)
     (0, Some (Rawdata False (map_option VText s)))"
  by (rule takes_store) (rule takes_cstring)

lemmas takes_null_text = takes_text [where s = None, simplified ok_cstring_def, simplified]
lemmas takes_some_text = takes_text [where s = "Some _", simplified option.map]

lemma takes_blob:
  "ok_bytea s \<Longrightarrow> takes d (store (Some \<circ> VBytea) receive_bytea) (enc_bytea s)
     (0, Some (Rawdata False (Some (VBytea s))))"
  using takes_store [OF takes_bytea, where f = "Some \<circ> VBytea"] by simp

lemma takes_fixed_value:
  assumes "ok_object t (Rawdata False (Some x))"
    and "\<nexists>m ds. x = VIter m ds" and "\<nexists>ds. x = VUdt ds"
  shows "takes_value s t (Rawdata False (Some x))"
proof -
  have "takes s (receive_raw_object t) (enc_object t (Rawdata False (Some x))) (0, Some (Rawdata False (Some x)))"
    unfolding receive_raw_object.simps enc_object.simps if_False
    by (rule takes_flag, cases x)
      (use assms in \<open>auto intro!: takes_alloc_few takes_store_eq takes_prims\<close>)
  moreover have "takes s (receive_cell e t) (enc_object t (Rawdata False (Some x))) (0, Some (Rawdata False (Some x)))"
    if "elem_width (ty t) = Some e" for e
    unfolding receive_cell.simps enc_object.simps if_False
    by (rule takes_flag, cases x)
      (use assms that in \<open>auto intro!: takes_cell_value takes_some_text takes_blob\<close>)
  moreover have "deliver (Rawdata False (Some x)) = Rawdata False (Some x)"
    using assms by (cases x) auto
  ultimately show ?thesis by (simp add: takes_value_def)
qed

lemma takes_object: "ok_object t d \<Longrightarrow> takes_value s t d"
proof (induction t d rule: enc_object.induct)
  case (1 t isn v)
  show ?case
  proof (cases isn)
    case True
    with "1.prems" show ?thesis by (simp add: takes_null)
  next
    case False
    note ok = "1.prems" [unfolded ok_object.simps if_not_P [OF False]]
    show ?thesis
    proof (cases v)
      case None
      with ok have "ty t = PLC_DATA_TEXT" by simp
      with None False show ?thesis
        unfolding takes_value_def receive_raw_object.simps receive_cell.simps
        by (auto intro!: takes_flag takes_null_text)
    next
      case (Some x)
      show ?thesis
      proof (cases x)
        case (VIter m ds)
        with ok Some obtain sub subs where t: "ty t = PLC_DATA_ARRAY" "subTypes t = sub # subs"
          "ok_meta (ty sub) m (length ds)" "\<forall>d \<in> set ds. ok_object sub d"
          by (cases "subTypes t") auto
        with "1.IH"(1) [OF False Some VIter] have "\<forall>d \<in> set ds. takes_value s sub d" by auto
        then have "takes s (receive_array sub)
          (le_bytes 4 (ndims m) @ concat (map (le_bytes 4) (dims m)) @ concat (map (enc_object sub) ds))
          (0, Some (Rawdata False (Some (VArray m (map deliver ds)))))"
          by (intro takes_array t(3)) (auto simp: takes_value_def)
        with Some VIter t(1,2) False show ?thesis
          unfolding takes_value_def receive_raw_object.simps receive_cell.simps
          by (auto intro!: takes_flag)
      next
        case (VUdt ds)
        with ok Some have t: "ty t = PLC_DATA_UDT" "sint (nSubTypes t) = int (length ds)"
          "length (subTypes t) = length ds" by auto
        have "takes_value s s' d" if "(s', d) \<in> set (zip (subTypes t) ds)" for s' d
          using "1.IH"(2) [OF False Some VUdt that refl] ok Some VUdt that by auto
        then have "takes s (receive_udt t) (concat (map (\<lambda>(s', d). enc_object s' d) (zip (subTypes t) ds)))
          (0, Some (Rawdata False (Some (VUdt (map deliver ds)))))"
          by (intro takes_udt t(2,3)) (auto simp: takes_value_def)
        with Some VUdt t(1) False show ?thesis
          unfolding takes_value_def receive_raw_object.simps receive_cell.simps
          by (auto intro!: takes_flag)
      qed (use takes_fixed_value [of t x s] "1.prems" Some False in auto)
    qed
  qed
qed

interpretation w_object: wire_item "send_raw_object t" "receive_raw_object t" "enc_object t" deliver
  "ok_object t" "\<lambda>_. 0" for t
  by unfold_locales (use takes_object in \<open>auto simp: takes_value_def intro: puts_object\<close>)

end
