(* ===== verification/Wire_Messages.thy ===== *)
theory Wire_Messages
  imports Wire_Values
begin

text \<open>
  The wire format of the messages, and that \<open>pljvm_channel_receive\<close> reads back what
  \<open>pljvm_channel_send\<close> wrote, for every message the protocol can carry.
\<close>

section \<open>The format\<close>

definition enc_argument :: "plcArgument \<Rightarrow> byte list" where
  "enc_argument a = enc_cstring (argName a) @ enc_type (argType a) @ enc_object (argType a) (argData a)"

definition enc_error :: "plcMsgError \<Rightarrow> byte list" where
  "enc_error e = MT_EXCEPTION # enc_cstring (emessage e) @ enc_cstring (stacktrace e)"

definition enc_column :: "plcType \<times> cstr \<Rightarrow> byte list" where
  "enc_column c = enc_type (fst c) @ enc_cstring (snd c)"

definition enc_row :: "plcType list \<Rightarrow> rawdata list \<Rightarrow> byte list" where
  "enc_row ts ds = concat (map (\<lambda>(t, d). enc_object t d) (zip ts ds))"

definition sent_exception :: "plcMsgResult \<Rightarrow> plcMsgError option" where
  "sent_exception r = (case exception_callback r of None \<Rightarrow> None | Some cb \<Rightarrow> cb ())"

fun enc_message :: "plcMessage \<Rightarrow> byte list" where
  "enc_message MsgPing = MT_PING # enc_cstring (Some ping)"
| "enc_message (MsgCallreq c) =
     MT_CALLREQ # enc_cstring (procName c) @ enc_cstring (procSrc c) @ le_bytes 4 (objectid c)
     @ le_bytes 4 (hasChanged c) @ enc_type (retType c) @ le_bytes 4 (retset c)
     @ le_bytes 4 (nargs c) @ concat (map enc_argument (args c))"
| "enc_message (MsgResult r) =
     MT_RESULT # le_bytes 4 (rows r) @ le_bytes 4 (cols r)
     @ concat (map enc_column (zip (types r) (names r)))
     @ concat (map (enc_row (types r)) (rdata r))
     @ (case sent_exception r of None \<Rightarrow> [78] | Some e \<Rightarrow> enc_error e)"
| "enc_message (MsgError e) = enc_error e"
| "enc_message (MsgLog l) = MT_LOG # le_bytes 4 (level l) @ enc_cstring (lmessage l)"
| "enc_message (MsgSQL q) = MT_SQL # le_bytes 4 (sqltype q) @ enc_cstring (statement q)"
| "enc_message (MsgUnknown t) = []"

text \<open>
  The messages the protocol can carry: counts that agree with the lists and fit \<open>palloc\<close>; a result that is to be replaced by its
  exception must be one the receiver can release.
\<close>

definition counts :: "i32 \<Rightarrow> nat \<Rightarrow> nat \<Rightarrow> bool" where
  "counts n k c \<longleftrightarrow> sint n = int k \<and> int (k * c) \<le> MaxAllocSize"

definition ok_argument :: "plcArgument \<Rightarrow> bool" where
  "ok_argument a \<longleftrightarrow> ok_cstring (argName a) \<and> ok_type (argType a) \<and> ok_object (argType a) (argData a)"

definition ok_error :: "plcMsgError \<Rightarrow> bool" where
  "ok_error e \<longleftrightarrow> ok_cstring (emessage e) \<and> ok_cstring (stacktrace e)"

definition ok_column :: "plcType \<times> cstr \<Rightarrow> bool" where
  "ok_column c \<longleftrightarrow> ok_type (fst c) \<and> ok_cstring (snd c)"

definition ok_row :: "plcType list \<Rightarrow> rawdata list \<Rightarrow> bool" where
  "ok_row ts ds \<longleftrightarrow> length ds = length ts \<and> (\<forall>(t, d) \<in> set (zip ts ds). ok_object t d)"

fun ok_message :: "plcMessage \<Rightarrow> bool" where
  "ok_message MsgPing \<longleftrightarrow> True"
| "ok_message (MsgCallreq c) \<longleftrightarrow> ok_cstring (procName c) \<and> ok_cstring (procSrc c)
     \<and> ok_type (retType c) \<and> counts (nargs c) (length (args c)) 48
     \<and> (\<forall>a \<in> set (args c). ok_argument a)"
| "ok_message (MsgResult r) \<longleftrightarrow> counts (rows r) (length (rdata r)) 8
     \<and> counts (cols r) (length (types r)) 24 \<and> length (names r) = length (types r)
     \<and> (\<forall>c \<in> set (zip (types r) (names r)). ok_column c)
     \<and> (\<forall>row \<in> set (rdata r). ok_row (types r) row)
     \<and> (case sent_exception r of
          None \<Rightarrow> True
        | Some e \<Rightarrow> ok_error e \<and> (\<forall>row \<in> set (rdata r). \<forall>d \<in> set row. rvalue d = None \<or> marked d))"
| "ok_message (MsgError e) \<longleftrightarrow> ok_error e"
| "ok_message (MsgLog l) \<longleftrightarrow> ok_cstring (lmessage l)"
| "ok_message (MsgSQL q) \<longleftrightarrow> sqltype q = SQL_TYPE_STATEMENT \<and> ok_cstring (statement q)"
| "ok_message (MsgUnknown t) \<longleftrightarrow> False"

text \<open>What the receiver gets, and the stack it needs.\<close>

definition deliver_argument :: "plcArgument \<Rightarrow> plcArgument" where
  "deliver_argument a = a\<lparr>argData := deliver (argData a)\<rparr>"

fun deliver_message :: "plcMessage \<Rightarrow> plcMessage" where
  "deliver_message (MsgCallreq c) = MsgCallreq (c\<lparr>args := map deliver_argument (args c)\<rparr>)"
| "deliver_message (MsgResult r) =
     (case sent_exception r of
        None \<Rightarrow> MsgResult (r\<lparr>rdata := map (map deliver) (rdata r), exception_callback := None\<rparr>)
      | Some e \<Rightarrow> MsgError e)"
| "deliver_message m = m"

definition depth_all :: "plcType list \<Rightarrow> nat" where
  "depth_all ts = foldr max (map type_depth ts) 0"

fun message_depth :: "plcMessage \<Rightarrow> nat" where
  "message_depth (MsgCallreq c) = depth_all (retType c # map argType (args c))"
| "message_depth (MsgResult r) = depth_all (types r)"
| "message_depth m = 0"

lemma depth_all_le: "t \<in> set ts \<Longrightarrow> type_depth t \<le> depth_all ts"
  unfolding depth_all_def by (rule foldr_max_le) simp

lemma counts_alloc:
  assumes "counts n k c"
  shows "int (size_mult (size_of_int (sint n)) c) \<le> MaxAllocSize"
    and "int (size_mult c (size_of_int (sint n))) \<le> MaxAllocSize"
proof -
  from assms have n: "sint n = int k" "int (k * c) \<le> MaxAllocSize" by (simp_all add: counts_def)
  moreover have "k \<le> 2147483647" using sint_lt [of n] n(1) by simp
  then have "size_of_int (sint n) = k" using n(1) by (simp add: size_of_int_nat)
  moreover have "size_mult k c \<le> k * c" "size_mult c k \<le> k * c"
    by (simp_all add: size_mult_def mult.commute)
  ultimately have "int (size_mult (size_of_int (sint n)) c) \<le> MaxAllocSize
    \<and> int (size_mult c (size_of_int (sint n))) \<le> MaxAllocSize"
    by (metis of_nat_mono order_trans)
  then show "int (size_mult (size_of_int (sint n)) c) \<le> MaxAllocSize"
    and "int (size_mult c (size_of_int (sint n))) \<le> MaxAllocSize" by simp_all
qed

lemma counts_less: "counts n k c \<Longrightarrow> c' \<le> c \<Longrightarrow> counts n k c'"
  unfolding counts_def using mult_le_mono2 [of c' c k] by linarith

lemma counts_nat: "counts n k c \<Longrightarrow> nat (sint n) = k"
  by (simp add: counts_def)

section \<open>Sending\<close>

lemmas puts_step = puts_bind [OF w_cstring.put_ok] puts_bind [OF w_type.put_ok]
  puts_bind [OF puts_message_start]

lemmas emits_step = emits_bind [OF emits_orM [OF w_cstring.put_ok]]
  emits_bind [OF emits_orM [OF w_type.put_ok]] emits_bind [OF emits_orM [OF w_int32.put_ok [OF TrueI]]]
  emits_bind [OF emits_orM [OF w_uint32.put_ok [OF TrueI]]]

lemma emits_end: "emits True (\<lambda>res. orM res message_end) []"
  by (rule emits_orM [OF puts_message_end])

lemma puts_argument: "ok_argument a \<Longrightarrow> puts False (send_argument a) (enc_argument a)"
  unfolding send_argument_def enc_argument_def orM_0
  by (intro puts_step emits_step emits_orM w_object.put_ok) (simp_all add: ok_argument_def)

lemma puts_error: "ok_error e \<Longrightarrow> puts True (send_exception e) (enc_error e)"
  unfolding send_exception_def enc_error_def orM_0
  using puts_step(3) [OF emits_step(1) [OF _ emits_step(1) [OF _ emits_end]],
      of "emessage e" "stacktrace e" MT_EXCEPTION]
  by (simp add: ok_error_def)

lemma puts_column: "ok_column c \<Longrightarrow> puts False (send_column c) (enc_column c)"
  unfolding send_column_def enc_column_def orM_0
  by (intro puts_step emits_orM w_cstring.put_ok) (simp_all add: ok_column_def)

lemma emits_row:
  assumes "ok_row (types r) ds" and "sint (cols r) = int (length (types r))"
  shows "puts False (send_row r ds) (enc_row (types r) ds)"
proof -
  have "emits False (\<lambda>res. each res (\<lambda>(t, d). send_raw_object t d) (length (types r)) (zip (types r) ds))
      (enc_row (types r) ds)"
    unfolding enc_row_def using assms
    by (intro emits_each) (auto simp: ok_row_def intro!: w_object.put_ok dest: bspec [OF _ nth_in_zip])
  from emits_puts [OF this] assms(2) show ?thesis by (simp add: send_row_def)
qed

text \<open>Every well-formed message is sent as \<open>enc_message\<close> says and pushed to the socket.\<close>

lemma puts_call:
  assumes "ok_message (MsgCallreq c)"
  shows "puts True (send_call c) (enc_message (MsgCallreq c))"
proof -
  have n: "nat (sint (nargs c)) = length (args c)"
    using assms by (auto simp: counts_def)
  have "emits False (\<lambda>res. each res send_argument (length (args c)) (args c)) (concat (map enc_argument (args c)))"
    using assms by (intro emits_each) (auto intro!: puts_argument)
  from emits_bind [OF this emits_end]
  have args: "emits True (\<lambda>res. bindM (each res send_argument (length (args c)) (args c))
      (\<lambda>res. orM res message_end)) (concat (map enc_argument (args c)))" by simp
  have "puts True (send_call c) ([MT_CALLREQ] @ enc_cstring (procName c) @ enc_cstring (procSrc c)
     @ le_bytes 4 (objectid c) @ le_bytes 4 (hasChanged c) @ enc_type (retType c)
     @ le_bytes 4 (retset c) @ le_bytes 4 (nargs c) @ concat (map enc_argument (args c)))"
    unfolding send_call_def orM_0 n
    by (intro puts_step emits_step args) (use assms in simp_all)
  then show ?thesis by simp
qed

lemma puts_result:
  assumes "ok_message (MsgResult r)"
  shows "puts True (send_result r) (enc_message (MsgResult r))"
proof -
  have n: "nat (sint (cols r)) = length (types r)" "nat (sint (rows r)) = length (rdata r)"
    "sint (cols r) = int (length (types r))"
    using assms by (auto simp: counts_def)
  have columns: "emits False (\<lambda>res. each res send_column (length (types r)) (zip (types r) (names r)))
      (concat (map enc_column (zip (types r) (names r))))"
    using assms by (intro emits_each) (auto intro!: puts_column dest: bspec [OF _ nth_in_zip])
  have rws: "emits False (\<lambda>res. each res (send_row r) (length (rdata r)) (rdata r))
      (concat (map (enc_row (types r)) (rdata r)))"
    using assms by (intro emits_each) (auto intro!: emits_row simp: n)
  define exc where "exc = (case sent_exception r of None \<Rightarrow> [78] | Some e \<Rightarrow> enc_error e)"
  have exc: "emits (sent_exception r \<noteq> None) (\<lambda>res. case sent_exception r of
      None \<Rightarrow> orM res (send_char 78) | Some msg \<Rightarrow> orM res (send_exception msg)) exc"
    using assms by (cases "sent_exception r")
      (auto simp: exc_def intro!: emits_orM puts_error w_char.put_ok)
  from emits_bind [OF exc emits_end]
  have tail: "emits True (\<lambda>res. bindM (case sent_exception r of
      None \<Rightarrow> orM res (send_char 78) | Some msg \<Rightarrow> orM res (send_exception msg))
      (\<lambda>res. orM res message_end)) exc" by simp
  have "puts True (send_result r) ([MT_RESULT] @ le_bytes 4 (rows r) @ le_bytes 4 (cols r)
     @ concat (map enc_column (zip (types r) (names r)))
     @ concat (map (enc_row (types r)) (rdata r)) @ exc)"
    unfolding send_result_def orM_0 n(1,2) sent_exception_def [symmetric]
    by (intro puts_step emits_step emits_bind [OF columns] emits_bind [OF rws] tail)
  then show ?thesis by (simp add: exc_def)
qed

lemma puts_message: "ok_message m \<Longrightarrow> puts True (pljvm_channel_send m) (enc_message m)"
proof (induction m rule: ok_message.induct)
  case 1
  have "puts True send_ping ([MT_PING] @ enc_cstring (Some ping) @ [])"
    unfolding send_ping_def orM_0
    by (intro puts_step emits_step emits_end) (simp_all add: ok_cstring_def ping_def MAX_CHUNK_def)
  then show ?case by simp
next
  case (5 l)
  have "puts True (send_log l) ([MT_LOG] @ le_bytes 4 (level l) @ enc_cstring (lmessage l) @ [])"
    unfolding send_log_def orM_0 by (intro puts_step emits_step emits_end) (use 5 in simp_all)
  then show ?case by simp
next
  case (6 q)
  have "puts True (send_sql q) ([MT_SQL] @ le_bytes 4 (sqltype q) @ enc_cstring (statement q) @ [])"
    using 6 unfolding send_sql_def orM_0
    by (simp only: ok_message.simps simp_thms if_True)
      (intro puts_step emits_step emits_end, simp_all)
  then show ?case by simp
qed (use puts_call puts_result puts_error in auto)

section \<open>Receiving\<close>

lemma takes_or:
  "takes s m bs (0, Some x) \<Longrightarrow> takes s (f 0 (Some x)) bs' y \<Longrightarrow>
   takes s (bindM (or_res 0 m) (\<lambda>(r, x). f r x)) (bs @ bs') y"
  unfolding or_res_0 by (rule takes_bind2)

lemma takes_or_last:
  "takes s m bs (0, Some x) \<Longrightarrow> takes s (f 0 (Some x)) [] y \<Longrightarrow>
   takes s (bindM (or_res 0 m) (\<lambda>(r, x). f r x)) bs y"
  unfolding or_res_0 by (rule takes_bind2_last)

lemma takes_type: "ok_type t \<Longrightarrow> type_depth t \<le> s \<Longrightarrow> takes s receive_type (enc_type t) (0, Some t)"
  using w_type.get_deep by simp

lemma takes_object_at: "ok_object t d \<Longrightarrow> takes s (receive_raw_object t) (enc_object t d) (0, Some (deliver d))"
  using takes_object by (simp add: takes_value_def)

lemmas takes_words = w_int32.get_deep [unfolded id_apply, simplified] w_uint32.get_deep [unfolded id_apply, simplified]

lemma takes_argument:
  assumes "ok_argument a" and "type_depth (argType a) \<le> s"
  shows "takes s receive_argument (enc_argument a) (0, Some (deliver_argument a))"
proof -
  have ok: "ok_cstring (argName a)" "ok_type (argType a)" "ok_object (argType a) (argData a)"
    using assms(1) by (simp_all add: ok_argument_def)
  show ?thesis
    unfolding receive_argument_def enc_argument_def
    by (rule takes_bind2 [OF takes_cstring [OF ok(1)]],
        rule takes_or [OF takes_type [OF ok(2) assms(2)]], unfold bindM_needM,
        rule takes_or_last [OF takes_object_at [OF ok(3)]])
      (simp add: takes_return_eq deliver_argument_def)
qed

lemma takes_error:
  assumes "ok_error e"
  shows "takes s receive_exception (enc_cstring (emessage e) @ enc_cstring (stacktrace e)) (0, Some (MsgError e))"
proof -
  have ok: "ok_cstring (emessage e)" "ok_cstring (stacktrace e)"
    using assms by (simp_all add: ok_error_def)
  show ?thesis
    unfolding receive_exception_def
    by (rule takes_alloc, simp add: MaxAllocSize_def, rule takes_bind2 [OF takes_cstring [OF ok(1)]],
        rule takes_or_last [OF takes_cstring [OF ok(2)]]) (simp add: takes_return_eq)
qed

lemma takes_column:
  assumes "ok_column c" and "type_depth (fst c) \<le> s"
  shows "takes s receive_column (enc_column c) (0, Some c)"
proof -
  have ok: "ok_type (fst c)" "ok_cstring (snd c)"
    using assms(1) by (simp_all add: ok_column_def)
  show ?thesis
    unfolding receive_column_def enc_column_def
    by (rule takes_bind2 [OF takes_type [OF ok(1) assms(2)]],
        rule takes_or_last [OF takes_cstring [OF ok(2)]]) (simp add: takes_return_eq)
qed

lemma takes_row:
  assumes row: "ok_row ts ds" and n: "counts n (length ts) 16"
  shows "takes s (receive_row n ts) (enc_row ts ds) (0, Some (map deliver ds))"
proof -
  have nat: "nat (sint n) = length ts" and sn: "sint n = int (length ts)"
    using n by (simp_all add: counts_def)
  have g: "takes s (gather 0 receive_raw_object (length ts) ts) (enc_row ts ds) (0, map deliver ds)"
    unfolding enc_row_def using row
    by (intro takes_gather) (auto simp: ok_row_def intro!: takes_object_at dest: bspec [OF _ nth_in_zip])
  show ?thesis
  proof (cases "ts = []")
    case True
    with row sn show ?thesis
      by (auto simp: receive_row_def ok_row_def enc_row_def intro!: takes_return_eq)
  next
    case False
    with sn have "0 < sint n" by simp
    then show ?thesis
      unfolding receive_row_def nat
      by (simp only: if_True) (rule takes_alloc [OF counts_alloc(1) [OF n]], rule takes_bind2_last [OF g],
        simp add: takes_return_eq)
  qed
qed

lemma takes_ping: "takes s receive_ping (enc_cstring (Some ping)) (0, Some MsgPing)"
proof -
  have "ok_cstring (Some ping)" by (simp add: ok_cstring_def ping_def MAX_CHUNK_def)
  moreover have "strncmp_eq ping ping 4"
    by (simp add: ping_def numeral_eq_Suc)
  ultimately show ?thesis
    unfolding receive_ping_def
    by (intro takes_alloc takes_bind2_last [OF takes_cstring]) (simp_all add: MaxAllocSize_def takes_return_eq)
qed

lemma takes_log:
  assumes "ok_cstring (lmessage l)"
  shows "takes s receive_log (le_bytes 4 (level l) @ enc_cstring (lmessage l)) (0, Some (MsgLog l))"
  unfolding receive_log_def
  by (rule takes_alloc, simp add: MaxAllocSize_def, rule takes_bind2 [OF takes_words(1)],
      rule takes_or_last [OF takes_cstring [OF assms]]) (simp add: takes_return_eq)

lemma takes_sql:
  assumes "ok_cstring (statement q)" and "sqltype q = SQL_TYPE_STATEMENT"
  shows "takes s receive_sql (le_bytes 4 (sqltype q) @ enc_cstring (statement q)) (0, Some (MsgSQL q))"
proof -
  have "takes s receive_sql_statement (enc_cstring (statement q)) (0, Some (MsgSQL q))"
    unfolding receive_sql_statement_def
    by (rule takes_alloc, simp add: MaxAllocSize_def, rule takes_bind2_last [OF takes_cstring [OF assms(1)]])
      (use assms(2) in \<open>simp add: takes_return_eq\<close>)
  with assms(2) show ?thesis
    unfolding receive_sql_def by (intro takes_bind2 [OF takes_words(1)]) simp
qed

lemma takes_call:
  assumes ok: "ok_message (MsgCallreq c)" and d: "message_depth (MsgCallreq c) \<le> s"
  shows "takes s receive_call (tl (enc_message (MsgCallreq c))) (0, Some (deliver_message (MsgCallreq c)))"
proof -
  have ok': "ok_cstring (procName c)" "ok_cstring (procSrc c)" "ok_type (retType c)"
    and n: "counts (nargs c) (length (args c)) 48" and as: "\<forall>a \<in> set (args c). ok_argument a"
    using ok by simp_all
  have dep: "type_depth t \<le> s" if "t = retType c \<or> t \<in> argType ` set (args c)" for t
    using depth_all_le [of t "retType c # map argType (args c)"] that d by auto
  have g: "takes s (gather0 0 (\<lambda>_. receive_argument) (length (args c)) (replicate (length (args c)) ()))
      (concat (map enc_argument (args c))) (0, map deliver_argument (args c))"
    using as dep by (intro takes_gather0) (auto intro!: takes_argument)
  have args: "takes s (bindM (plc_alloc (size_mult 48 (size_of_int (sint (nargs c))))) (\<lambda>_.
      bindM (gather0 0 (\<lambda>_. receive_argument) (nat (sint (nargs c))) (replicate (nat (sint (nargs c))) ()))
        (\<lambda>(res, as). returnM (res, Some (MsgCallreq \<lparr>objectid = objectid c, hasChanged = hasChanged c,
          procName = procName c, procSrc = procSrc c, retType = retType c, retset = retset c,
          nargs = nargs c, args = as\<rparr>)))))
      (concat (map enc_argument (args c))) (0, Some (deliver_message (MsgCallreq c)))"
    unfolding counts_nat [OF n]
    by (rule takes_alloc [OF counts_alloc(2) [OF n]], rule takes_bind2_last [OF g])
      (simp add: takes_return_eq)
  show ?thesis
    unfolding receive_call_def enc_message.simps list.sel
    by (rule takes_alloc, simp add: MaxAllocSize_def, rule takes_bind2 [OF takes_cstring [OF ok'(1)]],
        rule takes_or [OF takes_cstring [OF ok'(2)]], rule takes_or [OF takes_words(2)],
        rule takes_or [OF takes_words(1)], rule takes_or [OF takes_type [OF ok'(3) dep]], simp,
        rule takes_or [OF takes_words(1)], rule takes_or [OF takes_words(1)])
      (simp only: both.simps option.case prod.case simp_thms if_True args)
qed

lemma release_result_delivered:
  assumes r: "sint (rows r) = int (length rws)" "sint (cols r) = int (length (types r))" "rdata r = map (map deliver) rws"
    and rws: "\<forall>row \<in> set rws. ok_row (types r) row" "\<forall>row \<in> set rws. \<forall>d \<in> set row. rvalue d = None \<or> marked d"
  shows "release_result False r = (returnM () :: ('s, unit) prog)"
proof -
  have cell: "release_data False t (deliver d) = (returnM () :: ('s, unit) prog)"
    if "ok_object t d" "rvalue d = None \<or> marked d" for t d
    using release_delivered [OF that(1)] that(2) deliver_sel(2) [of d] by (auto simp: release_data_def)
  have "traverse (nat (sint (cols r))) (zip (types r) (map deliver row)) (\<lambda>(t, d). release_data False t d)
      = (returnM () :: ('s, unit) prog)" if "row \<in> set rws" for row
  proof (rule traverse_skip)
    show "nat (sint (cols r)) \<le> length (zip (types r) (map deliver row))" using r(2) rws(1) that by (simp add: ok_row_def)
    fix x
    assume "x \<in> set (zip (types r) (map deliver row))"
    then obtain t d where "x = (t, deliver d)" "(t, d) \<in> set (zip (types r) row)" by (auto simp: zip_map2)
    moreover from this have "d \<in> set row" by (auto dest: set_zip_rightD)
    ultimately show "(case x of (t, d) \<Rightarrow> release_data False t d) = (returnM () :: ('s, unit) prog)"
      using rws that by (auto simp: ok_row_def intro!: cell)
  qed
  note each_row = this
  show ?thesis
    unfolding release_result_def r(3) by (rule traverse_skip) (use r(1) each_row in auto)
qed

lemma takes_result:
  assumes ok: "ok_message (MsgResult r)" and d: "message_depth (MsgResult r) \<le> s"
  shows "takes s receive_result (tl (enc_message (MsgResult r))) (0, Some (deliver_message (MsgResult r)))"
proof -
  let ?nr = "length (rdata r)" and ?nc = "length (types r)"
  let ?cs = "zip (types r) (names r)"
  have nr: "counts (rows r) ?nr 8" and nc: "counts (cols r) ?nc 24" and len: "length (names r) = ?nc"
    and cs: "\<forall>c \<in> set ?cs. ok_column c" and rws: "\<forall>row \<in> set (rdata r). ok_row (types r) row"
    using ok by simp_all
  have fst_cs: "map fst ?cs = types r" and snd_cs: "map snd ?cs = names r"
    using len by simp_all
  have "type_depth t \<le> s" if "t \<in> set (types r)" for t
    using depth_all_le [OF that] d by simp
  then have g1: "takes s (gather 0 (\<lambda>_. receive_column) ?nc (replicate ?nc ())) (concat (map enc_column ?cs)) (0, ?cs)"
    using cs len by (intro takes_gather) (auto intro!: takes_column dest: bspec [OF _ nth_in_zip])
  have g2: "takes s (gather0 0 (\<lambda>_. receive_row (cols r) (types r)) ?nr (replicate ?nr ()))
      (concat (map (enc_row (types r)) (rdata r))) (0, map (map deliver) (rdata r))"
    using rws counts_less [OF nc, of 16] by (intro takes_gather0) (auto intro!: takes_row)
  let ?ret = "\<lambda>rws. \<lparr>rows = rows r, cols = cols r, types = types r, names = names r,
    rdata = rws, exception_callback = None\<rparr>"
  have g2': "takes s (bindM (gather0 0 (\<lambda>_. receive_row (cols r) (map fst ?cs)) ?nr (replicate ?nr ()))
      (\<lambda>(res, rws). returnM (res, Some \<lparr>rows = rows r, cols = cols r, types = map fst ?cs,
        names = map snd ?cs, rdata = rws, exception_callback = None\<rparr>)))
      (concat (map (enc_row (types r)) (rdata r))) (0, Some (?ret (map (map deliver) (rdata r))))"
    unfolding fst_cs snd_cs by (rule takes_bind2_last [OF g2]) (simp add: takes_return_eq)
  have data: "takes s
     (bindM (if 0 < sint (rows r)
             then plc_alloc (size_mult (size_of_int (sint (rows r))) 8) else returnM []) (\<lambda>_.
      bindM (plc_alloc (size_mult (size_of_int (sint (cols r))) 24)) (\<lambda>_.
      bindM (plc_alloc (size_mult (size_of_int (sint (cols r))) 8)) (\<lambda>_.
      bindM (gather 0 (\<lambda>_. receive_column) ?nc (replicate ?nc ())) (\<lambda>(res, tns).
      bindM (gather0 res (\<lambda>_. receive_row (cols r) (map fst tns)) ?nr (replicate ?nr ()))
      (\<lambda>(res, rws). returnM (res, Some \<lparr>rows = rows r, cols = cols r, types = map fst tns,
        names = map snd tns, rdata = rws, exception_callback = None\<rparr>)))))))
     (concat (map enc_column ?cs) @ concat (map (enc_row (types r)) (rdata r)))
     (0, Some (?ret (map (map deliver) (rdata r))))"
  proof (cases "0 < sint (rows r)")
    case True
    show ?thesis unfolding if_P [OF True]
      by (rule takes_alloc [OF counts_alloc(1) [OF nr]], rule takes_alloc [OF counts_alloc(1) [OF nc]],
          rule takes_alloc [OF counts_alloc(1) [OF counts_less [OF nc]]], simp,
          rule takes_bind2 [OF g1], rule g2')
  next
    case False
    show ?thesis unfolding if_not_P [OF False] bindM_return
      by (rule takes_alloc [OF counts_alloc(1) [OF nc]],
          rule takes_alloc [OF counts_alloc(1) [OF counts_less [OF nc]]], simp,
          rule takes_bind2 [OF g1], rule g2')
  qed
  have exc: "takes s (bindM (or_res 0 receive_char) (\<lambda>(res, exc).
     bindM (needM Uninit exc) (\<lambda>exc.
     if exc = MT_EXCEPTION then
       bindM (or_res res receive_exception) (\<lambda>(res, err).
       bindM (needM Uninit (Some (?ret (map (map deliver) (rdata r))))) (\<lambda>ret.
       bindM (release_result False ret) (\<lambda>_.
       returnM (res, err))))
     else returnM (res, map_option MsgResult (Some (?ret (map (map deliver) (rdata r))))))))
     (case sent_exception r of None \<Rightarrow> [78] | Some e \<Rightarrow> enc_error e) (0, Some (deliver_message (MsgResult r)))"
  proof (cases "sent_exception r")
    case None
    show ?thesis
      unfolding None option.case
      by (rule takes_or_last [OF takes_char]) (simp add: MT_EXCEPTION_def takes_return_eq None)
  next
    case (Some e)
    with ok have e: "ok_error e" "\<forall>row \<in> set (rdata r). \<forall>d \<in> set row. rvalue d = None \<or> marked d" by simp_all
    have free: "release_result False (?ret (map (map deliver) (rdata r))) = (returnM () :: (world, unit) prog)"
      by (rule release_result_delivered) (use nr nc rws e(2) in \<open>simp_all add: counts_def\<close>)
    have "takes s (bindM (or_res 0 receive_char) (\<lambda>(res, exc).
       bindM (needM Uninit exc) (\<lambda>exc.
       if exc = MT_EXCEPTION then
         bindM (or_res res receive_exception) (\<lambda>(res, err).
         bindM (needM Uninit (Some (?ret (map (map deliver) (rdata r))))) (\<lambda>ret.
         bindM (release_result False ret) (\<lambda>_.
         returnM (res, err))))
       else returnM (res, map_option MsgResult (Some (?ret (map (map deliver) (rdata r))))))))
       ([MT_EXCEPTION] @ enc_cstring (emessage e) @ enc_cstring (stacktrace e)) (0, Some (MsgError e))"
      by (rule takes_or [OF takes_char]) (simp add: free takes_error [OF e(1)] case_prod_beta')
    then show ?thesis
      unfolding Some option.case enc_error_def deliver_message.simps by simp
  qed
  show ?thesis
    unfolding receive_result_def enc_message.simps list.sel
    by (rule takes_alloc, simp add: MaxAllocSize_def, rule takes_bind2 [OF takes_words(1)],
        rule takes_or [OF takes_words(1)], unfold both.simps option.case prod.case counts_nat [OF nr]
          counts_nat [OF nc] append_assoc [symmetric], rule takes_bind2, subst if_P, rule refl)
      (rule data, rule exc)
qed

text \<open>\<open>pljvm_channel_receive\<close> reads back every message the protocol can carry.\<close>

lemma takes_message_type: "takes s receive_message_type [b] (0, b)"
proof (rule takesI)
  fix w rest
  assume w: "conn_inv w" "alloc_all w" "in_stream w = [b] @ rest"
  then have "\<not> Short 1 w w'" and "\<not> No_memory w e w'" for w' e
    by (auto simp: Short_def No_memory_def)
  with receive_spec [OF w(1), of 1] w obtain w1 where w1: "plcBufferReceive 1 w = Ok 0 w1" "Filled 1 w w1"
    by (cases "plcBufferReceive 1 w") (auto simp: MAX_CHUNK_def)
  then have w1': "conn_inv w1" "alloc_all w1" "in_stream w1 = [b] @ rest" "in_kept w w1"
    using w in_kept_facts [of w w1] by (auto simp: Filled_def)
  then obtain w2 where "plcBufferRead 1 w1 = Ok (0, Some [b]) w2" "in_kept w1 w2" "in_stream w2 = rest"
    using takes_run [OF takes_read [of "[b]" 1 0], of w1 rest] by (auto simp: MAX_CHUNK_def)
  with w1 w1' show "\<exists>w'. receive_message_type w = Ok (0, b) w' \<and> in_kept w w' \<and> in_stream w' = rest"
    by (auto simp: receive_message_type_def returnM_def intro: in_kept_trans)
qed

lemmas MT_defs = MT_PING_def MT_CALLREQ_def MT_RESULT_def MT_EXCEPTION_def MT_LOG_def MT_SQL_def

lemma takes_message:
  assumes "ok_message m" and "message_depth m \<le> s"
  shows "takes s pljvm_channel_receive (enc_message m) (0, Some (deliver_message m))"
proof -
  have *: "takes s pljvm_channel_receive (b # bs) y"
    if "takes s (if b = MT_PING then receive_ping
     else if b = MT_CALLREQ then receive_call
     else if b = MT_RESULT then receive_result
     else if b = MT_EXCEPTION then receive_exception
     else if b = MT_LOG then receive_log
     else if b = MT_SQL then receive_sql
     else elogM (E_message_type_unknown b)) bs y" for b bs y
    unfolding pljvm_channel_receive_def
    using takes_bind2 [OF takes_message_type [of s b], of _ bs y] that by simp
  show ?thesis
  proof (cases m)
    case MsgPing
    with takes_ping show ?thesis by (auto intro!: * simp: MT_defs)
  next
    case (MsgCallreq c)
    with takes_call [of c s] assms show ?thesis by (auto intro!: * simp: MT_defs)
  next
    case (MsgResult r)
    with takes_result [of r s] assms show ?thesis by (auto intro!: * simp: MT_defs)
  next
    case (MsgError e)
    with takes_error [of e s] assms show ?thesis by (auto intro!: * simp: MT_defs enc_error_def)
  next
    case (MsgLog l)
    with takes_log [of l s] assms show ?thesis by (auto intro!: * simp: MT_defs)
  next
    case (MsgSQL q)
    with takes_sql [of q s] assms show ?thesis by (auto intro!: * simp: MT_defs)
  qed (use assms in simp)
qed

interpretation w_message: wire_item pljvm_channel_send pljvm_channel_receive enc_message
  deliver_message ok_message message_depth
  by unfold_locales (auto intro: puts_weaken puts_message takes_message)

end
