(* ===== verification/Server_Loop.thy ===== *)
theory Server_Loop
  imports Wire_Messages
begin

text \<open>
  \<open>receive_loop\<close> of \<^verbatim>\<open>src/common/comm_server.c\<close>, the loop the executor side runs on a
  connection: the ping handshake, then one call after the other. \<open>handle_call\<close> is an argument
  of the C function too; \<open>serves\<close> says what a handler that answers every call does.
\<close>

section \<open>The loop\<close>

datatype phase = Serving | Closed

definition handshake :: "(world, unit) prog" where
  "handshake =
     bindM pljvm_channel_receive (\<lambda>(res, msg).
     if res < 0 then elogM (E_receiving res)
     else
       bindM (needM Uninit msg) (\<lambda>msg.
       if msg \<noteq> MsgPing then elogM E_first_message
       else
         bindM (pljvm_channel_send msg) (\<lambda>res.
         if res < 0 then elogM E_send_ping else returnM ())))"

text \<open>
  The body of \<open>while (1)\<close>: \<open>Closed\<close> is its first \<open>break\<close>. The call \<open>free_callreq(msg, false, false)\<close> after the handler is left
  out: in the build of an executor \<open>pfree\<close> is \<open>free\<close>, which takes NULL, a call that was received has the values its
  types say (\<open>Well_Shaped\<close>), and blocks are not part of this state. What it does to blocks is \<open>free_callreq\<close> in \<open>Release\<close>.
\<close>

definition serve_one :: "(plcMsgCallreq \<Rightarrow> (world, unit) prog) \<Rightarrow> (world, phase) prog" where
  "serve_one handle_call =
     bindM pljvm_channel_receive (\<lambda>(res, msg).
     if res = -3 then returnM Closed
     else if res < 0 then elogM (E_receiving res)
     else
       bindM (needM Uninit msg) (\<lambda>msg.
       case msg of
         MsgCallreq call \<Rightarrow> bindM (handle_call call) (\<lambda>_. returnM Serving)
       | _ \<Rightarrow> elogM E_unknown_message))"

text \<open>At most \<open>n\<close> turns of the loop; \<open>Serving\<close> when it would go on.\<close>

primrec serve :: "nat \<Rightarrow> (plcMsgCallreq \<Rightarrow> (world, unit) prog) \<Rightarrow> (world, phase) prog" where
  "serve 0 handle_call = returnM Serving"
| "serve (Suc n) handle_call =
     bindM (serve_one handle_call) (\<lambda>ph.
     if ph = Closed then returnM Closed else serve n handle_call)"

definition receive_loop :: "nat \<Rightarrow> (plcMsgCallreq \<Rightarrow> (world, unit) prog) \<Rightarrow> (world, phase) prog" where
  "receive_loop n handle_call = bindM handshake (\<lambda>_. serve n handle_call)"

section \<open>Sessions\<close>

text \<open>A connection that works: no write errors, memory to be had, and a stack of \<open>d\<close> frames.\<close>

definition healthy :: "nat \<Rightarrow> world \<Rightarrow> bool" where
  "healthy d w \<longleftrightarrow> conn_inv w \<and> sends_good w \<and> alloc_all w \<and> d \<le> stack w"

lemma healthy_world_of [simp]:
  "healthy d (world_of d' rs ss) \<longleftrightarrow> d \<le> d' \<and> (\<forall>e\<in>set ss. \<exists>n. e = SAccept (Suc n))"
  by (auto simp: healthy_def)

definition serves :: "(plcMsgCallreq \<Rightarrow> (world, unit) prog) \<Rightarrow> (plcMsgCallreq \<Rightarrow> plcMessage) \<Rightarrow> bool" where
  "serves h reply \<longleftrightarrow> (\<forall>c w. healthy 0 w \<longrightarrow>
     (\<exists>w'. h c w = Ok () w' \<and> out_kept w w' \<and> out_stream w' = out_stream w @ enc_message (reply c)))"

lemma in_kept_healthy:
  assumes "in_kept w w'" and "healthy d w"
  shows "healthy d w' \<and> out_stream w' = out_stream w"
  using assms in_kept_facts [OF assms(1)]
  by (auto simp: healthy_def in_kept_def in_frame_def out_stream_def sends_good_def)

lemma out_kept_healthy:
  assumes "out_kept w w'" and "healthy d w"
  shows "healthy d w' \<and> in_stream w' = in_stream w"
  using assms out_kept_good [OF assms(1)] out_kept_alloc [OF assms(1)]
  by (auto simp: healthy_def out_kept_def out_frame_def in_stream_def)

lemma channel_receive_ok:
  assumes "ok_message m" and "message_depth m \<le> d" and "healthy d w" and "in_stream w = enc_message m @ rest"
  shows "\<exists>w'. pljvm_channel_receive w = Ok (0, Some (deliver_message m)) w' \<and> healthy d w'
    \<and> in_stream w' = rest \<and> out_stream w' = out_stream w"
  using takes_run [OF takes_message [OF assms(1,2)], of w rest] assms(3,4) in_kept_healthy
  by (fastforce simp: healthy_def)

lemma channel_send_ok:
  assumes "ok_message m" and "healthy d w"
  shows "\<exists>w'. pljvm_channel_send m w = Ok 0 w' \<and> healthy d w' \<and> in_stream w' = in_stream w
    \<and> out_stream w' = out_stream w @ enc_message m \<and> wire w' = out_stream w @ enc_message m"
proof -
  obtain w' where w': "pljvm_channel_send m w = Ok 0 w'" "out_kept w w'"
    "out_stream w' = out_stream w @ enc_message m" "content (buf PLC_OUTPUT_BUFFER w') = []"
    using puts_Ok [OF puts_message [OF assms(1)], of w] assms(2) by (auto simp: healthy_def)
  moreover have "wire w' = out_stream w'" using w'(4) by (simp add: out_stream_def)
  ultimately show ?thesis using out_kept_healthy [OF w'(2) assms(2)] by auto
qed

lemma handshake_ok:
  assumes "healthy d w" and "in_stream w = enc_message MsgPing @ rest"
  shows "\<exists>w'. handshake w = Ok () w' \<and> healthy d w' \<and> in_stream w' = rest
    \<and> out_stream w' = out_stream w @ enc_message MsgPing"
proof -
  obtain w1 where w1: "pljvm_channel_receive w = Ok (0, Some MsgPing) w1" "healthy d w1"
    "in_stream w1 = rest" "out_stream w1 = out_stream w"
    using channel_receive_ok [of MsgPing d w rest] assms by auto
  then show ?thesis
    using channel_send_ok [of MsgPing d w1] by (auto simp: handshake_def returnM_def)
qed

lemma serve_one_ok:
  assumes "serves h reply" and "ok_message (MsgCallreq c)" and "message_depth (MsgCallreq c) \<le> d"
    and "healthy d w" and "in_stream w = enc_message (MsgCallreq c) @ rest"
    and c': "deliver_message (MsgCallreq c) = MsgCallreq c'"
  shows "\<exists>w'. serve_one h w = Ok Serving w' \<and> healthy d w' \<and> in_stream w' = rest
    \<and> out_stream w' = out_stream w @ enc_message (reply c')"
proof -
  obtain w1 where w1: "pljvm_channel_receive w = Ok (0, Some (MsgCallreq c')) w1" "healthy d w1"
    "in_stream w1 = rest" "out_stream w1 = out_stream w"
    using channel_receive_ok [OF assms(2-5)] c' by auto
  moreover from w1(2) have "healthy 0 w1" by (simp add: healthy_def)
  then obtain w2 where "h c' w1 = Ok () w2" "out_kept w1 w2"
    "out_stream w2 = out_stream w1 @ enc_message (reply c')"
    using assms(1) by (auto simp: serves_def)
  ultimately show ?thesis
    using out_kept_healthy [of w1 w2 d] by (auto simp: serve_one_def returnM_def)
qed

text \<open>What the handler sees of a call.\<close>

definition deliver_call :: "plcMsgCallreq \<Rightarrow> plcMsgCallreq" where
  "deliver_call c = c\<lparr>args := map deliver_argument (args c)\<rparr>"

lemma serve_ok:
  assumes "serves h reply"
    and "\<forall>c \<in> set cs. ok_message (MsgCallreq c) \<and> message_depth (MsgCallreq c) \<le> d"
    and "healthy d w" and "in_stream w = concat (map (\<lambda>c. enc_message (MsgCallreq c)) cs) @ rest"
  shows "\<exists>w'. serve (length cs) h w = Ok Serving w' \<and> healthy d w' \<and> in_stream w' = rest
    \<and> out_stream w' = out_stream w @ concat (map (\<lambda>c. enc_message (reply (deliver_call c))) cs)"
  using assms(2-)
proof (induction cs arbitrary: w)
  case Nil
  then show ?case by (simp add: returnM_def)
next
  case (Cons c cs)
  then obtain w1 where w1: "serve_one h w = Ok Serving w1" "healthy d w1"
    "in_stream w1 = concat (map (\<lambda>c. enc_message (MsgCallreq c)) cs) @ rest"
    "out_stream w1 = out_stream w @ enc_message (reply (deliver_call c))"
    using serve_one_ok [OF assms(1), of c d w _ "deliver_call c"]
    by (auto simp: deliver_call_def simp del: enc_message.simps ok_message.simps message_depth.simps)
  with Cons show ?case by (fastforce simp del: enc_message.simps ok_message.simps message_depth.simps)
qed

text \<open>
  When nothing is left of the stream the body does not handle a call: the loop ends, or the
  read was interrupted, or it still waits.
\<close>

lemma channel_receive_gone:
  assumes "healthy d w" and "in_stream w = []"
  shows "ensures (pljvm_channel_receive w) (\<lambda>(res, _) w'. res = -3 \<and> in_kept w w')
    (\<lambda>e w'. e = E_interrupted \<and> in_kept w w') (\<lambda>w'. in_kept w w')"
proof -
  have none: "\<not> Filled 1 w w'" "\<not> No_memory w e w'" for w' e
    using assms by (auto simp: Filled_def in_stream_def No_memory_def healthy_def in_kept_def)
  have short: "Short 1 w w' \<Longrightarrow> in_kept w w'" for w'
    by (simp add: Short_def)
  have "conn_inv w" using assms by (simp add: healthy_def)
  from receive_spec [OF this, of 1] show ?thesis
    by (cases "plcBufferReceive 1 w")
      (auto simp: none pljvm_channel_receive_def receive_message_type_def MAX_CHUNK_def
        plcBufferRead_def prog_simps dest: short)
qed

lemma serve_one_gone:
  assumes "healthy d w" and "in_stream w = []"
  shows "ensures (serve_one h w) (\<lambda>ph w'. ph = Closed \<and> out_stream w' = out_stream w)
    (\<lambda>e w'. e = E_interrupted \<and> out_stream w' = out_stream w) (\<lambda>w'. out_stream w' = out_stream w)"
proof -
  have out: "in_kept w w' \<Longrightarrow> out_stream w' = out_stream w" for w'
    using in_kept_healthy [OF _ assms(1)] by blast
  show ?thesis
    unfolding serve_one_def
    by (rule ensures_bindM, rule ensures_mono [OF channel_receive_gone [OF assms], of "\<lambda>x w'. fst x = -3 \<and> out_stream w' = out_stream w"])
      (auto simp: returnM_def out)
qed

end
