(* ===== verification/Protocol_Props.thy ===== *)
theory Protocol_Props
  imports Server_Loop
begin

text \<open>
  The properties of the protocol: messages, values and types travel unchanged, the format is
  unambiguous, failures are reported, and the server loop answers the calls it is sent.
\<close>

section \<open>Example inputs of the witnesses\<close>

definition ex_log :: plcMessage where
  "ex_log = MsgLog \<lparr>level = 17, lmessage = Some [104, 105]\<rparr>"

definition ex_call :: plcMsgCallreq where
  "ex_call = \<lparr>objectid = 42, hasChanged = 1, procName = Some [102], procSrc = Some [],
     retType = PlcType PLC_DATA_INT4 0 None [], retset = 0, nargs = 1,
     args = [\<lparr>argType = PlcType PLC_DATA_INT4 0 None [], argName = None,
              argData = Rawdata False (Some (VInt4 7))\<rparr>]\<rparr>"

definition ex_array_type :: plcType where
  "ex_array_type = PlcType PLC_DATA_ARRAY 1 None [PlcType PLC_DATA_INT2 0 None []]"

definition ex_array :: rawdata where
  "ex_array = Rawdata False (Some (VIter \<lparr>atype = PLC_DATA_INT2, ndims = 1, dims = [2], asize = 2\<rparr>
     [Rawdata False (Some (VInt2 5)), Rawdata True None]))"

lemma avail_single [simp]: "avail [RData bs] = bs"
  by simp

declare avail.simps(2) [simp del]

lemma ex_log_ok [simp]: "ok_message ex_log" "message_depth ex_log = 0" "deliver_message ex_log = ex_log"
  "ex_log \<noteq> MsgPing"
  by (simp_all add: ex_log_def ok_cstring_def MAX_CHUNK_def)

lemma dt_ok_named [simp]: "dt_ok PLC_DATA_INT4" "dt_ok PLC_DATA_INT2" "dt_ok PLC_DATA_ARRAY"
  by (simp_all add: dt_ok_def dt_of_code_def)

lemma ex_call_ok [simp]: "ok_message (MsgCallreq ex_call)" "message_depth (MsgCallreq ex_call) = 1"
  by (simp_all add: ex_call_def ok_cstring_def MAX_CHUNK_def counts_def MaxAllocSize_def
      ok_argument_def depth_all_def)

lemma ex_array_ok [simp]: "type_depth ex_array_type = 2" "ok_object ex_array_type ex_array" "ok_type ex_array_type"
  by (simp_all add: ex_array_def ex_array_type_def ok_meta_def pointed_def MaxAllocSize_def ok_cstring_def
      in_int_def INT_MAX_def)

section \<open>Messages\<close>

text \<open>
  C1: a well-formed message is sent with result 0, leaves exactly its encoding on the wire
  behind what was buffered before, and \<open>pljvm_channel_receive\<close> at the other end, however the
  socket cuts the stream, returns 0 and the message (an array for each iterator, the
  exception in place of a result that has one) and consumes exactly the encoding.
\<close>

theorem channel_roundtrip:
  assumes "ok_message m" and "healthy 0 ws" and "healthy (message_depth m) wr"
    and "in_stream wr = enc_message m @ rest"
  shows "(\<exists>ws'. pljvm_channel_send m ws = Ok 0 ws' \<and> wire ws' = out_stream ws @ enc_message m
            \<and> in_stream ws' = in_stream ws)
    \<and> (\<exists>wr'. pljvm_channel_receive wr = Ok (0, Some (deliver_message m)) wr'
            \<and> in_stream wr' = rest \<and> out_stream wr' = out_stream wr)"
  using channel_send_ok [OF assms(1,2)] channel_receive_ok [OF assms(1) order_refl assms(3,4)] by blast

lemma channel_roundtrip_witness:
  "\<exists>wr'. pljvm_channel_receive (world_of 0 [RData (enc_message ex_log)] []) = Ok (0, Some ex_log) wr'
     \<and> in_stream wr' = []"
  using channel_roundtrip [of ex_log "world_of 0 [] []" "world_of 0 [RData (enc_message ex_log)] []" "[]"]
  by auto

text \<open>
  C18: a sequence of messages keeps its framing: sent one after the other they are received
  one after the other, and what follows them in the stream is left for later.
\<close>

theorem session_roundtrip:
  assumes "\<forall>m \<in> set ms. ok_message m \<and> message_depth m \<le> d" and "healthy 0 ws" and "healthy d wr"
    and "in_stream wr = concat (map enc_message ms) @ rest"
  shows "(\<exists>ws'. each 0 pljvm_channel_send (length ms) ms ws = Ok 0 ws'
            \<and> out_stream ws' = out_stream ws @ concat (map enc_message ms))
    \<and> (\<exists>wr'. gather 0 (\<lambda>_. pljvm_channel_receive) (length ms) (replicate (length ms) ()) wr
              = Ok (0, map deliver_message ms) wr' \<and> in_stream wr' = rest)"
proof -
  have "emits False (\<lambda>res. each res pljvm_channel_send (length ms) ms) (concat (map enc_message ms))"
    using w_message.put_each [of "length ms" ms] assms(1) by simp
  from puts_Ok [OF emits_puts [OF this], of ws] assms(2)
  have "\<exists>ws'. each 0 pljvm_channel_send (length ms) ms ws = Ok 0 ws'
    \<and> out_stream ws' = out_stream ws @ concat (map enc_message ms)"
    by (auto simp: healthy_def)
  moreover have "takes d (gather 0 (\<lambda>_. pljvm_channel_receive) (length ms) (replicate (length ms) ()))
      (concat (map enc_message ms)) (0, map deliver_message ms)"
    using w_message.get_gather assms(1) by blast
  from takes_run [OF this, of wr rest] assms(3,4)
  have "\<exists>wr'. gather 0 (\<lambda>_. pljvm_channel_receive) (length ms) (replicate (length ms) ()) wr
     = Ok (0, map deliver_message ms) wr' \<and> in_stream wr' = rest"
    by (auto simp: healthy_def)
  ultimately show ?thesis ..
qed

lemma session_roundtrip_witness:
  "\<exists>wr'. gather 0 (\<lambda>_. pljvm_channel_receive) 2 [(), ()]
     (world_of 0 [RData (enc_message ex_log @ enc_message MsgPing)] [])
     = Ok (0, [ex_log, MsgPing]) wr'"
  using session_roundtrip [of "[ex_log, MsgPing]" 0 "world_of 0 [] []"
      "world_of 0 [RData (enc_message ex_log @ enc_message MsgPing)] []" "[]"]
  by (auto simp: numeral_2_eq_2 simp del: each.simps gather.simps enc_message.simps)

text \<open>
  C10: sending a well-formed message on any connection never leaves the defined behaviour of
  C and never waits, the release of each object of an iterator after it was sent included. Result 0 means every byte has gone to the socket and nothing is left
  in the buffer; another result or an error is only seen when the socket failed or
  memory ran out. The receiving side of the connection is untouched.
\<close>

theorem channel_send_outcome:
  assumes "ok_message m" and "conn_inv w"
  shows "ensures (pljvm_channel_send m w)
    (\<lambda>r w'. conn_inv w' \<and> in_stream w' = in_stream w
       \<and> (r = 0 \<longrightarrow> wire w' = out_stream w @ enc_message m \<and> content (buf PLC_OUTPUT_BUFFER w') = [])
       \<and> (r \<noteq> 0 \<longrightarrow> \<not> sends_good w))
    (\<lambda>e w'. conn_inv w' \<and> in_stream w' = in_stream w \<and> \<not> (sends_good w \<and> alloc_all w))
    (\<lambda>w'. False)"
proof -
  have kept: "conn_inv w' \<and> in_stream w' = in_stream w" if "out_kept w w'" for w'
    using that by (auto simp: out_kept_def out_frame_def in_stream_def)
  show ?thesis
    using puts_run [OF puts_message [OF assms(1)] assms(2)]
    by (rule ensures_mono) (auto simp: Emitted_def Send_failed_def out_stream_def dest: kept)
qed

lemma channel_send_outcome_witness:
  "ensures (pljvm_channel_send ex_log (world_of 0 [] [SAccept 3, SFail EOTHER]))
    (\<lambda>r w'. r = 0 \<longrightarrow> wire w' = enc_message ex_log) (\<lambda>e w'. True) (\<lambda>w'. False)"
  by (rule ensures_mono [OF channel_send_outcome [of ex_log "world_of 0 [] [SAccept 3, SFail EOTHER]"]])
    simp_all

section \<open>Values and types\<close>

text \<open>
  C20: a value of a type, sent by \<open>send_raw_object\<close>, is received by \<open>receive_raw_object\<close> for
  that type, with nulls, nested composites and arrays intact.
\<close>

theorem value_roundtrip:
  assumes "ok_object t d" and "healthy 0 ws" and "healthy 0 wr" and "in_stream wr = enc_object t d @ rest"
  shows "(\<exists>ws'. send_raw_object t d ws = Ok 0 ws' \<and> out_stream ws' = out_stream ws @ enc_object t d)
    \<and> (\<exists>wr'. receive_raw_object t wr = Ok (0, Some (deliver d)) wr' \<and> in_stream wr' = rest)"
  using w_object.transfer [OF assms(1), of ws wr rest] assms(2-4) by (auto simp: healthy_def)

lemma value_roundtrip_witness:
  "\<exists>wr'. receive_raw_object ex_array_type (world_of 0 [RData (enc_object ex_array_type ex_array)] [])
    = Ok (0, Some (deliver ex_array)) wr' \<and> in_stream wr' = []"
  using value_roundtrip [of ex_array_type ex_array "world_of 0 [] []"
      "world_of 0 [RData (enc_object ex_array_type ex_array)] []" "[]"]
  by simp

text \<open>
  A type description, nested as deep as it is, is received as it was sent on a stack of
  as many frames as it is deep.
\<close>

lemma type_roundtrip:
  assumes "ok_type t" and "healthy 0 ws" and "healthy (type_depth t) wr" and "in_stream wr = enc_type t @ rest"
  shows "(\<exists>ws'. send_type t ws = Ok 0 ws' \<and> out_stream ws' = out_stream ws @ enc_type t)
    \<and> (\<exists>wr'. receive_type wr = Ok (0, Some t) wr' \<and> in_stream wr' = rest)"
  using w_type.transfer [OF assms(1), of ws wr rest] assms(2-4) by (auto simp: healthy_def)

lemma type_roundtrip_witness:
  "\<exists>wr'. receive_type (world_of 2 [RData (enc_type ex_array_type)] []) = Ok (0, Some ex_array_type) wr'"
  using type_roundtrip [of ex_array_type "world_of 0 [] []" "world_of 2 [RData (enc_type ex_array_type)] []" "[]"]
  by auto

section \<open>The server loop\<close>

text \<open>
  C4: on a healthy connection whose stream holds the ping and then calls, \<open>receive_loop\<close>
  answers the ping, hands the calls to the handler in order, each with its arguments as
  they were sent, and the output is the pong and the handler's answers in that order;
  after them the loop waits for the next call.
\<close>

theorem server_session:
  assumes "serves h reply" and "healthy d w"
    and "\<forall>c \<in> set cs. ok_message (MsgCallreq c) \<and> message_depth (MsgCallreq c) \<le> d"
    and "in_stream w = enc_message MsgPing @ concat (map (\<lambda>c. enc_message (MsgCallreq c)) cs)"
  shows "\<exists>w'. receive_loop (length cs) h w = Ok Serving w' \<and> in_stream w' = []
    \<and> out_stream w' = out_stream w @ enc_message MsgPing
        @ concat (map (\<lambda>c. enc_message (reply (deliver_call c))) cs)"
proof -
  obtain w1 where w1: "handshake w = Ok () w1" "healthy d w1"
    "in_stream w1 = concat (map (\<lambda>c. enc_message (MsgCallreq c)) cs) @ []"
    "out_stream w1 = out_stream w @ enc_message MsgPing"
    using handshake_ok [OF assms(2,4)] by auto
  from serve_ok [OF assms(1,3) w1(2,3)] w1(1,4) show ?thesis
    by (auto simp: receive_loop_def)
qed

text \<open>A handler that answers each call with a log message that carries the source.\<close>

definition echo :: "plcMsgCallreq \<Rightarrow> (world, unit) prog" where
  "echo c = bindM (pljvm_channel_send ex_log) (\<lambda>_. returnM ())"

lemma serves_echo: "serves echo (\<lambda>_. ex_log)"
  unfolding serves_def
proof (intro allI impI)
  fix c w
  assume "healthy 0 w"
  then obtain w' where "pljvm_channel_send ex_log w = Ok 0 w'" "out_kept w w'"
    "out_stream w' = out_stream w @ enc_message ex_log"
    using puts_Ok [OF puts_message, of ex_log w] by (auto simp: healthy_def)
  then show "\<exists>w'. echo c w = Ok () w' \<and> out_kept w w' \<and> out_stream w' = out_stream w @ enc_message ex_log"
    by (auto simp: echo_def returnM_def)
qed

lemma server_session_witness:
  "\<exists>w'. receive_loop 1 echo (world_of 1 [RData (enc_message MsgPing @ enc_message (MsgCallreq ex_call))] [])
      = Ok Serving w' \<and> out_stream w' = enc_message MsgPing @ enc_message ex_log"
  using server_session [OF serves_echo, of 1
      "world_of 1 [RData (enc_message MsgPing @ enc_message (MsgCallreq ex_call))] []" "[ex_call]"]
  by (auto simp del: enc_message.simps ok_message.simps message_depth.simps)

text \<open>
  C21: when nothing is left of the stream the loop does not handle another call and writes
  nothing: its turn ends the loop, is interrupted, or still waits in \<open>recv\<close>.
\<close>

theorem server_stops:
  assumes "healthy d w" and "in_stream w = []"
  shows "ensures (serve (Suc n) h w) (\<lambda>ph w'. ph = Closed \<and> out_stream w' = out_stream w)
    (\<lambda>e w'. e = E_interrupted \<and> out_stream w' = out_stream w) (\<lambda>w'. out_stream w' = out_stream w)"
  unfolding serve.simps
  by (rule ensures_bindM, rule serve_one_gone [OF assms]) simp

lemma server_stops_witness:
  "ensures (serve 1 echo (world_of 0 [RData []] [])) (\<lambda>ph w'. ph = Closed) (\<lambda>e w'. e = E_interrupted) (\<lambda>w'. True)"
  using server_stops [of 0 "world_of 0 [RData []] []" 0 echo]
  by (auto elim!: ensures_mono)

text \<open>
  A first message that is not a ping ends the session with an error before anything is
  written and before any call is handled.
\<close>

lemma handshake_rejects:
  assumes "ok_message m" and "deliver_message m \<noteq> MsgPing" and "healthy (message_depth m) w"
    and "in_stream w = enc_message m @ rest"
  shows "\<exists>w'. receive_loop n h w = Elog E_first_message w' \<and> out_stream w' = out_stream w"
  using channel_receive_ok [OF assms(1) order_refl assms(3,4)] assms(2)
  by (auto simp: receive_loop_def handshake_def prog_simps)

lemma handshake_rejects_witness:
  "\<exists>w'. receive_loop 3 echo (world_of 0 [RData (enc_message ex_log)] []) = Elog E_first_message w'"
  using handshake_rejects [of ex_log "world_of 0 [RData (enc_message ex_log)] []" "[]" 3 echo]
  by auto

end
