(* ===== verification/Type_Info.thy ===== *)
theory Type_Info
  imports Wire_Values
begin

text \<open>
  Type descriptions of the backend: \<open>plcTypeInfo\<close> of \<^verbatim>\<open>src/plc_typeio.h\<close>, how
  \<open>fill_type_info\<close> of \<^verbatim>\<open>src/plc_typeio.c\<close> builds one from the system catalogs and how
  \<open>copy_type_info\<close> turns it into the \<open>plcType\<close> of a message.

  The catalogs are PostgreSQL's: a \<open>catalog\<close> is what its lookup functions answer
  (\<open>SearchSysCache\<close> on \<open>pg_type\<close> and \<open>pg_class\<close>, \<open>get_type_io_data\<close>,
  \<open>lookup_rowtype_tupdesc\<close>, \<open>typeidTypeRelid\<close>), and every definition that asks them takes
  one. \<open>outfunc\<close> and \<open>infunc\<close> are function pointers of this file, so an enumeration.
\<close>

section \<open>Descriptions\<close>

type_synonym oid = i32
type_synonym xid = i32
type_synonym itemptr = "nat \<times> nat"   \<comment> \<open>\<open>ItemPointerData\<close>: block and offset\<close>

datatype plcDatumOutput =
    As_int1 | As_int2 | As_int4 | As_int8 | As_float4 | As_float8 | As_float8_numeric
  | As_text | As_bytea | As_array | As_udt

datatype plcDatumInput =
    From_int1 | From_int2 | From_int4 | From_int8 | From_float4 | From_float8
  | From_float8_numeric | From_text | From_text_ptr | From_bytea | From_bytea_ptr
  | From_array | From_udt | From_udt_ptr

record type_fields =
  datatype_of :: plcDatatype
  outfunc :: "plcDatumOutput option"
  infunc :: "plcDatumInput option"
  output_proc :: oid
  input_proc :: oid
  typeOid :: oid
  typelem :: oid
  typbyval :: bool
  typlen :: i16
  typalign :: byte
  typmod :: i32
  is_rowtype :: bool
  is_record :: bool
  attisdropped :: bool
  typ_relid :: oid
  typrel_xmin :: xid
  typrel_tid :: "itemptr option"
  info_name :: cstr

text \<open>\<open>nSubTypes\<close> is the length of the second component.\<close>

datatype plcTypeInfo = TypeInfo (info: type_fields) (info_subs: "plcTypeInfo list")

section \<open>The catalogs\<close>

record pg_type_row =
  pt_output :: oid
  pt_input :: oid
  pt_typmod :: i32
  pt_elem :: oid
  pt_typtype :: byte
  pt_name :: "byte list"

record pg_attribute =
  at_dropped :: bool
  at_typid :: oid
  at_name :: "byte list"

record tupdesc =
  tdtypeid :: oid
  tdtypmod :: i32
  td_attrs :: "pg_attribute list"

record catalog =
  pg_type :: "oid \<Rightarrow> pg_type_row option"
  type_io_data :: "oid \<Rightarrow> i16 \<times> bool \<times> byte \<times> oid"
  rowtype_tupdesc :: "oid \<Rightarrow> i32 \<Rightarrow> tupdesc option"
  type_relid :: "oid \<Rightarrow> oid"
  pg_class :: "oid \<Rightarrow> (xid \<times> itemptr) option"

text \<open>The OIDs of the built-in types and of \<open>array_out\<close> in PostgreSQL's catalogs.\<close>

definition BOOLOID :: oid where "BOOLOID = 16"
definition BYTEAOID :: oid where "BYTEAOID = 17"
definition INT8OID :: oid where "INT8OID = 20"
definition INT2OID :: oid where "INT2OID = 21"
definition INT4OID :: oid where "INT4OID = 23"
definition FLOAT4OID :: oid where "FLOAT4OID = 700"
definition FLOAT8OID :: oid where "FLOAT8OID = 701"
definition NUMERICOID :: oid where "NUMERICOID = 1700"
definition RECORDOID :: oid where "RECORDOID = 2249"
definition F_ARRAY_OUT :: oid where "F_ARRAY_OUT = 751"
definition TYPTYPE_COMPOSITE :: byte where "TYPTYPE_COMPOSITE = 99"

section \<open>Filling a description\<close>

text \<open>The \<open>switch\<close> on the type's OID: data type, output and input function.\<close>

definition io_of_oid :: "oid \<Rightarrow> bool \<Rightarrow> plcDatatype \<times> plcDatumOutput \<times> plcDatumInput" where
  "io_of_oid oid isArrayElement =
     (if oid = BOOLOID then (PLC_DATA_INT1, As_int1, From_int1)
      else if oid = INT2OID then (PLC_DATA_INT2, As_int2, From_int2)
      else if oid = INT4OID then (PLC_DATA_INT4, As_int4, From_int4)
      else if oid = INT8OID then (PLC_DATA_INT8, As_int8, From_int8)
      else if oid = FLOAT4OID then (PLC_DATA_FLOAT4, As_float4, From_float4)
      else if oid = FLOAT8OID then (PLC_DATA_FLOAT8, As_float8, From_float8)
      else if oid = NUMERICOID then (PLC_DATA_FLOAT8, As_float8_numeric, From_float8_numeric)
      else if oid = BYTEAOID then
        (PLC_DATA_BYTEA, As_bytea, if \<not> isArrayElement then From_bytea else From_bytea_ptr)
      else (PLC_DATA_TEXT, As_text, if \<not> isArrayElement then From_text else From_text_ptr))"

definition base_fields :: "catalog \<Rightarrow> oid \<Rightarrow> pg_type_row \<Rightarrow> bool \<Rightarrow> type_fields" where
  "base_fields cat oid row isArrayElement =
     (case type_io_data cat oid of (len, byval, align, inp) \<Rightarrow>
      case io_of_oid oid isArrayElement of (dt, outf, infn) \<Rightarrow>
        \<lparr>datatype_of = dt, outfunc = Some outf, infunc = Some infn, output_proc = pt_output row,
         input_proc = inp, typeOid = oid, typelem = pt_elem row, typbyval = byval, typlen = len,
         typalign = align, typmod = pt_typmod row, is_rowtype = False, is_record = False,
         attisdropped = False, typ_relid = 0, typrel_xmin = 0, typrel_tid = None, info_name = None\<rparr>)"

text \<open>A zeroed \<open>plcTypeInfo\<close>, the description of a dropped attribute.\<close>

definition zero_fields :: type_fields where
  "zero_fields = \<lparr>datatype_of = PLC_DATA_INT1, outfunc = None, infunc = None, output_proc = 0,
     input_proc = 0, typeOid = 0, typelem = 0, typbyval = False, typlen = 0, typalign = 0,
     typmod = 0, is_rowtype = False, is_record = False, attisdropped = False, typ_relid = 0,
     typrel_xmin = 0, typrel_tid = Some (0, 0), info_name = None\<rparr>"

definition SIZEOF_plcTypeInfo :: nat where "SIZEOF_plcTypeInfo = 88"

text \<open>
  \<open>plc_top_strdup\<close> and \<open>pstrdup\<close>: a block for the string and its NUL. The contexts the blocks belong
  to are not part of the state.
\<close>

definition strdup :: "byte list \<Rightarrow> (world, byte list) prog" where
  "strdup s = bindM (plc_alloc (Suc (length s))) (\<lambda>_. returnM s)"

text \<open>
  The row type of a composite: that of the call's result for \<open>record\<close>, the type cache's for
  a type of kind \<open>'c'\<close>. \<open>result_desc\<close> is the descriptor \<open>get_call_result_type\<close> gives for
  \<open>fcinfo\<close>, \<open>None\<close> when that is NULL or the result is not composite.
\<close>

definition row_desc :: "catalog \<Rightarrow> tupdesc option \<Rightarrow> oid \<Rightarrow> pg_type_row \<Rightarrow> type_fields
    \<Rightarrow> (world, type_fields \<times> tupdesc option) prog" where
  "row_desc cat result_desc oid row f =
     bindM (if oid = RECORDOID then
              (case result_desc of
                 None \<Rightarrow> elogM (E_msg ''function returning record called in context that cannot accept type record'')
               | Some desc \<Rightarrow>
                   returnM (f\<lparr>is_rowtype := True, typmod := tdtypmod desc, is_record := True\<rparr>, Some desc))
            else returnM (f, None)) (\<lambda>(f, desc).
     if pt_typtype row = TYPTYPE_COMPOSITE then
       (case rowtype_tupdesc cat (typeOid f) (typmod f) of
          None \<Rightarrow> elogM (E_msg ''type is not composite'')
        | Some desc \<Rightarrow> returnM (f\<lparr>is_rowtype := True\<rparr>, Some desc))
     else returnM (f, desc))"

text \<open>Remember which version of the relation the composite type comes from.\<close>

definition relation_fields :: "catalog \<Rightarrow> pg_type_row \<Rightarrow> tupdesc \<Rightarrow> type_fields
    \<Rightarrow> (world, type_fields) prog" where
  "relation_fields cat row desc f =
     (if tdtypeid desc \<noteq> RECORDOID \<and> typrel_xmin f = 0 then
        (let relid = type_relid cat (tdtypeid desc) in
         case pg_class cat relid of
           None \<Rightarrow> elogM (E_msg ''cache lookup failed for relation'')
         | Some (xmin, tid) \<Rightarrow>
             bindM (strdup (pt_name row)) (\<lambda>nm.
             returnM (f\<lparr>typ_relid := relid, typrel_xmin := xmin, typrel_tid := Some tid, info_name := Some nm\<rparr>)))
      else returnM f)"

text \<open>
  The rest of the composite branch. \<open>fill\<close> is \<open>fill_type_info_inner\<close> for an attribute's type,
  with \<open>isUDTElement\<close> set.
\<close>

definition fill_attribute :: "(oid \<Rightarrow> (world, plcTypeInfo) prog) \<Rightarrow> pg_attribute
    \<Rightarrow> (world, plcTypeInfo) prog" where
  "fill_attribute fill attr =
     bindM (if \<not> at_dropped attr then fill (at_typid attr)
            else returnM (TypeInfo (zero_fields\<lparr>attisdropped := True\<rparr>) [])) (\<lambda>sub.
     bindM (strdup (at_name attr)) (\<lambda>nm.
     returnM (TypeInfo ((info sub)\<lparr>info_name := Some nm\<rparr>) (info_subs sub))))"

definition fill_composite :: "catalog \<Rightarrow> pg_type_row \<Rightarrow> tupdesc \<Rightarrow> bool
    \<Rightarrow> (oid \<Rightarrow> (world, plcTypeInfo) prog) \<Rightarrow> type_fields \<Rightarrow> (world, plcTypeInfo) prog" where
  "fill_composite cat row desc isArrayElement fill f =
     bindM (relation_fields cat row desc (f\<lparr>datatype_of := PLC_DATA_UDT, outfunc := Some As_udt,
         infunc := Some (if \<not> isArrayElement then From_udt else From_udt_ptr)\<rparr>)) (\<lambda>f.
     bindM (plc_alloc (size_mult (length (td_attrs desc)) SIZEOF_plcTypeInfo)) (\<lambda>_.
     bindM (mapM (fill_attribute fill) (td_attrs desc)) (\<lambda>subs.
     returnM (TypeInfo f subs))))"

function fill_type_info_inner :: "catalog \<Rightarrow> tupdesc option \<Rightarrow> oid \<Rightarrow> bool \<Rightarrow> bool
    \<Rightarrow> (world, plcTypeInfo) prog" where
  "fill_type_info_inner cat result_desc oid isArrayElement isUDTElement =
     (case pg_type cat oid of
        None \<Rightarrow> elogM (E_msg ''cache lookup failed for type'')
      | Some row \<Rightarrow>
          bindM
            (if \<not> isArrayElement \<and> pt_elem row \<noteq> 0 \<and> pt_output row = F_ARRAY_OUT then
               bindM (plc_alloc SIZEOF_plcTypeInfo) (\<lambda>_.
               bindM (fill_type_info_inner cat result_desc (pt_elem row) True isUDTElement) (\<lambda>sub.
               returnM ((base_fields cat oid row isArrayElement)\<lparr>datatype_of := PLC_DATA_ARRAY,
                   outfunc := Some As_array, infunc := Some From_array\<rparr>, [sub])))
             else returnM (base_fields cat oid row isArrayElement, [])) (\<lambda>(f, subs).
          if isUDTElement then returnM (TypeInfo f subs)
          else
            bindM (row_desc cat result_desc oid row f) (\<lambda>(f, desc).
            case desc of
              None \<Rightarrow> returnM (TypeInfo f subs)
            | Some desc \<Rightarrow> fill_composite cat row desc isArrayElement
                (\<lambda>oid. fill_type_info_inner cat result_desc oid False True) f)))"
  by pat_completeness auto
termination
  by (relation "measure (\<lambda>(cat, rd, oid, arr, udt). (if udt then 0 else 2) + (if arr then 0 else 1))") auto

declare fill_type_info_inner.simps [simp del]

definition fill_type_info :: "catalog \<Rightarrow> tupdesc option \<Rightarrow> oid \<Rightarrow> (world, plcTypeInfo) prog" where
  "fill_type_info cat result_desc oid = fill_type_info_inner cat result_desc oid False False"

section \<open>Copying a description into a message\<close>

text \<open>
  \<open>nSubTypes\<close> of a \<open>plcType\<close> is a \<open>short\<close>: the block has as many cells as it says, the loop
  writes one per attribute that is not dropped.
\<close>

fun copy_type_info :: "plcTypeInfo \<Rightarrow> (world, plcType) prog" where
  "copy_type_info (TypeInfo f subs) =
     bindM (case info_name f of
              None \<Rightarrow> returnM None
            | Some nm \<Rightarrow> bindM (strdup nm) (\<lambda>nm. returnM (Some nm))) (\<lambda>nm.
     if subs \<noteq> [] then
       let kept = filter (\<lambda>s. \<not> attisdropped (info s)) subs; n = of_nat (length kept) :: i16 in
       bindM (plc_alloc (size_mult (size_of_int (sint n)) 24)) (\<lambda>_.
       bindM (checkM OutOfBounds (length kept \<le> size_of_int (sint n))) (\<lambda>_.
       bindM (mapM copy_type_info kept) (\<lambda>ts.
       returnM (PlcType (datatype_of f) n nm ts))))
     else returnM (PlcType (datatype_of f) 0 nm []))"

section \<open>Shape of a filled description\<close>

definition scalar_types :: "plcDatatype set" where
  "scalar_types = {PLC_DATA_INT1, PLC_DATA_INT2, PLC_DATA_INT4, PLC_DATA_INT8, PLC_DATA_FLOAT4,
     PLC_DATA_FLOAT8, PLC_DATA_TEXT, PLC_DATA_BYTEA}"

text \<open>
  A description as \<open>fill_type_info\<close> makes it: one element type for an array, and that is not
  an array itself; subtypes otherwise only for a composite.
\<close>

fun wf_info :: "plcTypeInfo \<Rightarrow> bool" where
  "wf_info (TypeInfo f subs) \<longleftrightarrow>
     (datatype_of f \<in> scalar_types \<or> nested (datatype_of f))
     \<and> (datatype_of f = PLC_DATA_ARRAY \<longrightarrow> length subs = 1
          \<and> (\<forall>s \<in> set subs. datatype_of (info s) \<noteq> PLC_DATA_ARRAY \<and> \<not> attisdropped (info s)))
     \<and> (datatype_of f \<noteq> PLC_DATA_ARRAY \<and> datatype_of f \<noteq> PLC_DATA_UDT \<longrightarrow> subs = [])
     \<and> (\<forall>s \<in> set subs. wf_info s)"

text \<open>The combinations of data type, output and input function that a description has.\<close>

definition io_table :: "(plcDatatype \<times> plcDatumOutput \<times> plcDatumInput) set" where
  "io_table = {(PLC_DATA_INT1, As_int1, From_int1), (PLC_DATA_INT2, As_int2, From_int2),
     (PLC_DATA_INT4, As_int4, From_int4), (PLC_DATA_INT8, As_int8, From_int8),
     (PLC_DATA_FLOAT4, As_float4, From_float4), (PLC_DATA_FLOAT8, As_float8, From_float8),
     (PLC_DATA_FLOAT8, As_float8_numeric, From_float8_numeric),
     (PLC_DATA_TEXT, As_text, From_text), (PLC_DATA_TEXT, As_text, From_text_ptr),
     (PLC_DATA_BYTEA, As_bytea, From_bytea), (PLC_DATA_BYTEA, As_bytea, From_bytea_ptr),
     (PLC_DATA_ARRAY, As_array, From_array),
     (PLC_DATA_UDT, As_udt, From_udt), (PLC_DATA_UDT, As_udt, From_udt_ptr)}"

definition io_match :: "type_fields \<Rightarrow> bool" where
  "io_match f \<longleftrightarrow> (\<exists>out inp. outfunc f = Some out \<and> infunc f = Some inp \<and> (datatype_of f, out, inp) \<in> io_table)"

fun io_info :: "plcTypeInfo \<Rightarrow> bool" where
  "io_info (TypeInfo f subs) \<longleftrightarrow> (attisdropped f \<or> io_match f) \<and> (\<forall>s \<in> set subs. io_info s)"

fun info_depth :: "plcTypeInfo \<Rightarrow> nat" where
  "info_depth (TypeInfo f subs) = Suc (foldr max (map info_depth subs) 0)"

lemma foldr_max_bound: "(\<forall>x \<in> set xs. x \<le> b) \<Longrightarrow> foldr max xs 0 \<le> (b::nat)"
  by (induction xs) auto

text \<open>The catalog's names are \<open>NameData\<close>, and a relation has at most 1664 columns.\<close>

definition good_name :: "byte list \<Rightarrow> bool" where
  "good_name s \<longleftrightarrow> 0 \<notin> set s \<and> length s < 64"

definition good_desc :: "tupdesc \<Rightarrow> bool" where
  "good_desc d \<longleftrightarrow> length (td_attrs d) \<le> 1664 \<and> (\<forall>a \<in> set (td_attrs d). good_name (at_name a))"

definition good_catalog :: "catalog \<Rightarrow> tupdesc option \<Rightarrow> bool" where
  "good_catalog cat rd \<longleftrightarrow> (\<forall>oid row. pg_type cat oid = Some row \<longrightarrow> good_name (pt_name row))
     \<and> (\<forall>oid m d. rowtype_tupdesc cat oid m = Some d \<longrightarrow> good_desc d)
     \<and> (\<forall>d. rd = Some d \<longrightarrow> good_desc d)"

text \<open>
  A composite type has the row type of its own relation, and \<open>record\<close> is not a composite
  type; a description is current while the relations of its composite types are the versions
  it was made from.
\<close>

definition coherent :: "catalog \<Rightarrow> bool" where
  "coherent cat \<longleftrightarrow> (\<forall>oid m d. rowtype_tupdesc cat oid m = Some d \<and> oid \<noteq> RECORDOID \<longrightarrow> tdtypeid d = oid)
     \<and> (\<forall>row. pg_type cat RECORDOID = Some row \<longrightarrow> pt_typtype row \<noteq> TYPTYPE_COMPOSITE)"

fun info_current :: "catalog \<Rightarrow> plcTypeInfo \<Rightarrow> bool" where
  "info_current cat (TypeInfo f subs) \<longleftrightarrow> (\<forall>s \<in> set subs. info_current cat s)
     \<and> (is_rowtype f \<and> \<not> is_record f \<longrightarrow> typrel_tid f \<noteq> None
          \<and> pg_class cat (typ_relid f) = Some (typrel_xmin f, the (typrel_tid f)))"

text \<open>
  A description of a row type fits the catalogs when it has an entry for every attribute the row type has now, at every level. A
  blessed row type of the call's result is the one its \<open>typmod\<close> stands for.
\<close>

definition row_fits :: "catalog \<Rightarrow> type_fields \<Rightarrow> nat \<Rightarrow> bool" where
  "row_fits cat f n \<longleftrightarrow> (case rowtype_tupdesc cat (typeOid f) (typmod f) of None \<Rightarrow> True | Some desc \<Rightarrow> length (td_attrs desc) \<le> n)"

fun fits :: "catalog \<Rightarrow> plcTypeInfo \<Rightarrow> bool" where
  "fits cat (TypeInfo f subs) \<longleftrightarrow> (infunc f = Some From_udt \<or> infunc f = Some From_udt_ptr \<longrightarrow> row_fits cat f (length subs))
     \<and> (\<forall>s \<in> set subs. fits cat s)"

lemma row_fits_named [simp]: "row_fits cat (f\<lparr>info_name := nm\<rparr>) n = row_fits cat f n"
  by (simp add: row_fits_def)

definition blessed :: "catalog \<Rightarrow> tupdesc option \<Rightarrow> bool" where
  "blessed cat rd \<longleftrightarrow> (\<forall>d. rd = Some d \<longrightarrow> rowtype_tupdesc cat RECORDOID (tdtypmod d) = Some d)"

fun named_info :: "plcTypeInfo \<Rightarrow> bool" where
  "named_info (TypeInfo f subs) \<longleftrightarrow> (case info_name f of None \<Rightarrow> True | Some s \<Rightarrow> good_name s)
     \<and> length subs \<le> 1664 \<and> (\<forall>s \<in> set subs. named_info s)"

lemma plc_alloc_Ok: "plc_alloc n w = Ok b w' \<longleftrightarrow> alloc_ok w n \<and> b = replicate n (junk w) \<and> w' = w"
  by (auto simp: plc_alloc_def)

lemma elogM_not_Ok [simp]: "elogM e w \<noteq> Ok x w'"
  by (simp add: elogM_def)

lemma strdup_Ok: "strdup s w = Ok x w' \<longleftrightarrow> x = s \<and> w' = w \<and> alloc_ok w (Suc (length s))"
  by (auto simp: strdup_def bindM_Ok_iff plc_alloc_Ok)

definition info_bound :: "bool \<Rightarrow> bool \<Rightarrow> nat" where
  "info_bound arr udt = Suc ((if udt then 0 else 2) + (if arr then 0 else 1))"

definition filled_ok :: "catalog \<Rightarrow> tupdesc option \<Rightarrow> bool \<Rightarrow> bool \<Rightarrow> plcTypeInfo \<Rightarrow> bool" where
  "filled_ok cat rd arr udt ti \<longleftrightarrow> wf_info ti \<and> io_info ti \<and> info_depth ti \<le> info_bound arr udt
     \<and> \<not> attisdropped (info ti) \<and> (arr \<longrightarrow> datatype_of (info ti) \<noteq> PLC_DATA_ARRAY)
     \<and> (good_catalog cat rd \<longrightarrow> named_info ti) \<and> (coherent cat \<longrightarrow> info_current cat ti) \<and> (blessed cat rd \<longrightarrow> fits cat ti)"

lemma io_of_oid_scalar: "fst (io_of_oid oid arr) \<in> scalar_types"
  unfolding io_of_oid_def scalar_types_def by (simp split: if_split)

lemma io_of_oid_table: "io_of_oid oid arr \<in> io_table"
  unfolding io_of_oid_def io_table_def by (simp split: if_split)

lemma base_fields_io [simp]: "io_match (base_fields cat oid row arr)"
  using io_of_oid_table [of oid arr] unfolding base_fields_def io_match_def by (auto split: prod.split)

lemma nested_io [simp]:
  "io_match (f\<lparr>datatype_of := PLC_DATA_ARRAY, outfunc := Some As_array, infunc := Some From_array\<rparr>)"
  "io_match (f\<lparr>info_name := nm\<rparr>) = io_match f"
  by (simp_all add: io_match_def io_table_def)

lemma base_fields_facts [simp]:
  "attisdropped (base_fields cat oid row arr) = False" "info_name (base_fields cat oid row arr) = None"
  "datatype_of (base_fields cat oid row arr) \<in> scalar_types"
  "is_rowtype (base_fields cat oid row arr) = False" "is_record (base_fields cat oid row arr) = False"
  "typrel_xmin (base_fields cat oid row arr) = 0" "typeOid (base_fields cat oid row arr) = oid"
  using io_of_oid_scalar [of oid arr] unfolding base_fields_def by (auto split: prod.split)

lemma base_fields_scalar [simp]:
  "infunc (base_fields cat oid row arr) \<noteq> Some From_udt" "infunc (base_fields cat oid row arr) \<noteq> Some From_udt_ptr"
  by (auto simp: base_fields_def io_of_oid_def split: prod.split)

lemma scalar_types_facts:
  assumes "dt \<in> scalar_types \<or> nested dt"
  shows "dt_ok dt"
  using assms dt_of_code_code [of dt] by (auto simp: scalar_types_def dt_ok_def)

lemma scalar_not_nested: "dt \<in> scalar_types \<Longrightarrow> dt \<noteq> PLC_DATA_ARRAY \<and> dt \<noteq> PLC_DATA_UDT"
  by (auto simp: scalar_types_def)

lemma row_desc_Ok:
  assumes "row_desc cat rd oid row f w = Ok (f', d) w'"
  shows "attisdropped f' = attisdropped f \<and> info_name f' = info_name f \<and> w' = w
    \<and> (d = None \<longrightarrow> f' = f) \<and> typrel_xmin f' = typrel_xmin f
    \<and> (coherent cat \<and> pg_type cat oid = Some row \<and> typeOid f = oid \<longrightarrow>
         (\<forall>d'. d = Some d' \<longrightarrow> is_record f' \<or> tdtypeid d' \<noteq> RECORDOID))
    \<and> (blessed cat rd \<and> typeOid f = oid \<longrightarrow> (\<forall>d'. d = Some d' \<longrightarrow> rowtype_tupdesc cat (typeOid f') (typmod f') = Some d'))
    \<and> (good_catalog cat rd \<longrightarrow> (\<forall>d'. d = Some d' \<longrightarrow> good_desc d'))"
  using assms
  by (auto simp: row_desc_def bindM_Ok_iff good_catalog_def coherent_def blessed_def split: if_splits option.splits)

lemma relation_fields_Ok:
  assumes "relation_fields cat row d f w = Ok f' w'"
  shows "attisdropped f' = attisdropped f \<and> datatype_of f' = datatype_of f \<and> w' = w
    \<and> (info_name f' = info_name f \<or> info_name f' = Some (pt_name row))
    \<and> is_record f' = is_record f \<and> outfunc f' = outfunc f \<and> infunc f' = infunc f \<and> typeOid f' = typeOid f \<and> typmod f' = typmod f
    \<and> (tdtypeid d \<noteq> RECORDOID \<and> typrel_xmin f = 0 \<longrightarrow>
         (\<exists>xmin tid. pg_class cat (typ_relid f') = Some (xmin, tid) \<and> typrel_xmin f' = xmin \<and> typrel_tid f' = Some tid))"
  using assms
  by (auto simp: relation_fields_def Let_def bindM_Ok_iff strdup_Ok split: if_splits option.splits)

text \<open>The description before the composite part is looked at.\<close>

definition simple_ok :: "catalog \<Rightarrow> tupdesc option \<Rightarrow> oid \<Rightarrow> bool \<Rightarrow> bool \<Rightarrow> type_fields
    \<Rightarrow> plcTypeInfo list \<Rightarrow> bool" where
  "simple_ok cat rd oid arr udt f subs \<longleftrightarrow> filled_ok cat rd arr udt (TypeInfo f subs) \<and> info_name f = None
     \<and> typrel_xmin f = 0 \<and> typeOid f = oid"

lemma simple_base: "simple_ok cat rd oid arr udt (base_fields cat oid row arr) []"
  using base_fields_facts [of cat oid row arr] scalar_not_nested [OF base_fields_facts(3)]
  by (simp add: simple_ok_def filled_ok_def info_bound_def)

lemma simple_array:
  assumes "filled_ok cat rd True udt sub" and "\<not> arr"
  shows "simple_ok cat rd oid arr udt ((base_fields cat oid row arr)\<lparr>datatype_of := PLC_DATA_ARRAY,
                   outfunc := Some As_array, infunc := Some From_array\<rparr>) [sub]"
  using assms by (auto simp: simple_ok_def filled_ok_def info_bound_def)

lemma attr_filled:
  assumes "fill_attribute fill attr w = Ok ti w'"
    and fill: "\<And>oid s t w'. fill oid s = Ok t w' \<Longrightarrow> filled_ok cat rd False True t \<and> w' = s"
  shows "(wf_info ti \<and> io_info ti \<and> info_depth ti \<le> 2 \<and> (good_catalog cat rd \<and> good_name (at_name attr) \<longrightarrow> named_info ti)
    \<and> (coherent cat \<longrightarrow> info_current cat ti) \<and> (blessed cat rd \<longrightarrow> fits cat ti)) \<and> w' = w"
proof (cases "at_dropped attr")
  case True
  with assms(1) show ?thesis
    by (auto simp: fill_attribute_def bindM_Ok_iff strdup_Ok zero_fields_def scalar_types_def)
next
  case False
  with assms(1) obtain t where t: "fill (at_typid attr) w = Ok t w'"
    "ti = TypeInfo ((info t)\<lparr>info_name := Some (at_name attr)\<rparr>) (info_subs t)"
    by (auto simp: fill_attribute_def bindM_Ok_iff strdup_Ok)
  with fill [OF t(1)] show ?thesis
    by (cases t) (auto simp: filled_ok_def info_bound_def)
qed

lemma list_all2_member: "list_all2 P xs ys \<Longrightarrow> y \<in> set ys \<Longrightarrow> \<exists>x \<in> set xs. P x y"
  by (metis in_set_conv_nth list_all2_conv_all_nth)

lemma composite_filled:
  assumes "fill_composite cat row desc arr fill f w = Ok ti w'"
    and fill: "\<And>oid s t w'. fill oid s = Ok t w' \<Longrightarrow> filled_ok cat rd False True t \<and> w' = s"
    and f: "\<not> attisdropped f" "info_name f = None"
    and good: "good_catalog cat rd \<Longrightarrow> good_desc desc \<and> good_name (pt_name row)"
    and rel: "typrel_xmin f = 0" "coherent cat \<Longrightarrow> is_record f \<or> tdtypeid desc \<noteq> RECORDOID"
    and desc: "blessed cat rd \<Longrightarrow> rowtype_tupdesc cat (typeOid f) (typmod f) = Some desc"
  shows "filled_ok cat rd arr False ti \<and> w' = w"
proof -
  let ?P = "\<lambda>a ti. wf_info ti \<and> io_info ti \<and> info_depth ti \<le> 2 \<and> (good_catalog cat rd \<and> good_name (at_name a) \<longrightarrow> named_info ti)
    \<and> (coherent cat \<longrightarrow> info_current cat ti) \<and> (blessed cat rd \<longrightarrow> fits cat ti)"
  obtain f' subs w1 where f': "relation_fields cat row desc (f\<lparr>datatype_of := PLC_DATA_UDT, outfunc := Some As_udt,
         infunc := Some (if \<not> arr then From_udt else From_udt_ptr)\<rparr>) w = Ok f' w1"
    and subs: "mapM (fill_attribute fill) (td_attrs desc) w1 = Ok subs w'" and ti: "ti = TypeInfo f' subs"
    using assms(1) unfolding fill_composite_def bindM_Ok_iff plc_alloc_Ok returnM_Ok_iff by blast
  note rf = relation_fields_Ok [OF f', simplified]
  have "list_all2 ?P (td_attrs desc) subs \<and> w' = w1"
    by (rule mapM_Ok [OF attr_filled [OF _ fill] subs])
  then have P: "list_all2 ?P (td_attrs desc) subs" and w: "w' = w" using rf by simp_all
  note sub = list_all2_member [OF P]
  have len: "length subs = length (td_attrs desc)" using list_all2_lengthD [OF P] by simp
  have wf: "\<forall>s \<in> set subs. wf_info s \<and> io_info s" and "\<forall>s \<in> set subs. info_depth s \<le> 2"
    using sub by blast+
  then have depth: "foldr max (map info_depth subs) 0 \<le> 2" by (intro foldr_max_bound) auto
  have "named_info ti" if g: "good_catalog cat rd"
  proof -
    have "\<forall>s \<in> set subs. named_info s"
      using sub good [OF g] g unfolding good_desc_def by blast
    with rf f(2) len good [OF g] show ?thesis by (auto simp: ti good_desc_def)
  qed
  moreover have "info_current cat ti" if c: "coherent cat"
  proof -
    have "\<forall>s \<in> set subs. info_current cat s" using sub c by blast
    with rf rel(1) rel(2) [OF c] show ?thesis by (auto simp: ti)
  qed
  moreover have "fits cat ti" if b: "blessed cat rd"
  proof -
    have "\<forall>s \<in> set subs. fits cat s" using sub b by blast
    with rf desc [OF b] len show ?thesis by (simp add: ti row_fits_def)
  qed
  moreover have "io_match f'" using rf by (simp add: io_match_def io_table_def)
  ultimately show ?thesis
    using wf depth rf f(1) w by (auto simp: ti filled_ok_def info_bound_def)
qed

lemma fill_filled:
  "fill_type_info_inner cat rd oid arr udt w = Ok ti w' \<Longrightarrow> filled_ok cat rd arr udt ti \<and> w' = w"
proof (induction cat rd oid arr udt arbitrary: w ti w' rule: fill_type_info_inner.induct)
  case (1 cat rd oid arr udt)
  obtain row where row: "pg_type cat oid = Some row"
    using "1.prems" by (subst (asm) fill_type_info_inner.simps) (auto split: option.splits)
  let ?arr = "\<not> arr \<and> pt_elem row \<noteq> 0 \<and> pt_output row = F_ARRAY_OUT"
  let ?base = "base_fields cat oid row arr"
  let ?simple = "if ?arr then
               bindM (plc_alloc SIZEOF_plcTypeInfo) (\<lambda>_.
               bindM (fill_type_info_inner cat rd (pt_elem row) True udt) (\<lambda>sub.
               returnM (?base\<lparr>datatype_of := PLC_DATA_ARRAY,
                   outfunc := Some As_array, infunc := Some From_array\<rparr>, [sub])))
             else returnM (?base, [])"
  let ?rest = "\<lambda>f subs. if udt then returnM (TypeInfo f subs)
          else
            bindM (row_desc cat rd oid row f) (\<lambda>(f, desc).
            case desc of
              None \<Rightarrow> returnM (TypeInfo f subs)
            | Some desc \<Rightarrow> fill_composite cat row desc arr
                (\<lambda>oid. fill_type_info_inner cat rd oid False True) f)"
  from "1.prems" have "bindM ?simple (\<lambda>(f, subs). ?rest f subs) w = Ok ti w'"
    unfolding fill_type_info_inner.simps [of cat rd oid arr udt] row option.case .
  then obtain f subs w1 where simple: "?simple w = Ok (f, subs) w1" and rest: "?rest f subs w1 = Ok ti w'"
    unfolding bindM_Ok_iff by (metis (no_types, lifting) case_prod_conv surj_pair)
  have f: "simple_ok cat rd oid arr udt f subs" and w1: "w1 = w"
  proof -
    have "simple_ok cat rd oid arr udt f subs \<and> w1 = w"
    proof (cases ?arr)
      case True
      then obtain sub where sub: "fill_type_info_inner cat rd (pt_elem row) True udt w = Ok sub w1"
        and f: "f = ?base\<lparr>datatype_of := PLC_DATA_ARRAY, outfunc := Some As_array, infunc := Some From_array\<rparr>" "subs = [sub]"
        using simple unfolding if_P [OF True] bindM_Ok_iff plc_alloc_Ok returnM_Ok_iff by blast
      with "1.IH"(1) [OF row True sub] simple_array [of cat rd udt sub arr] True show ?thesis by simp
    next
      case False
      with simple simple_base show ?thesis by (auto simp: if_not_P)
    qed
    then show "simple_ok cat rd oid arr udt f subs" and "w1 = w" by simp_all
  qed
  show ?case
  proof (cases udt)
    case True
    with rest f w1 show ?thesis by (simp add: simple_ok_def)
  next
    case False
    then obtain f1 d w2 where d: "row_desc cat rd oid row f w1 = Ok (f1, d) w2"
      and rest': "(case d of None \<Rightarrow> returnM (TypeInfo f1 subs)
            | Some desc \<Rightarrow> fill_composite cat row desc arr
                (\<lambda>oid. fill_type_info_inner cat rd oid False True) f1) w2 = Ok ti w'"
      using rest unfolding if_not_P [OF False] bindM_Ok_iff
      by (metis (no_types, lifting) case_prod_conv surj_pair)
    note d = row_desc_Ok [OF d]
    have f1: "\<not> attisdropped f1" "info_name f1 = None" "typrel_xmin f1 = 0"
      using d f by (simp_all add: simple_ok_def filled_ok_def)
    show ?thesis
    proof (cases d)
      case None
      with d rest' f False w1 show ?thesis by (simp add: simple_ok_def)
    next
      case (Some desc)
      with rest' have c: "fill_composite cat row desc arr
        (\<lambda>oid. fill_type_info_inner cat rd oid False True) f1 w2 = Ok ti w'" by simp
      have "good_desc desc \<and> good_name (pt_name row)" if "good_catalog cat rd"
        using d Some row that by (auto simp: good_catalog_def)
      moreover have "is_record f1 \<or> tdtypeid desc \<noteq> RECORDOID" if "coherent cat"
        using d Some row f that by (auto simp: simple_ok_def)
      moreover have "rowtype_tupdesc cat (typeOid f1) (typmod f1) = Some desc" if "blessed cat rd"
        using d Some f that by (auto simp: simple_ok_def)
      ultimately show ?thesis
        using composite_filled [OF c "1.IH"(2) [OF row False] f1(1,2) _ f1(3)] d w1 False by simp
    qed
  qed
qed

text \<open>Filling raises or returns; nothing else happens.\<close>

lemma quiet_alloc [quiet_intros]: "quiet (plc_alloc n) (\<lambda>_. True)"
  by (simp add: quiet_def plc_alloc_def)

lemma quiet_strdup [quiet_intros]: "quiet (strdup s) (\<lambda>_. True)"
  unfolding strdup_def by (intro quiet_intros) simp

lemma row_desc_quiet [quiet_intros]: "quiet (row_desc cat rd oid row f) (\<lambda>_. True)"
  unfolding row_desc_def by (intro quiet_intros TrueI)

lemma relation_fields_quiet [quiet_intros]: "quiet (relation_fields cat row d f) (\<lambda>_. True)"
  unfolding relation_fields_def Let_def by (intro quiet_intros TrueI)

lemma fill_composite_quiet [quiet_intros]:
  assumes "\<And>oid. quiet (fill oid) (\<lambda>_. True)"
  shows "quiet (fill_composite cat row d arr fill f) (\<lambda>_. True)"
  unfolding fill_composite_def fill_attribute_def by (intro quiet_intros TrueI assms)

lemma fill_quiet_any: "quiet (fill_type_info_inner cat rd oid arr udt) (\<lambda>_. True)"
proof (induction cat rd oid arr udt rule: fill_type_info_inner.induct)
  case (1 cat rd oid arr udt)
  show ?case
    unfolding fill_type_info_inner.simps [of cat rd oid arr udt]
    by (intro quiet_intros "1.IH" TrueI; assumption)
qed

lemma fill_quiet: "quiet (fill_type_info_inner cat rd oid arr udt) (filled_ok cat rd arr udt)"
  by (rule quiet_strengthen [OF fill_quiet_any]) (simp add: fill_filled)

section \<open>The type a description becomes\<close>

abbreviation kept_subs :: "plcTypeInfo list \<Rightarrow> plcTypeInfo list" where
  "kept_subs subs \<equiv> filter (\<lambda>s. \<not> attisdropped (info s)) subs"

text \<open>What \<open>copy_type_info\<close> computes: the description without its dropped attributes.\<close>

fun type_of_info :: "plcTypeInfo \<Rightarrow> plcType" where
  "type_of_info (TypeInfo f subs) =
     PlcType (datatype_of f) (of_nat (length (kept_subs subs))) (info_name f)
       (map type_of_info (kept_subs subs))"

lemma alloc_all_run: "alloc_all w \<Longrightarrow> int n \<le> MaxAllocSize \<Longrightarrow> plc_alloc n w = Ok (replicate n (junk w)) w"
  by (simp add: plc_alloc_def alloc_all_def)

lemma short_count: "n \<le> 1664 \<Longrightarrow> sint (of_nat n :: i16) = int n"
  by (simp add: sint_uint signed_take_bit_int_eq_self unsigned_of_nat take_bit_nat_eq_self
      take_bit_int_eq_self)

lemma strdup_run: "alloc_all w \<Longrightarrow> good_name s \<Longrightarrow> strdup s w = Ok s w"
  using alloc_all_run [of w "Suc (length s)"]
  by (simp add: strdup_def good_name_def returnM_def MaxAllocSize_def)

lemma copy_run:
  "named_info ti \<Longrightarrow> alloc_all w \<Longrightarrow> copy_type_info ti w = Ok (type_of_info ti) w"
proof (induction ti)
  case (TypeInfo f subs)
  let ?kept = "kept_subs subs"
  let ?n = "of_nat (length ?kept) :: i16"
  have len: "length ?kept \<le> 1664"
    using TypeInfo.prems(1) le_trans [OF length_filter_le] by auto
  then have n: "size_of_int (sint ?n) = length ?kept"
    by (simp add: short_count size_of_int_nat)
  then have "int (size_mult (size_of_int (sint ?n)) 24) \<le> MaxAllocSize"
    using len by (simp add: size_mult_def MaxAllocSize_def)
  note alloc = alloc_all_run [OF TypeInfo.prems(2) this]
  have subs: "mapM copy_type_info ?kept w = Ok (map type_of_info ?kept) w"
    using TypeInfo by (intro mapM_run) auto
  have name: "(case info_name f of None \<Rightarrow> returnM None
      | Some nm \<Rightarrow> bindM (strdup nm) (\<lambda>nm. returnM (Some nm))) w = Ok (info_name f) w"
    using TypeInfo.prems strdup_run [OF TypeInfo.prems(2)]
    by (auto simp: returnM_def split: option.splits)
  have "copy_type_info (TypeInfo f subs) w = (if subs \<noteq> [] then
       bindM (plc_alloc (size_mult (size_of_int (sint ?n)) 24)) (\<lambda>_.
       bindM (checkM OutOfBounds (length ?kept \<le> size_of_int (sint ?n))) (\<lambda>_.
       bindM (mapM copy_type_info ?kept) (\<lambda>ts.
       returnM (PlcType (datatype_of f) ?n (info_name f) ts))))
     else returnM (PlcType (datatype_of f) 0 (info_name f) [])) w"
    using name by (simp add: Let_def)
  also have "\<dots> = Ok (type_of_info (TypeInfo f subs)) w"
    using n alloc subs by (simp add: returnM_def)
  finally show ?case .
qed

lemma good_name_ok: "good_name s \<Longrightarrow> ok_cstring (Some s)"
  by (simp add: good_name_def ok_cstring_def MAX_CHUNK_def)

lemma type_of_info_ok: "wf_info ti \<Longrightarrow> named_info ti \<Longrightarrow> ok_type (type_of_info ti)"
proof (induction ti)
  case (TypeInfo f subs)
  have nm: "ok_cstring (info_name f)"
    using TypeInfo.prems(2) by (auto simp: good_name_ok ok_cstring_def [of None] split: option.splits)
  have "length (kept_subs subs) \<le> 1664"
    using TypeInfo.prems(2) le_trans [OF length_filter_le] by auto
  with TypeInfo nm scalar_types_facts [of "datatype_of f"] show ?case
    by (auto simp: short_count)
qed

lemma foldr_max_mono: "(\<forall>x \<in> set xs. \<exists>y \<in> set ys. x \<le> y) \<Longrightarrow> foldr max xs 0 \<le> foldr max ys (0::nat)"
  by (rule foldr_max_bound) (meson foldr_max_le le_trans)

lemma type_of_info_depth: "type_depth (type_of_info ti) \<le> info_depth ti"
proof (induction ti)
  case (TypeInfo f subs)
  then have "\<forall>x \<in> set (map type_depth (map type_of_info (kept_subs subs))).
      \<exists>y \<in> set (map info_depth subs). x \<le> y"
    by fastforce
  then show ?case using foldr_max_mono by simp
qed

end
