(* ===== verification/Function_Cache.thy ===== *)
theory Function_Cache
  imports Type_Info
begin

text \<open>
  \<^verbatim>\<open>src/function_cache.c\<close>: the five-entry cache of \<open>plcProcInfo\<close> structures, most recently
  used first. The cache holds pointers; \<open>procs\<close> is the memory they point into, and a pointer
  to a structure that was freed is \<open>None\<close> there. What an entry owns (its strings and type
  descriptions) is part of the record.
\<close>

section \<open>State\<close>

record plcProcInfo =
  funcOid :: oid
  fn_xmin :: xid
  fn_tid :: itemptr
  proc_name :: "byte list"
  proc_src :: "byte list"
  proc_hasChanged :: i32
  rettype :: plcTypeInfo
  proc_retset :: i32
  proc_nargs :: i32
  argnames :: "cstr list"
  argtypes :: "plcTypeInfo list"

type_synonym procptr = nat

record fcache =
  slots :: "procptr option list"      \<comment> \<open>\<open>plcFunctionCache\<close>\<close>
  initialized :: bool                 \<comment> \<open>\<open>plcFunctionCacheInitialized\<close>\<close>
  procs :: "procptr \<Rightarrow> plcProcInfo option"

definition PLC_FUNCTION_CACHE_SIZE :: nat where "PLC_FUNCTION_CACHE_SIZE = 5"

definition deref :: "procptr \<Rightarrow> (fcache, plcProcInfo) prog" where
  "deref p = (\<lambda>s. case procs s p of None \<Rightarrow> Stuck UseAfterFree | Some f \<Rightarrow> Ok f s)"

definition get_slot :: "nat \<Rightarrow> (fcache, procptr option) prog" where
  "get_slot i = (\<lambda>s. if i < length (slots s) then Ok (slots s ! i) s else Stuck OutOfBounds)"

definition set_slots :: "procptr option list \<Rightarrow> (fcache, unit) prog" where
  "set_slots C = (\<lambda>s. Ok () (s\<lparr>slots := C\<rparr>))"

text \<open>
  \<open>free_proc_info\<close> of \<^verbatim>\<open>src/message_fns.c\<close> as the cache sees it: the last \<open>pfree\<close>, after which the address is not allocated.
  The loop before it, over the names and types of the arguments, is in \<open>free_proc\<close> of the theory \<open>Release\<close>, on blocks of memory.
\<close>

definition free_proc_info :: "procptr \<Rightarrow> (fcache, unit) prog" where
  "free_proc_info p =
     bindM (deref p) (\<lambda>_. (\<lambda>s. Ok () (s\<lparr>procs := (procs s)(p := None)\<rparr>)))"

section \<open>Operations\<close>

text \<open>\<open>for (i = index; i > 0; i--) C[i] = C[i-1]\<close>\<close>

primrec shift_right :: "nat \<Rightarrow> 'a list \<Rightarrow> 'a list" where
  "shift_right 0 C = C"
| "shift_right (Suc i) C = shift_right i (C[Suc i := C ! i])"

definition function_cache_up :: "nat \<Rightarrow> (fcache, unit) prog" where
  "function_cache_up index =
     (if 0 < index then
        bindM (get_slot index) (\<lambda>tmp.
        (\<lambda>s. Ok () (s\<lparr>slots := (shift_right index (slots s))[0 := tmp]\<rparr>)))
      else returnM ())"

text \<open>The search loop from index \<open>i\<close>, for \<open>n\<close> more slots.\<close>

primrec find_proc :: "oid \<Rightarrow> nat \<Rightarrow> nat \<Rightarrow> (fcache, procptr option) prog" where
  "find_proc oid 0 i = returnM None"
| "find_proc oid (Suc n) i =
     bindM (get_slot i) (\<lambda>p.
     case p of
       None \<Rightarrow> find_proc oid n (Suc i)
     | Some p \<Rightarrow>
         bindM (deref p) (\<lambda>f.
         if funcOid f = oid then bindM (function_cache_up i) (\<lambda>_. returnM (Some p))
         else find_proc oid n (Suc i)))"

definition function_cache_init :: "(fcache, unit) prog" where
  "function_cache_init = (\<lambda>s.
     if \<not> initialized s
     then Ok () (s\<lparr>slots := replicate PLC_FUNCTION_CACHE_SIZE None, initialized := True\<rparr>)
     else Ok () s)"

definition function_cache_get :: "oid \<Rightarrow> (fcache, procptr option) prog" where
  "function_cache_get oid =
     bindM function_cache_init (\<lambda>_. find_proc oid PLC_FUNCTION_CACHE_SIZE 0)"

definition function_cache_put :: "procptr \<Rightarrow> (fcache, unit) prog" where
  "function_cache_put func =
     bindM (deref func) (\<lambda>f.
     bindM (function_cache_get (funcOid f)) (\<lambda>oldFunc.
     case oldFunc of
       None \<Rightarrow>
         bindM (get_slot (PLC_FUNCTION_CACHE_SIZE - 1)) (\<lambda>last.
         bindM (case last of None \<Rightarrow> returnM () | Some p \<Rightarrow> free_proc_info p) (\<lambda>_.
         (\<lambda>s. Ok () (s\<lparr>slots := (shift_right (PLC_FUNCTION_CACHE_SIZE - 1) (slots s))[0 := Some func]\<rparr>))))
     | Some old \<Rightarrow>
         bindM (free_proc_info old) (\<lambda>_.
         (\<lambda>s. Ok () (s\<lparr>slots := (slots s)[0 := Some func]\<rparr>)))))"

section \<open>The cache as a list\<close>

text \<open>
  The invariant: the used slots come first, hold different live pointers, and no two entries
  are for the same function.
\<close>

definition ptrs :: "fcache \<Rightarrow> procptr list" where
  "ptrs s = List.map_filter id (slots s)"

definition entries :: "fcache \<Rightarrow> plcProcInfo list" where
  "entries s = map (\<lambda>p. the (procs s p)) (ptrs s)"

definition packed :: "procptr list \<Rightarrow> procptr option list" where
  "packed ps = map Some ps @ replicate (PLC_FUNCTION_CACHE_SIZE - length ps) None"

definition cache_inv :: "fcache \<Rightarrow> bool" where
  "cache_inv s \<longleftrightarrow> slots s = packed (ptrs s) \<and> length (ptrs s) \<le> PLC_FUNCTION_CACHE_SIZE
     \<and> distinct (ptrs s) \<and> (\<forall>p \<in> set (ptrs s). procs s p \<noteq> None)
     \<and> distinct (map funcOid (entries s)) \<and> (\<not> initialized s \<longrightarrow> ptrs s = [])"

text \<open>The specification: a list of entries, most recently used first.\<close>

definition lru_find :: "oid \<Rightarrow> plcProcInfo list \<Rightarrow> plcProcInfo option" where
  "lru_find oid l = find (\<lambda>f. funcOid f = oid) l"

definition lru_touch :: "oid \<Rightarrow> plcProcInfo list \<Rightarrow> plcProcInfo list" where
  "lru_touch oid l = (case lru_find oid l of None \<Rightarrow> l
     | Some f \<Rightarrow> f # filter (\<lambda>g. funcOid g \<noteq> oid) l)"

definition lru_put :: "plcProcInfo \<Rightarrow> plcProcInfo list \<Rightarrow> plcProcInfo list" where
  "lru_put f l = f # take (PLC_FUNCTION_CACHE_SIZE - 1) (filter (\<lambda>g. funcOid g \<noteq> funcOid f) l)"

section \<open>Refinement\<close>

lemma ptrs_packed: "slots s = packed ps \<Longrightarrow> ptrs s = ps"
  by (simp add: ptrs_def packed_def List.map_filter_def filter_map o_def)

text \<open>The invariant and the entries, for a given list of pointers.\<close>

definition holds :: "fcache \<Rightarrow> procptr list \<Rightarrow> bool" where
  "holds s ps \<longleftrightarrow> slots s = packed ps \<and> length ps \<le> PLC_FUNCTION_CACHE_SIZE \<and> distinct ps
     \<and> (\<forall>p \<in> set ps. procs s p \<noteq> None) \<and> distinct (map (\<lambda>p. funcOid (the (procs s p))) ps)
     \<and> (\<not> initialized s \<longrightarrow> ps = [])"

lemma holds_ptrs: "cache_inv s \<Longrightarrow> holds s (ptrs s)"
  by (simp add: cache_inv_def holds_def entries_def o_def)

lemma holds_inv: "holds s ps \<Longrightarrow> cache_inv s \<and> ptrs s = ps"
  using ptrs_packed [of s ps] by (simp add: cache_inv_def holds_def entries_def o_def)

lemma length_packed: "length ps \<le> PLC_FUNCTION_CACHE_SIZE \<Longrightarrow> length (packed ps) = PLC_FUNCTION_CACHE_SIZE"
  by (simp add: packed_def)

lemma shift_right_eq: "i < length C \<Longrightarrow> (shift_right i C)[0 := x] = x # take i C @ drop (Suc i) C"
proof (induction i arbitrary: C)
  case 0
  then show ?case by (cases C) auto
next
  case (Suc i)
  then have "(shift_right i (C[Suc i := C ! i]))[0 := x]
    = x # take i (C[Suc i := C ! i]) @ drop (Suc i) (C[Suc i := C ! i])" by simp
  also have "\<dots> = x # take (Suc i) C @ drop (Suc (Suc i)) C"
    using Suc.prems by (simp add: drop_update_swap take_Suc_conv_app_nth upd_conv_take_nth_drop min_def)
  finally show ?case by simp
qed

lemma nth_packed_Some: "i < length ps \<Longrightarrow> packed ps ! i = Some (ps ! i)"
  by (simp add: packed_def nth_append)

lemma nth_packed_None:
  "length ps \<le> i \<Longrightarrow> i < PLC_FUNCTION_CACHE_SIZE \<Longrightarrow> packed ps ! i = None"
  by (simp add: packed_def nth_append)

lemma up_packed:
  assumes "i < length ps" and "length ps \<le> PLC_FUNCTION_CACHE_SIZE"
  shows "ps ! i # take i ps = take (Suc i) (ps ! i # ps)"
    and "packed ps ! i # take i (packed ps) @ drop (Suc i) (packed ps)
      = packed (ps ! i # take i ps @ drop (Suc i) ps)"
  using assms by (simp_all add: packed_def nth_append take_map drop_map)

text \<open>Moving entry \<open>i\<close> to the front.\<close>

lemma cache_up_run:
  assumes "holds s ps" and "i < length ps"
  shows "function_cache_up i s = Ok () (s\<lparr>slots := packed (ps ! i # take i ps @ drop (Suc i) ps)\<rparr>)"
proof (cases "i = 0")
  case True
  then have "ps ! i # take i ps @ drop (Suc i) ps = ps"
    using assms(2) by (cases ps) auto
  with True assms(1) show ?thesis
    by (simp add: function_cache_up_def returnM_def holds_def)
next
  case False
  have len: "i < length (slots s)"
    using assms by (simp add: holds_def length_packed)
  with False show ?thesis
    using assms shift_right_eq [OF len, of "packed ps ! i"] up_packed(2) [OF assms(2)]
    by (simp add: function_cache_up_def get_slot_def bindM_def holds_def)
qed

text \<open>The search: it stops at the first entry for the function, which it moves to the front.\<close>

lemma find_proc_run:
  assumes "holds s ps" and "i + n = PLC_FUNCTION_CACHE_SIZE"
    and "\<forall>j < min i (length ps). funcOid (the (procs s (ps ! j))) \<noteq> oid"
  shows "find_proc oid n i s =
    (if \<exists>j < length ps. funcOid (the (procs s (ps ! j))) = oid
     then let j = (LEAST j. j < length ps \<and> funcOid (the (procs s (ps ! j))) = oid) in
       Ok (Some (ps ! j)) (s\<lparr>slots := packed (ps ! j # take j ps @ drop (Suc j) ps)\<rparr>)
     else Ok None s)"
  using assms(2,3)
proof (induction n arbitrary: i)
  case 0
  with assms(1) show ?case by (auto simp: holds_def returnM_def)
next
  case (Suc n)
  let ?hit = "\<lambda>j. j < length ps \<and> funcOid (the (procs s (ps ! j))) = oid"
  have slot: "get_slot i s = Ok (packed ps ! i) s"
    using assms(1) Suc.prems(1) by (simp add: get_slot_def holds_def length_packed)
  show ?case
  proof (cases "i < length ps")
    case False
    then have "packed ps ! i = None" using Suc.prems(1) by (intro nth_packed_None) auto
    moreover have "\<not> (\<exists>j. ?hit j)" using Suc.prems(2) False by (auto simp: min_def split: if_splits)
    ultimately show ?thesis
      using Suc.IH [of "Suc i"] Suc.prems slot by simp
  next
    case True
    then have "procs s (ps ! i) \<noteq> None"
      using assms(1) nth_mem by (auto simp only: holds_def)
    then obtain f where f: "procs s (ps ! i) = Some f" by blast
    show ?thesis
    proof (cases "funcOid f = oid")
      case True
      with \<open>i < length ps\<close> f have "?hit i" by simp
      moreover have "\<And>j. ?hit j \<Longrightarrow> i \<le> j"
        using Suc.prems(2) by (metis min_less_iff_conj not_less)
      ultimately have "(LEAST j. ?hit j) = i" by (intro Least_equality)
      with \<open>?hit i\<close> True f show ?thesis
        using slot cache_up_run [OF assms(1) \<open>i < length ps\<close>] nth_packed_Some [OF \<open>i < length ps\<close>]
        by (auto simp: deref_def bindM_def returnM_def Let_def)
    next
      case False
      then have "\<forall>j < min (Suc i) (length ps). funcOid (the (procs s (ps ! j))) \<noteq> oid"
        using Suc.prems(2) f by (auto simp: less_Suc_eq)
      with Suc.IH [of "Suc i"] Suc.prems(1) False f slot nth_packed_Some [OF \<open>i < length ps\<close>]
      show ?thesis by (simp add: deref_def bindM_def)
    qed
  qed
qed

text \<open>The search on the list of entries.\<close>

lemma find_split: "(\<forall>g \<in> set a. \<not> P g) \<Longrightarrow> P x \<Longrightarrow> find P (a @ x # b) = Some x"
  by (induction a) auto

lemma first_hit:
  assumes "funcOid x = oid" and "distinct (map funcOid (a @ x # b))"
  shows "lru_find oid (a @ x # b) = Some x"
    and "filter (\<lambda>g. funcOid g \<noteq> oid) (a @ x # b) = a @ b"
proof -
  have "\<forall>g \<in> set a. funcOid g \<noteq> oid" "\<forall>g \<in> set b. funcOid g \<noteq> oid"
    using assms by (auto simp: image_iff)
  with assms(1) show "lru_find oid (a @ x # b) = Some x"
    and "filter (\<lambda>g. funcOid g \<noteq> oid) (a @ x # b) = a @ b"
    by (simp_all add: lru_find_def find_split filter_id_conv)
qed

lemma init_run:
  assumes "holds s ps"
  shows "\<exists>s'. function_cache_init s = Ok () s' \<and> holds s' ps \<and> procs s' = procs s \<and> initialized s'"
  using assms by (auto simp: function_cache_init_def holds_def packed_def)

definition got :: "oid \<Rightarrow> fcache \<Rightarrow> procptr option \<Rightarrow> fcache \<Rightarrow> bool" where
  "got oid s r s' \<longleftrightarrow> cache_inv s' \<and> initialized s' \<and> procs s' = procs s
     \<and> entries s' = lru_touch oid (entries s)
     \<and> (case r of
          None \<Rightarrow> lru_find oid (entries s) = None \<and> ptrs s' = ptrs s
        | Some p \<Rightarrow> lru_find oid (entries s) = procs s p \<and> procs s p \<noteq> None
            \<and> p \<in> set (ptrs s) \<and> ptrs s' = p # remove1 p (ptrs s))"

lemma cache_get_spec:
  assumes "cache_inv s"
  shows "\<exists>r s'. function_cache_get oid s = Ok r s' \<and> got oid s r s'"
proof -
  define ps where "ps = ptrs s"
  have h: "holds s ps" using holds_ptrs [OF assms] by (simp add: ps_def)
  obtain s1 where s1: "function_cache_init s = Ok () s1" "holds s1 ps" "procs s1 = procs s" "initialized s1"
    using init_run [OF h] by blast
  let ?g = "\<lambda>p. the (procs s p)"
  let ?hit = "\<lambda>j. j < length ps \<and> funcOid (?g (ps ! j)) = oid"
  have ent: "entries s = map ?g ps" by (simp add: entries_def ps_def)
  have dist: "distinct (map funcOid (map ?g ps))" "distinct ps"
    using h by (simp_all add: holds_def o_def)
  have run: "function_cache_get oid s =
    (if \<exists>j. ?hit j then let j = LEAST j. ?hit j in
       Ok (Some (ps ! j)) (s1\<lparr>slots := packed (ps ! j # take j ps @ drop (Suc j) ps)\<rparr>)
     else Ok None s1)"
    using find_proc_run [OF s1(2), of 0 PLC_FUNCTION_CACHE_SIZE oid, unfolded s1(3)] s1(1)
    by (simp add: function_cache_get_def)
  show ?thesis
  proof (cases "\<exists>j. ?hit j")
    case False
    then have "lru_find oid (entries s) = None"
      by (auto simp: lru_find_def find_None_iff ent in_set_conv_nth)
    moreover have "function_cache_get oid s = Ok None s1" using run False by simp
    moreover have "entries s1 = entries s" "ptrs s1 = ptrs s" "cache_inv s1"
      using holds_inv [OF s1(2)] s1(3) by (simp_all add: entries_def ps_def)
    ultimately show ?thesis
      using s1 by (auto simp: got_def lru_touch_def)
  next
    case True
    define j where "j = (LEAST j. ?hit j)"
    have j: "?hit j" unfolding j_def by (rule LeastI_ex [OF True])
    let ?p = "ps ! j"
    let ?ps = "?p # take j ps @ drop (Suc j) ps"
    let ?s = "s1\<lparr>slots := packed ?ps\<rparr>"
    have r: "function_cache_get oid s = Ok (Some ?p) ?s"
      using run True by (simp add: j_def Let_def)
    obtain a b where ps: "ps = a @ ?p # b" and ab: "take j ps = a" "drop (Suc j) ps = b"
      using j id_take_nth_drop [of j ps] by blast
    define p where "p = ?p"
    have ps': "ps = a @ p # b" and r': "function_cache_get oid s = Ok (Some p) (s1\<lparr>slots := packed (p # a @ b)\<rparr>)"
      using ps r by (simp_all add: p_def ab)
    have p: "funcOid (?g p) = oid" using j by (simp add: p_def)
    have "holds (s1\<lparr>slots := packed (p # a @ b)\<rparr>) (p # a @ b)"
      using s1(2,3,4) h dist unfolding ps' holds_def by auto
    note inv = holds_inv [OF this]
    have live: "procs s p \<noteq> None" using h by (simp add: ps' holds_def)
    have "lru_find oid (entries s) = Some (?g p)"
      "filter (\<lambda>g. funcOid g \<noteq> oid) (entries s) = map ?g (a @ b)"
      using first_hit [OF p, of "map ?g a" "map ?g b"] dist(1) by (simp_all add: ent ps')
    moreover have "entries (s1\<lparr>slots := packed (p # a @ b)\<rparr>) = ?g p # map ?g (a @ b)"
      using inv s1(3) by (simp add: entries_def)
    moreover have "remove1 p (ptrs s) = a @ b" "p \<in> set (ptrs s)"
      using dist(2) ps' by (auto simp: remove1_append simp flip: ps_def)
    ultimately show ?thesis
      using r' inv live s1(3,4)
      by (intro exI [of _ "Some p"] exI [of _ "s1\<lparr>slots := packed (p # a @ b)\<rparr>"])
        (auto simp: got_def lru_touch_def)
  qed
qed

lemma put_packed:
  "length ps \<le> PLC_FUNCTION_CACHE_SIZE \<Longrightarrow>
   (shift_right (PLC_FUNCTION_CACHE_SIZE - 1) (packed ps))[0 := Some x]
     = packed (x # take (PLC_FUNCTION_CACHE_SIZE - 1) ps)"
  using shift_right_eq [of "PLC_FUNCTION_CACHE_SIZE - 1" "packed ps" "Some x"] length_packed [of ps]
  by (auto simp: PLC_FUNCTION_CACHE_SIZE_def packed_def take_map min_def)

lemma free_run: "procs s p = Some f \<Longrightarrow> free_proc_info p s = Ok () (s\<lparr>procs := (procs s)(p := None)\<rparr>)"
  by (simp add: free_proc_info_def deref_def bindM_def)

text \<open>
  What a put does: the new entry comes first, an entry of the same function or else the one
  past the fifth goes, and only what goes is freed.
\<close>

definition put_done :: "procptr \<Rightarrow> plcProcInfo \<Rightarrow> fcache \<Rightarrow> fcache \<Rightarrow> bool" where
  "put_done func f s s' \<longleftrightarrow> cache_inv s' \<and> entries s' = lru_put f (entries s)
     \<and> func \<in> set (ptrs s') \<and> set (ptrs s') \<subseteq> insert func (set (ptrs s))
     \<and> procs s' = (\<lambda>p. if p \<in> set (ptrs s) \<and> p \<notin> set (ptrs s') then None else procs s p)"

lemma put_doneI:
  assumes h: "holds s' (func # qs)" and pr: "procs s' = (\<lambda>p. if p \<in> set (ptrs s) \<and> p \<notin> set (func # qs) then None else procs s p)"
    and sub: "set qs \<subseteq> set (ptrs s)" and f: "procs s func = Some f"
    and ents: "map (\<lambda>p. the (procs s p)) qs = take (PLC_FUNCTION_CACHE_SIZE - 1) (filter (\<lambda>g. funcOid g \<noteq> funcOid f) (entries s))"
  shows "put_done func f s s'"
proof -
  note inv = holds_inv [OF h]
  have "map (\<lambda>p. the (procs s' p)) qs = map (\<lambda>p. the (procs s p)) qs"
    by (auto simp: pr)
  then have "entries s' = lru_put f (entries s)"
    using inv f ents by (auto simp: entries_def [of s'] lru_put_def pr)
  with inv sub pr show ?thesis by (auto simp: put_done_def)
qed

lemma distinct_oids_Cons:
  assumes "map F qs = map G qs" and "distinct (map G qs)" and "\<forall>q \<in> set qs. G q \<noteq> F y"
  shows "distinct (map F (y # qs))"
proof -
  have "F y \<notin> set (map G qs)" using assms(3) by fastforce
  with assms(2) show ?thesis unfolding list.map distinct.simps assms(1) by blast
qed

lemma cache_put_spec:
  assumes inv: "cache_inv s" and f: "procs s func = Some f" and new: "func \<notin> set (ptrs s)"
  shows "\<exists>s'. function_cache_put func s = Ok () s' \<and> put_done func f s s'"
proof -
  obtain r s1 where r: "function_cache_get (funcOid f) s = Ok r s1" and got: "got (funcOid f) s r s1"
    using cache_get_spec [OF inv] by blast
  define ps where "ps = ptrs s"
  have h: "holds s ps" using holds_ptrs [OF inv] by (simp add: ps_def)
  then have ps: "length ps \<le> PLC_FUNCTION_CACHE_SIZE" "distinct ps" "\<forall>p \<in> set ps. procs s p \<noteq> None"
    "distinct (map (\<lambda>p. funcOid (the (procs s p))) ps)"
    by (simp_all add: holds_def)
  have ent: "entries s = map (\<lambda>p. the (procs s p)) ps" by (simp add: entries_def ps_def)
  have s1: "cache_inv s1" "initialized s1" "procs s1 = procs s" using got by (simp_all add: got_def)
  note h1 = holds_ptrs [OF s1(1)]
  show ?thesis
  proof (cases r)
    case None
    then have none: "lru_find (funcOid f) (entries s) = None" and p1: "ptrs s1 = ps"
      using got by (simp_all add: got_def ps_def)
    then have notin: "\<forall>p \<in> set ps. funcOid (the (procs s p)) \<noteq> funcOid f"
      by (auto simp: lru_find_def find_None_iff ent)
    let ?n = "PLC_FUNCTION_CACHE_SIZE - 1"
    let ?qs = "take ?n ps"
    have slots1: "slots s1 = packed ps" using h1 p1 by (simp add: holds_def)
    define pr where "pr = (\<lambda>p. if p \<in> set ps \<and> p \<notin> set (func # ?qs) then None else procs s p)"
    have get: "function_cache_put func s = bindM (get_slot ?n) (\<lambda>last.
         bindM (case last of None \<Rightarrow> returnM () | Some p \<Rightarrow> free_proc_info p) (\<lambda>_.
         (\<lambda>s. Ok () (s\<lparr>slots := (shift_right ?n (slots s))[0 := Some func]\<rparr>)))) s1"
      using f r None by (simp add: function_cache_put_def deref_def bindM_def)
    have run: "function_cache_put func s = Ok () (s1\<lparr>procs := pr, slots := packed (func # ?qs)\<rparr>)"
    proof (cases "length ps = PLC_FUNCTION_CACHE_SIZE")
      case True
      then have n: "?n < length ps" and n': "?n < length (slots s1)"
        using ps(1) by (simp_all add: slots1 length_packed PLC_FUNCTION_CACHE_SIZE_def)
      let ?p = "ps ! ?n"
      have "take (Suc ?n) ps = ps" using True by (simp add: PLC_FUNCTION_CACHE_SIZE_def)
      with take_Suc_conv_app_nth [OF n] have split: "ps = ?qs @ [?p]" by simp
      then have set: "set ps = insert ?p (set ?qs)" by (metis Un_insert_right list.simps(15) set_append set_empty sup_bot.right_neutral list.set(1))
      have "distinct (?qs @ [?p])" using ps(2) split by (rule subst [rotated])
      then have q: "?p \<notin> set ?qs" by simp
      have "func \<notin> set ps" using new by (simp add: ps_def)
      with q set have pr: "pr = (procs s)(?p := None)"
        unfolding pr_def by (intro ext) auto
      obtain g where "procs s ?p = Some g" using ps(3) n by (meson nth_mem not_None_eq)
      with get n' show ?thesis
        using put_packed [OF ps(1), of func] nth_packed_Some [OF n]
        by (simp add: get_slot_def bindM_def slots1 free_run s1(3) pr)
    next
      case False
      with ps(1) have n: "length ps \<le> ?n" by simp
      then have "pr = procs s" by (auto simp: pr_def)
      with get n show ?thesis
        using put_packed [OF ps(1), of func] nth_packed_None [OF n]
        by (simp add: get_slot_def bindM_def slots1 length_packed [OF ps(1)] PLC_FUNCTION_CACHE_SIZE_def
            returnM_def flip: s1(3))
    qed
    have sub: "set ?qs \<subseteq> set ps" by (rule set_take_subset)
    have eq: "map (\<lambda>p. funcOid (the (pr p))) ?qs = map (\<lambda>p. funcOid (the (procs s p))) ?qs"
      by (simp add: pr_def)
    have d: "distinct (map (\<lambda>p. funcOid (the (procs s p))) ?qs)"
      using ps(4) by (simp flip: take_map)
    have "\<forall>p \<in> set ?qs. funcOid (the (procs s p)) \<noteq> funcOid (the (pr func))"
      using f new notin sub by (auto simp: pr_def ps_def)
    from distinct_oids_Cons [OF eq d this]
    have "distinct (map (\<lambda>p. funcOid (the (pr p))) (func # ?qs))" .
    moreover have "distinct (func # ?qs)"
      using ps(2) new sub by (auto simp: ps_def)
    moreover have "\<forall>p \<in> set (func # ?qs). pr p \<noteq> None"
      using ps(3) sub f new by (auto simp: pr_def ps_def)
    moreover have "length (func # ?qs) \<le> PLC_FUNCTION_CACHE_SIZE"
      by (simp add: PLC_FUNCTION_CACHE_SIZE_def)
    ultimately have held: "holds (s1\<lparr>procs := pr, slots := packed (func # ?qs)\<rparr>) (func # ?qs)"
      using s1(2) by (simp add: holds_def)
    have "map (\<lambda>p. the (procs s p)) ?qs = take ?n (filter (\<lambda>g. funcOid g \<noteq> funcOid f) (entries s))"
      using notin by (simp add: ent take_map filter_id_conv)
    with held have "put_done func f s (s1\<lparr>procs := pr, slots := packed (func # ?qs)\<rparr>)"
      using f set_take_subset [of ?n ps] by (intro put_doneI) (simp_all add: pr_def ps_def)
    with run show ?thesis by blast
  next
    case (Some old)
    let ?qs = "remove1 old ps"
    have old: "lru_find (funcOid f) (entries s) = procs s old" "procs s old \<noteq> None" "old \<in> set ps"
      and p1: "ptrs s1 = old # ?qs" and touch: "entries s1 = lru_touch (funcOid f) (entries s)"
      using got Some by (simp_all add: got_def ps_def)
    then obtain g where g: "procs s old = Some g" by blast
    with old(1) have oid: "funcOid g = funcOid f" by (auto simp: lru_find_def find_Some_iff)
    have slots1: "slots s1 = packed (old # ?qs)" using h1 p1 by (simp add: holds_def)
    have len: "length ?qs < PLC_FUNCTION_CACHE_SIZE"
      using h1 p1 by (simp add: holds_def)
    let ?s = "s1\<lparr>procs := (procs s)(old := None), slots := packed (func # ?qs)\<rparr>"
    have run: "function_cache_put func s = Ok () ?s"
      using f r Some g slots1 s1(3)
      by (simp add: function_cache_put_def deref_def bindM_def free_run packed_def)
    have rest: "map (\<lambda>p. the (procs s p)) ?qs = filter (\<lambda>g. funcOid g \<noteq> funcOid f) (entries s)"
      using touch p1 old(1) g s1(3) by (simp add: entries_def [of s1] lru_touch_def)
    have oids: "\<forall>p \<in> set ?qs. funcOid (the (procs s p)) \<noteq> funcOid f"
    proof
      fix p
      assume "p \<in> set ?qs"
      then have "the (procs s p) \<in> set (map (\<lambda>p. the (procs s p)) ?qs)" by simp
      then show "funcOid (the (procs s p)) \<noteq> funcOid f" unfolding rest by simp
    qed
    have nold: "old \<notin> set ?qs" using ps(2) by (simp add: distinct_remove1_removeAll)
    have same: "map (\<lambda>p. funcOid (the (((procs s)(old := None)) p))) ?qs = map (\<lambda>p. funcOid (the (procs s p))) ?qs"
      using nold by auto
    have "distinct (map (\<lambda>p. funcOid (the (procs s p))) ?qs)"
      using h1 p1 s1(3) by (simp add: holds_def)
    moreover have "\<forall>p \<in> set ?qs. funcOid (the (procs s p)) \<noteq> funcOid (the (((procs s)(old := None)) func))"
      using oids f new old(3) by (auto simp: ps_def [symmetric])
    ultimately have "distinct (map (\<lambda>p. funcOid (the (((procs s)(old := None)) p))) (func # ?qs))"
      using same by (intro distinct_oids_Cons)
    then have held: "holds ?s (func # ?qs)"
      using len ps f new s1(2) nold old(3) notin_set_remove1 [of _ ps old]
      by (auto simp: holds_def ps_def [symmetric] set_remove1_eq)
    have "put_done func f s ?s"
    proof (rule put_doneI [OF held _ _ f])
      show "procs ?s = (\<lambda>p. if p \<in> set (ptrs s) \<and> p \<notin> set (func # ?qs) then None else procs s p)"
        using new old(3) ps(2) by (auto simp: fun_eq_iff ps_def [symmetric] set_remove1_eq)
      show "set ?qs \<subseteq> set (ptrs s)" using set_remove1_subset [of old ps] by (simp add: ps_def)
      have "length (filter (\<lambda>g. funcOid g \<noteq> funcOid f) (entries s)) \<le> PLC_FUNCTION_CACHE_SIZE - 1"
        unfolding rest [symmetric] using len by simp
      then show "map (\<lambda>p. the (procs s p)) ?qs
        = take (PLC_FUNCTION_CACHE_SIZE - 1) (filter (\<lambda>g. funcOid g \<noteq> funcOid f) (entries s))"
        using rest by simp
    qed
    with run show ?thesis by blast
  qed
qed

end
