(* ===== verification/Backend.thy ===== *)
theory Backend
  imports Server_Loop Function_Cache
begin

text \<open>
  The state of the database side, which \<^verbatim>\<open>src/message_fns.c\<close>, \<^verbatim>\<open>src/sqlhandler.c\<close> and
  \<^verbatim>\<open>src/pljvm.c\<close> work on, and the part of \<^verbatim>\<open>src/common/comm_connectivity.c\<close> that opens and
  closes the connection. \<open>bw\<close> is the memory manager and the connection, \<open>cache\<close> the function
  cache, \<open>next_proc\<close> the next fresh address of a \<open>plcProcInfo\<close>, and \<open>unfinished\<close> are the structures that were
  allocated and whose fields are not all written yet; \<open>connects\<close> is a script of
  what the attempts to connect meet, \<open>open_socks\<close> counts the sockets that were opened and not
  closed, \<open>caller_context\<close> is \<open>pl_container_caller_context\<close>, \<open>reports\<close> are the messages below \<open>ERROR\<close> that
  \<open>ereport\<close> was given, and \<open>spi\<close> is the script of the answers of \<open>SPI_exec\<close>.

  \<open>refusals\<close> is the script of the server's other functions that this code calls and that can fail (\<open>SPI_connect\<close>,
  \<open>SPI_finish\<close> and the three of a subtransaction): for each call, in order, the error it fails with, or \<open>None\<close>; those
  after its end succeed.
  \<open>subxacts\<close> is the number of subtransactions these calls have opened less the number they have closed, which is
  negative when one is closed that was not opened here.
\<close>

section \<open>State\<close>

datatype connect_ev =
    No_socket                                      \<comment> \<open>\<open>socket\<close> fails\<close>
  | No_host                                        \<comment> \<open>\<open>gethostbyname\<close> fails\<close>
  | Refused                                        \<comment> \<open>\<open>connect\<close> fails\<close>
  | Connected int "recv_ev list" "send_ev list"    \<comment> \<open>a socket and what its calls will meet\<close>

datatype datum =
    DBool bool
  | DInt2 i16
  | DInt4 i32
  | DInt8 i64
  | DFloat4 i32
  | DFloat8 i64
  | DBytea "byte list"
  | DArray "i32 list" "byte list option" "datum list"
      \<comment> \<open>dimensions, null bitmap, and the elements that are stored, in order\<close>
  | DTuple "datum option list"
  | DOther nat   \<comment> \<open>a value of a type that only its own input and output functions look into\<close>

text \<open>What the code reads of \<open>FunctionCallInfo\<close>; \<open>call_trigger\<close> is \<open>CALLED_AS_TRIGGER\<close>.\<close>

record call_info =
  fn_oid :: oid
  fn_retset :: bool
  call_trigger :: bool
  result_desc :: "tupdesc option"
  argdata :: "datum option list"    \<comment> \<open>\<open>arg\<close> and \<open>argnull\<close>\<close>

text \<open>
  What the code reads of \<open>SPI_tuptable\<close> after a query: per column its type and name, and for each row
  the values. A statement may call functions of this language; \<open>Spi_rows\<close> also lists these calls.
\<close>

record spi_table =
  sp_cols :: "(oid \<times> byte list) list"
  sp_rows :: "datum option list list"

datatype spi_ev =
    Spi_rows "call_info list" spi_table    \<comment> \<open>a statement that returned rows\<close>
  | Spi_other             \<comment> \<open>any other statement\<close>
  | Spi_error string      \<comment> \<open>\<open>SPI_exec\<close> raises\<close>

record backend =
  bw :: world
  cache :: fcache
  next_proc :: procptr
  unfinished :: "procptr set"
  connects :: "connect_ev list"
  open_socks :: nat
  subxacts :: int
  caller_context :: nat
  reports :: "(i32 \<times> cstr) list"
  spi :: "spi_ev list"
  refusals :: "elog option list"

section \<open>Operations on a part of the state\<close>

definition via :: "('s \<Rightarrow> 't) \<Rightarrow> ('t \<Rightarrow> 's \<Rightarrow> 's) \<Rightarrow> ('t, 'a) prog \<Rightarrow> ('s, 'a) prog" where
  "via get put m = (\<lambda>s. case m (get s) of
      Ok x t \<Rightarrow> Ok x (put t s) | Elog e t \<Rightarrow> Elog e (put t s) | Blocked t \<Rightarrow> Blocked (put t s)
    | Stuck u \<Rightarrow> Stuck u)"

abbreviation in_world :: "(world, 'a) prog \<Rightarrow> (backend, 'a) prog" where
  "in_world \<equiv> via bw (\<lambda>w s. s\<lparr>bw := w\<rparr>)"

abbreviation in_cache :: "(fcache, 'a) prog \<Rightarrow> (backend, 'a) prog" where
  "in_cache \<equiv> via cache (\<lambda>c s. s\<lparr>cache := c\<rparr>)"

locale state_part =
  fixes get :: "'s \<Rightarrow> 't" and put :: "'t \<Rightarrow> 's \<Rightarrow> 's"
  assumes get_put: "get (put t s) = t"
    and put_get: "put (get s) s = s"
    and put_put: "put t (put t' s) = put t s"
begin

lemma via_return: "via get put (returnM x) = returnM x"
  by (simp add: via_def returnM_def put_get fun_eq_iff)

lemma via_elog: "via get put (elogM e) = elogM e"
  by (simp add: via_def elogM_def put_get fun_eq_iff)

lemma via_bind: "via get put (bindM m f) = bindM (via get put m) (\<lambda>x. via get put (f x))"
  by (auto simp: via_def bindM_def get_put put_put fun_eq_iff split: outcome.splits)

lemma via_ensures:
  assumes "ensures (m (get s)) Q E B"
  shows "ensures (via get put m s) (\<lambda>x s'. \<exists>t. s' = put t s \<and> Q x t)
    (\<lambda>e s'. \<exists>t. s' = put t s \<and> E e t) (\<lambda>s'. \<exists>t. s' = put t s \<and> B t)"
  using assms by (cases "m (get s)") (auto simp: via_def)

lemma via_quiet: "quiet m P \<Longrightarrow> quiet (via get put m) P"
  using via_ensures unfolding quiet_def by (fastforce intro: ensures_mono simp: put_get)

lemma via_Ok: "via get put m s = Ok x s' \<longleftrightarrow> (\<exists>t. m (get s) = Ok x t \<and> s' = put t s)"
  by (auto simp: via_def split: outcome.splits)

end

interpretation in_world: state_part bw "\<lambda>w s. s\<lparr>bw := w\<rparr>"
  by unfold_locales auto

interpretation in_cache: state_part cache "\<lambda>c s. s\<lparr>cache := c\<rparr>"
  by unfold_locales auto

text \<open>
  A call of a function of the server that may fail: one that raises, and one whose status the code looks at and raises an
  error of its own.
\<close>

definition server_call :: "(backend, elog option) prog" where
  "server_call = (\<lambda>s. case refusals s of [] \<Rightarrow> Ok None s | r # rs \<Rightarrow> Ok r (s\<lparr>refusals := rs\<rparr>))"

definition raising_call :: "(backend, unit) prog" where
  "raising_call = bindM server_call (\<lambda>r. case r of None \<Rightarrow> returnM () | Some e \<Rightarrow> elogM e)"

definition status_call :: "string \<Rightarrow> (backend, unit) prog" where
  "status_call msg = bindM server_call (\<lambda>r. case r of None \<Rightarrow> returnM () | Some e \<Rightarrow> elogM (E_msg msg))"

lemma server_call_run [simp]:
  assumes "refusals s = []"
  shows "server_call s = Ok None s" "raising_call s = Ok () s" "status_call msg s = Ok () s"
  using assms by (simp_all add: server_call_def raising_call_def status_call_def bindM_def returnM_def)

section \<open>Opening and closing the connection\<close>

text \<open>
  \<open>plcConnect\<close>: NULL (\<open>False\<close>) when the executor does not accept, and then the socket stays
  open. The receive timeout it sets only shows as \<open>RFail EAGAIN\<close> in the script.
\<close>

definition plcConnect :: "(backend, bool) prog" where
  "plcConnect = (\<lambda>s. case connects s of
      [] \<Rightarrow> Blocked s
    | No_socket # cs \<Rightarrow> Elog (E_msg ''PLJVM: Cannot create socket'') (s\<lparr>connects := cs\<rparr>)
    | No_host # cs \<Rightarrow> Elog (E_msg ''PLJVM: Failed to call gethostbyname'')
        (s\<lparr>connects := cs, open_socks := Suc (open_socks s)\<rparr>)
    | Refused # cs \<Rightarrow> Ok False (s\<lparr>connects := cs, open_socks := Suc (open_socks s)\<rparr>)
    | Connected sck rs ss # cs \<Rightarrow>
        bindM (in_world (plcConnInit sck)) (\<lambda>_. returnM True)
          (s\<lparr>connects := cs, open_socks := Suc (open_socks s),
             bw := (bw s)\<lparr>recvs := rs, sends := ss, wire := []\<rparr>\<rparr>))"

definition plcDisconnect :: "(backend, unit) prog" where
  "plcDisconnect = (\<lambda>s. Ok () (s\<lparr>open_socks := open_socks s - 1\<rparr>))"

end
