(* ===== verification/Proc_Info.thy ===== *)
theory Proc_Info
  imports Backend
begin

text \<open>
  \<^verbatim>\<open>src/message_fns.c\<close>: the description of the called function, taken from the cache while it is
  up to date and built from the catalogs otherwise.

  \<open>pg_proc\<close> is the catalog's answer for a function. \<open>Assert\<close> is empty in a production server and is not modelled.
\<close>

section \<open>The catalog of functions\<close>

text \<open>
  \<open>pr_argtypes\<close> holds the \<open>pronargs\<close> input types; \<open>pr_argnames\<close> the array of names, which the
  catalog keeps for all arguments; the three texts as \<open>textout\<close> gives them.
\<close>

record pg_proc_row =
  pr_xmin :: xid
  pr_tid :: itemptr
  pr_rettype :: oid
  pr_argtypes :: "oid list"
  pr_argnames :: "cstr list option"
  pr_src :: cstr
  pr_name :: cstr

record sys_catalog =
  tcat :: catalog
  pg_proc :: "oid \<Rightarrow> pg_proc_row option"

definition TEXTOID :: oid where "TEXTOID = 25"
definition SIZEOF_plcProcInfo :: nat where "SIZEOF_plcProcInfo = 144"

section \<open>Validity of a cached description\<close>

text \<open>
  \<open>plc_type_valid\<close>: the relation of every composite type is still the version the description
  was made from. \<open>record\<close> is not looked at.
\<close>

fun plc_type_valid :: "catalog \<Rightarrow> plcTypeInfo \<Rightarrow> ('s, bool) prog" where
  "plc_type_valid cat (TypeInfo f subs) =
     bindM (allM (plc_type_valid cat) subs) (\<lambda>valid.
     if valid \<and> is_rowtype f \<and> \<not> is_record f then
       (case pg_class cat (typ_relid f) of
          None \<Rightarrow> elogM (E_msg ''PL/Container cache lookup failed for relation'')
        | Some (xmin, tid) \<Rightarrow>
            returnM (\<not> (typrel_xmin f \<noteq> xmin \<or> typrel_tid f \<noteq> Some tid)))
     else returnM valid)"

definition plc_procedure_valid :: "catalog \<Rightarrow> procptr option \<Rightarrow> pg_proc_row \<Rightarrow> (backend, bool) prog" where
  "plc_procedure_valid cat p row =
     (case p of
        None \<Rightarrow> returnM False
      | Some p \<Rightarrow>
          bindM (in_cache (deref p)) (\<lambda>f.
          if fn_xmin f = pr_xmin row \<and> fn_tid f = pr_tid row then
            bindM (allM (plc_type_valid cat) (argtypes f)) (\<lambda>valid.
            if valid then plc_type_valid cat (rettype f) else returnM False)
          else returnM False))"

section \<open>Building a description\<close>

text \<open>One cell of \<open>argnames\<close>: an empty name is dropped again.\<close>

definition arg_name :: "cstr \<Rightarrow> (world, cstr) prog" where
  "arg_name nm =
     (case nm of
        None \<Rightarrow> returnM None
      | Some s \<Rightarrow> bindM (strdup s) (\<lambda>s. returnM (if strlen s = 0 then None else Some s)))"

definition arg_names :: "catalog \<Rightarrow> pg_proc_row \<Rightarrow> (world, cstr list) prog" where
  "arg_names cat row =
     (let nargs = length (pr_argtypes row) in
      bindM (case pr_argnames row of
               None \<Rightarrow> returnM (replicate nargs None)
             | Some nms \<Rightarrow>
                 if pg_type cat TEXTOID = None then elogM (E_fatal ''cannot find text type in cache'')
                 else if length nms \<noteq> nargs then elogM (E_fatal ''something bad happened, nargs != len'')
                 else returnM nms) (\<lambda>nms.
      bindM (plc_alloc (size_mult nargs 8)) (\<lambda>_.
      mapM arg_name nms)))"

definition top_string :: "string \<Rightarrow> cstr \<Rightarrow> (world, byte list) prog" where
  "top_string msg s = (case s of None \<Rightarrow> elogM (E_msg msg) | Some s \<Rightarrow> strdup s)"

text \<open>What \<open>get_proc_info\<close> fills the \<open>plcProcInfo\<close> with that it has just allocated.\<close>

definition build_proc :: "catalog \<Rightarrow> call_info \<Rightarrow> pg_proc_row \<Rightarrow> (world, plcProcInfo) prog" where
  "build_proc cat fcinfo row =
     bindM (fill_type_info cat (result_desc fcinfo) (pr_rettype row)) (\<lambda>rt.
     bindM (if 0 < length (pr_argtypes row) then
              bindM (plc_alloc (size_mult (length (pr_argtypes row)) SIZEOF_plcTypeInfo)) (\<lambda>_.
              bindM (mapM (fill_type_info cat (result_desc fcinfo)) (pr_argtypes row)) (\<lambda>ts.
              bindM (arg_names cat row) (\<lambda>nms.
              returnM (ts, nms))))
            else returnM ([], [])) (\<lambda>(ts, nms).
     bindM (top_string ''null prosrc'' (pr_src row)) (\<lambda>src.
     bindM (top_string ''null proname'' (pr_name row)) (\<lambda>nm.
     returnM \<lparr>funcOid = fn_oid fcinfo, fn_xmin = pr_xmin row, fn_tid = pr_tid row,
       proc_name = nm, proc_src = src, proc_hasChanged = 1, rettype = rt,
       proc_retset = (if fn_retset fcinfo then 1 else 0),
       proc_nargs = of_nat (length (pr_argtypes row)), argnames = nms, argtypes = ts\<rparr>))))"

text \<open>
  The structure at a fresh address; the writes to its fields, which nobody reads before the last of them; and the write to
  \<open>hasChanged\<close> of a cached one. Nothing frees the structure when a step between the first two raises.
\<close>

definition new_proc :: "(backend, procptr) prog" where
  "new_proc = bindM (in_world (plc_alloc SIZEOF_plcProcInfo)) (\<lambda>_.
     (\<lambda>s. let p = next_proc s in Ok p (s\<lparr>next_proc := Suc p, unfinished := insert p (unfinished s)\<rparr>)))"

definition fill_proc :: "procptr \<Rightarrow> plcProcInfo \<Rightarrow> (backend, unit) prog" where
  "fill_proc p f = (\<lambda>s. Ok () (s\<lparr>unfinished := unfinished s - {p}, cache := (cache s)\<lparr>procs := (procs (cache s))(p \<mapsto> f)\<rparr>\<rparr>))"

definition set_unchanged :: "procptr \<Rightarrow> (fcache, unit) prog" where
  "set_unchanged p = bindM (deref p) (\<lambda>f.
     (\<lambda>s. Ok () (s\<lparr>procs := (procs s)(p \<mapsto> f\<lparr>proc_hasChanged := 0\<rparr>)\<rparr>)))"

definition get_proc_info :: "sys_catalog \<Rightarrow> call_info \<Rightarrow> (backend, procptr) prog" where
  "get_proc_info cat fcinfo =
     (case pg_proc cat (fn_oid fcinfo) of
        None \<Rightarrow> elogM (E_msg ''cannot find proc'')
      | Some row \<Rightarrow>
          bindM (in_cache (function_cache_get (fn_oid fcinfo))) (\<lambda>pinfo.
          bindM (plc_procedure_valid (tcat cat) pinfo row) (\<lambda>valid.
          if \<not> valid then
            bindM new_proc (\<lambda>p.
            bindM (in_world (build_proc (tcat cat) fcinfo row)) (\<lambda>f.
            bindM (fill_proc p f) (\<lambda>_.
            bindM (in_cache (function_cache_put p)) (\<lambda>_.
            returnM p))))
          else
            bindM (needM NullDeref pinfo) (\<lambda>p.
            bindM (in_cache (set_unchanged p)) (\<lambda>_.
            returnM p)))))"

section \<open>The cache as the client sees it\<close>

text \<open>
  What \<open>get_proc_info\<close> relies on: \<open>cget\<close> and \<open>cput\<close> work on a list of entries, most recently
  used first, whose structures stay at their addresses while they are held, and only an
  entry that leaves the list is freed.
\<close>

lemma lru_find_put [simp]: "lru_find (funcOid f) (lru_put f l) = Some f"
  by (simp add: lru_put_def lru_find_def)

lemma lru_touch_put [simp]: "lru_touch (funcOid f) (lru_put f l) = lru_put f l"
proof -
  have eq: "filter (\<lambda>g. funcOid g \<noteq> funcOid f) (lru_put f l) = tl (lru_put f l)"
    by (auto simp: lru_put_def filter_id_conv dest!: in_set_takeD)
  show ?thesis unfolding lru_touch_def lru_find_put option.case eq by (simp add: lru_put_def)
qed

locale proc_cache =
  fixes cget :: "oid \<Rightarrow> ('s, procptr option) prog"
    and cput :: "procptr \<Rightarrow> ('s, unit) prog"
    and inv :: "'s \<Rightarrow> bool"
    and view :: "'s \<Rightarrow> plcProcInfo list"
    and held :: "'s \<Rightarrow> procptr set"
    and mem :: "'s \<Rightarrow> procptr \<Rightarrow> plcProcInfo option"
  assumes get_law: "inv s \<Longrightarrow> \<exists>r s'. cget oid s = Ok r s' \<and> inv s' \<and> mem s' = mem s \<and> held s' = held s
      \<and> view s' = lru_touch oid (view s)
      \<and> (case r of None \<Rightarrow> lru_find oid (view s) = None
         | Some p \<Rightarrow> p \<in> held s \<and> mem s p = lru_find oid (view s) \<and> mem s p \<noteq> None)"
    and put_law: "inv s \<Longrightarrow> mem s p = Some f \<Longrightarrow> p \<notin> held s \<Longrightarrow> \<exists>s'. cput p s = Ok () s' \<and> inv s'
      \<and> view s' = lru_put f (view s) \<and> p \<in> held s' \<and> held s' \<subseteq> insert p (held s)
      \<and> mem s' = (\<lambda>q. if q \<in> held s \<and> q \<notin> held s' then None else mem s q)"
begin

lemma get_find:
  assumes "inv s" and "lru_find oid (view s) = Some f"
  shows "\<exists>p s'. cget oid s = Ok (Some p) s' \<and> inv s' \<and> mem s' p = Some f \<and> p \<in> held s'
    \<and> mem s' = mem s \<and> held s' = held s \<and> view s' = lru_touch oid (view s)"
  using get_law [OF assms(1), of oid] assms(2) by (auto split: option.splits)

lemma get_miss:
  assumes "inv s" and "lru_find oid (view s) = None"
  shows "\<exists>s'. cget oid s = Ok None s' \<and> inv s' \<and> mem s' = mem s \<and> held s' = held s \<and> view s' = view s"
proof -
  obtain r s' where "cget oid s = Ok r s'" "inv s'" "mem s' = mem s" "held s' = held s" "view s' = view s"
    and r: "case r of None \<Rightarrow> True | Some p \<Rightarrow> mem s p = lru_find oid (view s) \<and> mem s p \<noteq> None"
    using get_law [OF assms(1), of oid] unfolding lru_touch_def assms(2)
    by (elim exE conjE) (auto split: option.splits)
  moreover have "r = None" using r assms(2) by (cases r) auto
  ultimately show ?thesis by auto
qed

text \<open>What was put is found, and stays in front.\<close>

lemma put_get:
  assumes "inv s" and "mem s p = Some f" and "p \<notin> held s"
  shows "\<exists>q s'. bindM (cput p) (\<lambda>_. cget (funcOid f)) s = Ok (Some q) s' \<and> inv s' \<and> mem s' q = Some f
    \<and> view s' = lru_put f (view s)"
proof -
  obtain s1 where s1: "cput p s = Ok () s1" "inv s1" "view s1 = lru_put f (view s)"
    using put_law [OF assms] by blast
  moreover have "lru_find (funcOid f) (view s1) = Some f" "lru_touch (funcOid f) (view s1) = view s1"
    by (simp_all add: s1(3) lru_touch_put)
  ultimately show ?thesis using get_find [OF s1(2)] by fastforce
qed

end

interpretation pc: proc_cache function_cache_get function_cache_put cache_inv entries "\<lambda>s. set (ptrs s)" procs
proof
  fix s oid
  assume inv: "cache_inv s"
  obtain r s' where r: "function_cache_get oid s = Ok r s'" and g: "got oid s r s'"
    using cache_get_spec [OF inv] by blast
  have "p \<in> set (ptrs s) \<and> ptrs s' = p # remove1 p (ptrs s) \<Longrightarrow> set (ptrs s') = set (ptrs s)" for p
    using holds_ptrs [OF inv] by (auto simp: holds_def set_remove1_eq)
  with r g show "\<exists>r s'. function_cache_get oid s = Ok r s' \<and> cache_inv s' \<and> procs s' = procs s
      \<and> set (ptrs s') = set (ptrs s) \<and> entries s' = lru_touch oid (entries s)
      \<and> (case r of None \<Rightarrow> lru_find oid (entries s) = None
         | Some p \<Rightarrow> p \<in> set (ptrs s) \<and> procs s p = lru_find oid (entries s) \<and> procs s p \<noteq> None)"
    by (auto simp: got_def split: option.splits)
next
  fix s p f
  assume "cache_inv s" "procs s p = Some f" "p \<notin> set (ptrs s)"
  from cache_put_spec [OF this] show "\<exists>s'. function_cache_put p s = Ok () s' \<and> cache_inv s'
      \<and> entries s' = lru_put f (entries s) \<and> p \<in> set (ptrs s') \<and> set (ptrs s') \<subseteq> insert p (set (ptrs s))
      \<and> procs s' = (\<lambda>q. if q \<in> set (ptrs s) \<and> q \<notin> set (ptrs s') then None else procs s q)"
    by (auto simp: put_done_def)
qed

section \<open>Validity and building\<close>

lemma type_valid_quiet: "quiet (plc_type_valid cat ti) (\<lambda>b. b = info_current cat ti)"
proof (induction ti)
  case (TypeInfo f subs)
  show ?case
    unfolding plc_type_valid.simps
    by (rule quiet_bind [OF quiet_allM [where P = "info_current cat"]])
      (auto intro!: quiet_intros simp: TypeInfo)
qed

lemma type_valid_run: "info_current cat ti \<Longrightarrow> plc_type_valid cat ti s = Ok True s"
proof (induction ti)
  case (TypeInfo f subs)
  then have "allM (plc_type_valid cat) subs s = Ok True s" by (intro allM_run) auto
  with TypeInfo.prems show ?case by (auto simp: returnM_def)
qed

definition types_of :: "plcProcInfo \<Rightarrow> plcTypeInfo set" where
  "types_of f = insert (rettype f) (set (argtypes f))"

text \<open>The cached description is that of the catalog's row, and so are its types.\<close>

definition proc_current :: "catalog \<Rightarrow> pg_proc_row \<Rightarrow> plcProcInfo \<Rightarrow> bool" where
  "proc_current cat row f \<longleftrightarrow> fn_xmin f = pr_xmin row \<and> fn_tid f = pr_tid row
     \<and> (\<forall>t \<in> types_of f. info_current cat t)"

lemma procedure_valid_none: "plc_procedure_valid cat None row s = Ok False s"
  by (simp add: plc_procedure_valid_def returnM_def)

lemma procedure_valid_ensures:
  assumes "procs (cache s) p = Some f"
  shows "ensures (plc_procedure_valid cat (Some p) row s) (\<lambda>b t. t = s \<and> b = proc_current cat row f)
    (\<lambda>e t. t = s) (\<lambda>t. False)"
proof -
  have "quiet (if fn_xmin f = pr_xmin row \<and> fn_tid f = pr_tid row then
            bindM (allM (plc_type_valid cat) (argtypes f)) (\<lambda>valid.
            if valid then plc_type_valid cat (rettype f) else returnM False)
          else returnM False) (\<lambda>b. b = proc_current cat row f)"
    by (auto intro!: quiet_intros quiet_bind [OF quiet_allM [where P = "info_current cat"]]
        type_valid_quiet quiet_mono [OF type_valid_quiet] simp: proc_current_def types_of_def)
  from quietD [OF this, of s] assms show ?thesis
    by (simp add: plc_procedure_valid_def bindM_def via_def deref_def)
qed

lemma procedure_valid_run:
  assumes "procs (cache s) p = Some f" and "proc_current cat row f"
  shows "plc_procedure_valid cat (Some p) row s = Ok True s"
proof -
  have "allM (plc_type_valid cat) (argtypes f) s = Ok True s"
    using assms(2) by (intro allM_run type_valid_run) (simp add: proc_current_def types_of_def)
  with assms show ?thesis
    by (simp add: plc_procedure_valid_def bindM_def via_def deref_def proc_current_def types_of_def type_valid_run)
qed

text \<open>A description made from the row.\<close>

definition from_row :: "pg_proc_row \<Rightarrow> cstr \<Rightarrow> bool" where
  "from_row row nm \<longleftrightarrow> nm = None \<or> (\<exists>nms. pr_argnames row = Some nms \<and> nm \<in> set nms)"

definition built :: "catalog \<Rightarrow> call_info \<Rightarrow> pg_proc_row \<Rightarrow> plcProcInfo \<Rightarrow> bool" where
  "built cat fcinfo row f \<longleftrightarrow> funcOid f = fn_oid fcinfo \<and> fn_xmin f = pr_xmin row \<and> fn_tid f = pr_tid row
     \<and> proc_hasChanged f = 1 \<and> Some (proc_src f) = pr_src row \<and> Some (proc_name f) = pr_name row
     \<and> proc_nargs f = of_nat (length (pr_argtypes row))
     \<and> length (argtypes f) = length (pr_argtypes row) \<and> length (argnames f) = length (pr_argtypes row)
     \<and> (\<forall>nm \<in> set (argnames f). from_row row nm)
     \<and> (\<forall>t \<in> types_of f. filled_ok cat (result_desc fcinfo) False False t)"

lemma strdup_quiet: "quiet (strdup s) (\<lambda>x. x = s)"
  by (rule quiet_strengthen [OF quiet_strdup]) (simp add: strdup_Ok)

lemma arg_names_quiet:
  "quiet (arg_names cat row) (\<lambda>nms. length nms = length (pr_argtypes row) \<and> (\<forall>nm \<in> set nms. from_row row nm))"
proof -
  let ?row = "\<lambda>nms. length nms = length (pr_argtypes row) \<and> (\<forall>nm \<in> set nms. from_row row nm)"
  have name: "quiet (arg_name nm) (\<lambda>x. x = None \<or> x = nm)" for nm
    unfolding arg_name_def
    by (intro quiet_case_option quiet_bind [OF strdup_quiet] quiet_return) auto
  have map: "quiet (mapM arg_name nms) ?row" if "?row nms" for nms
  proof (rule quiet_mono [OF quiet_mapM [OF name]])
    fix ys
    assume ys: "list_all2 (\<lambda>nm x. x = None \<or> x = nm) nms ys"
    have "from_row row y" if "y \<in> set ys" for y
      using list_all2_member [OF ys that] \<open>?row nms\<close> by (auto simp: from_row_def)
    with that show "?row ys" using list_all2_lengthD [OF ys] by simp
  qed
  show ?thesis
    unfolding arg_names_def Let_def
  proof (rule quiet_bind [where P = ?row], goal_cases)
    case 1
    show ?case by (auto intro!: quiet_intros simp: from_row_def)
  next
    case (2 nms)
    then show ?case by (intro quiet_bind_any [OF quiet_alloc] map)
  qed
qed

lemma top_string_quiet: "quiet (top_string m s) (\<lambda>x. Some x = s)"
  unfolding top_string_def by (auto intro!: quiet_intros intro: quiet_mono [OF strdup_quiet])

text \<open>The array of names must have as many elements as there are input arguments.\<close>

lemma build_proc_mismatch:
  assumes "pr_argtypes row \<noteq> []" and "pr_argnames row = Some nms" and "length nms \<noteq> length (pr_argtypes row)"
  shows "quiet (build_proc cat fcinfo row) (\<lambda>_. False)"
proof -
  have fill: "quiet (fill_type_info cat rd oid) (\<lambda>_. True)" for rd oid
    unfolding fill_type_info_def by (rule fill_quiet_any)
  have "quiet (arg_names cat row) (\<lambda>_. False)"
    unfolding arg_names_def Let_def
    by (rule quiet_bind [where P = "\<lambda>_. False"]) (use assms in \<open>auto intro!: quiet_intros\<close>)
  then have "quiet (if 0 < length (pr_argtypes row) then
              bindM (plc_alloc (size_mult (length (pr_argtypes row)) SIZEOF_plcTypeInfo)) (\<lambda>_.
              bindM (mapM (fill_type_info cat (result_desc fcinfo)) (pr_argtypes row)) (\<lambda>ts.
              bindM (arg_names cat row) (\<lambda>nms.
              returnM (ts, nms))))
            else returnM ([], [])) (\<lambda>_. False)"
    using assms(1)
    by (auto intro!: quiet_bind_any [OF quiet_alloc] quiet_bind_any [OF quiet_mapM_any [OF fill]]
        elim!: quiet_bind)
  from quiet_bind [OF this] show ?thesis
    unfolding build_proc_def by (auto intro!: quiet_bind_any [OF fill])
qed

text \<open>\<open>record\<close> has no description without a row type.\<close>

lemma record_without_desc: "quiet (fill_type_info cat None RECORDOID) (\<lambda>_. False)"
proof -
  have inner: "quiet (fill_type_info_inner cat None oid True False) (\<lambda>_. True)" for oid by (rule fill_quiet_any)
  have desc: "quiet (row_desc cat None RECORDOID row f) (\<lambda>_. False)" for row f
    unfolding row_desc_def by (rule quiet_bind [where P = "\<lambda>_. False"]) (auto intro: quiet_elog)
  show ?thesis
    unfolding fill_type_info_def fill_type_info_inner.simps [of cat None RECORDOID]
    by (auto intro!: quiet_case_option quiet_elog quiet_bind [OF desc]
        quiet_bind [where P = "\<lambda>_. True"] quiet_if quiet_alloc inner quiet_return)
qed

text \<open>When the types can be described it is \<open>FATAL\<close>.\<close>

lemma build_proc_fatal:
  assumes w: "alloc_all w" and names: "pr_argtypes row \<noteq> []" "pr_argnames row = Some nms" "length nms \<noteq> length (pr_argtypes row)"
    and n: "length (pr_argtypes row) \<le> 100" and tx: "pg_type cat TEXTOID \<noteq> None"
    and types: "\<forall>oid \<in> set (pr_rettype row # pr_argtypes row). \<exists>ti. fill_type_info cat (result_desc fcinfo) oid w = Ok ti w"
  shows "build_proc cat fcinfo row w = Elog (E_fatal ''something bad happened, nargs != len'') w"
proof -
  let ?fill = "fill_type_info cat (result_desc fcinfo)"
  obtain rt where rt: "?fill (pr_rettype row) w = Ok rt w" using types by auto
  have "\<forall>oid \<in> set (pr_argtypes row). \<exists>ti. ?fill oid w = Ok ti w \<and> True" using types by simp
  from mapM_exists [where f = ?fill and P = "\<lambda>_ _. True", OF this] obtain ts where ts: "mapM ?fill (pr_argtypes row) w = Ok ts w" by blast
  have "int (size_mult (length (pr_argtypes row)) SIZEOF_plcTypeInfo) \<le> MaxAllocSize"
    using n by (simp add: size_mult_def SIZEOF_plcTypeInfo_def MaxAllocSize_def)
  note alloc = alloc_all_run [OF w this]
  have "arg_names cat row w = Elog (E_fatal ''something bad happened, nargs != len'') w"
    using names(2,3) tx by (simp add: arg_names_def Let_def elogM_def)
  with alloc rt ts names(1) show ?thesis by (simp add: build_proc_def)
qed

lemma build_proc_quiet: "quiet (build_proc cat fcinfo row) (built cat fcinfo row)"
proof -
  let ?ok = "filled_ok cat (result_desc fcinfo) False False"
  have fill: "quiet (fill_type_info cat (result_desc fcinfo) oid) ?ok" for oid
    unfolding fill_type_info_def by (rule fill_quiet)
  have "quiet (mapM (fill_type_info cat (result_desc fcinfo)) (pr_argtypes row))
     (\<lambda>ts. length ts = length (pr_argtypes row) \<and> (\<forall>t \<in> set ts. ?ok t))"
    by (rule quiet_mono [OF quiet_mapM [where P = "\<lambda>_. ?ok"]])
      (auto intro: fill dest: list_all2_lengthD list_all2_member)
  note args = this
  let ?args = "\<lambda>(ts, nms). length ts = length (pr_argtypes row) \<and> length nms = length (pr_argtypes row)
     \<and> (\<forall>nm \<in> set nms. from_row row nm)
     \<and> (\<forall>t \<in> set ts. ?ok t)"
  have both: "quiet (if 0 < length (pr_argtypes row) then
              bindM (plc_alloc (size_mult (length (pr_argtypes row)) SIZEOF_plcTypeInfo)) (\<lambda>_.
              bindM (mapM (fill_type_info cat (result_desc fcinfo)) (pr_argtypes row)) (\<lambda>ts.
              bindM (arg_names cat row) (\<lambda>nms.
              returnM (ts, nms))))
            else returnM ([], [])) ?args"
    by (intro quiet_if quiet_bind_any [OF quiet_alloc] quiet_bind [OF args] quiet_bind [OF arg_names_quiet]
        quiet_return) auto
  show ?thesis
    unfolding build_proc_def
    by (rule quiet_bind [OF fill], rule quiet_bind [OF both],
        clarify, rule quiet_bind [OF top_string_quiet], rule quiet_bind [OF top_string_quiet], rule quiet_return)
      (auto simp: built_def types_of_def)
qed

section \<open>The description of a function\<close>

text \<open>
  The complete structures are those the cache holds: none is freed while it is held. The unfinished ones are none of
  these.
\<close>

definition backend_inv :: "backend \<Rightarrow> bool" where
  "backend_inv s \<longleftrightarrow> cache_inv (cache s) \<and> (\<forall>p. procs (cache s) p \<noteq> None \<longleftrightarrow> p \<in> set (ptrs (cache s)))
     \<and> (\<forall>p \<in> set (ptrs (cache s)). p < next_proc s)
     \<and> (\<forall>p \<in> unfinished s. p < next_proc s \<and> p \<notin> set (ptrs (cache s)))"

text \<open>The state with the next structure allocated and nothing in it.\<close>

abbreviation begun :: "backend \<Rightarrow> backend" where
  "begun s \<equiv> s\<lparr>next_proc := Suc (next_proc s), unfinished := insert (next_proc s) (unfinished s)\<rparr>"

lemma in_world_raises:
  assumes "quiet m (\<lambda>_. False)"
  shows "ensures (in_world m s) (\<lambda>_ _. False) (\<lambda>e t. t = s \<and> m (bw s) = Elog e (bw s)) (\<lambda>_. False)"
  using quietD [OF assms, of "bw s"] by (cases "m (bw s)") (auto simp: via_def)

lemma begun_inv: "backend_inv s \<Longrightarrow> backend_inv (begun s)"
  by (auto simp: backend_inv_def)

lemma new_proc_run: "alloc_all (bw s) \<Longrightarrow> new_proc s = Ok (next_proc s) (begun s)"
  using alloc_all_run [of "bw s" SIZEOF_plcProcInfo]
  by (simp add: new_proc_def via_def SIZEOF_plcProcInfo_def MaxAllocSize_def Let_def)

lemma new_proc_ensures:
  "ensures (new_proc s) (\<lambda>p t. p = next_proc s \<and> t = begun s) (\<lambda>e t. t = s \<and> \<not> alloc_all (bw s)) (\<lambda>t. False)"
proof (cases "alloc_all (bw s)")
  case False
  then show ?thesis
    unfolding new_proc_def
    by (intro ensures_bindM [where Q' = "\<lambda>_ t. t = s"] ensures_mono [OF quietD [OF in_world.via_quiet [OF quiet_alloc]]])
      (auto simp: Let_def)
qed (simp add: new_proc_run)

lemma lru_put_touch [simp]: "lru_put f (lru_touch (funcOid f) l) = lru_put f l"
  by (auto simp: lru_put_def lru_touch_def lru_find_def find_Some_iff split: option.splits)

text \<open>Addresses are not used twice: an old one is freed or holds the description of the same function.\<close>

definition addresses_kept :: "backend \<Rightarrow> backend \<Rightarrow> bool" where
  "addresses_kept s s' \<longleftrightarrow> next_proc s \<le> next_proc s'
     \<and> (\<forall>q h. q < next_proc s \<longrightarrow> procs (cache s') q = Some h \<longrightarrow> (\<exists>g. procs (cache s) q = Some g \<and> funcOid g = funcOid h))"

lemma addresses_kept_trans:
  assumes "addresses_kept s t" and "addresses_kept t u"
  shows "addresses_kept s u"
  using assms unfolding addresses_kept_def by (metis le_trans less_le_trans)

definition put_new :: "catalog \<Rightarrow> call_info \<Rightarrow> pg_proc_row \<Rightarrow> backend \<Rightarrow> procptr \<Rightarrow> backend \<Rightarrow> bool" where
  "put_new cat fcinfo row s p s' \<longleftrightarrow> backend_inv s' \<and> s' = s\<lparr>cache := cache s', next_proc := next_proc s'\<rparr>
     \<and> addresses_kept s s'
     \<and> (\<exists>f. procs (cache s') p = Some f \<and> built cat fcinfo row f
           \<and> entries (cache s') = lru_put f (entries (cache s)))"

lemma put_fresh:
  assumes inv: "backend_inv s" and f: "built cat fcinfo row f"
  shows "\<exists>t. bindM (fill_proc (next_proc s) f) (\<lambda>_. bindM (in_cache (function_cache_put (next_proc s))) (\<lambda>_.
      returnM (next_proc s))) (begun s) = Ok (next_proc s) t
    \<and> put_new cat fcinfo row s (next_proc s) t"
proof -
  let ?p = "next_proc s"
  let ?c = "(cache s)\<lparr>procs := (procs (cache s))(?p \<mapsto> f)\<rparr>"
  have fresh: "?p \<notin> set (ptrs (cache s))" "?p \<notin> unfinished s" using inv by (auto simp: backend_inv_def)
  have same: "ptrs ?c = ptrs (cache s)" "entries ?c = entries (cache s)"
    using fresh by (auto simp: ptrs_def entries_def)
  have "cache_inv ?c"
    using inv fresh same by (auto simp: backend_inv_def cache_inv_def)
  then obtain c where c: "function_cache_put ?p ?c = Ok () c" "cache_inv c" "entries c = lru_put f (entries (cache s))"
    "?p \<in> set (ptrs c)" "set (ptrs c) \<subseteq> insert ?p (set (ptrs (cache s)))"
    and pr: "procs c = (\<lambda>q. if q \<in> set (ptrs (cache s)) \<and> q \<notin> set (ptrs c) then None else procs ?c q)"
    using pc.put_law [of ?c ?p f] fresh unfolding same by auto
  let ?s = "s\<lparr>next_proc := Suc ?p, cache := c\<rparr>"
  have "procs c ?p = Some f" using fresh by (simp add: pr)
  moreover have "procs c q \<noteq> None \<longleftrightarrow> q \<in> set (ptrs c)" for q
    using inv c(4,5) by (auto simp: pr backend_inv_def)
  moreover have "\<forall>q \<in> set (ptrs c). q < Suc ?p"
    using inv c(5) by (fastforce simp: backend_inv_def)
  moreover have "\<forall>q \<in> unfinished s. q < Suc ?p \<and> q \<notin> set (ptrs c)"
    using inv c(5) by (fastforce simp: backend_inv_def)
  moreover have "addresses_kept s ?s" by (simp add: addresses_kept_def pr)
  ultimately have "put_new cat fcinfo row s ?p ?s"
    using c f by (simp add: put_new_def backend_inv_def)
  with c(1) fresh(2) show ?thesis
    by (simp add: fill_proc_def bindM_def via_def returnM_def)
qed

definition build_steps :: "catalog \<Rightarrow> call_info \<Rightarrow> pg_proc_row \<Rightarrow> (backend, procptr) prog" where
  "build_steps cat fcinfo row =
     bindM new_proc (\<lambda>p.
     bindM (in_world (build_proc cat fcinfo row)) (\<lambda>f.
     bindM (fill_proc p f) (\<lambda>_.
     bindM (in_cache (function_cache_put p)) (\<lambda>_.
     returnM p))))"

lemma get_proc_missed:
  assumes "pg_proc cat (fn_oid fcinfo) = Some row" and "function_cache_get (fn_oid fcinfo) (cache s) = Ok None c"
  shows "get_proc_info cat fcinfo s = build_steps (tcat cat) fcinfo row (s\<lparr>cache := c\<rparr>)"
proof -
  have "in_cache (function_cache_get (fn_oid fcinfo)) s = Ok None (s\<lparr>cache := c\<rparr>)" using assms(2) by (simp add: via_def)
  then show ?thesis unfolding get_proc_info_def build_steps_def assms(1) by (simp add: bindM_Ok [OF procedure_valid_none])
qed

lemma build_put:
  assumes "backend_inv s"
  shows "ensures (build_steps cat fcinfo row s) (put_new cat fcinfo row s) (\<lambda>e t. t = s \<or> t = begun s) (\<lambda>t. False)"
  unfolding build_steps_def
proof (rule ensures_bindM [where Q' = "\<lambda>p t. p = next_proc s \<and> t = begun s"], goal_cases)
  case 1
  show ?case by (rule ensures_mono [OF new_proc_ensures]) auto
next
  case (2 p t)
  then have t: "p = next_proc s" "t = begun s" by auto
  show ?case
    unfolding t
  proof (rule ensures_bindM [where Q' = "\<lambda>f u. built cat fcinfo row f \<and> u = begun s"], goal_cases)
    case 1
    show ?case by (rule ensures_mono [OF quietD [OF in_world.via_quiet [OF build_proc_quiet]]]) auto
  next
    case (2 f u)
    with put_fresh [OF assms, of cat fcinfo row f] show ?case by auto
  qed
qed

lemma holds_update:
  assumes "holds c ps" and "procs c p = Some f" and "funcOid f' = funcOid f"
  shows "holds (c\<lparr>procs := (procs c)(p \<mapsto> f')\<rparr>) ps"
proof -
  have eq: "map (\<lambda>q. funcOid (the (((procs c)(p \<mapsto> f')) q))) ps = map (\<lambda>q. funcOid (the (procs c q))) ps"
    using assms by auto
  have "distinct (map (\<lambda>q. funcOid (the (((procs c)(p \<mapsto> f')) q))) ps)"
    unfolding eq using assms(1) by (simp add: holds_def)
  with assms(1) show ?thesis by (simp add: holds_def)
qed

text \<open>The reuse of the first entry.\<close>

lemma entries_touched:
  assumes "cache_inv c" and "procs c p = Some f" and "p \<in> set (ptrs c)"
    and "entries c = f # l" and "funcOid f' = funcOid f"
  shows "entries (c\<lparr>procs := (procs c)(p \<mapsto> f')\<rparr>) = f' # l"
    and "cache_inv (c\<lparr>procs := (procs c)(p \<mapsto> f')\<rparr>)"
    and "ptrs (c\<lparr>procs := (procs c)(p \<mapsto> f')\<rparr>) = ptrs c"
proof -
  let ?c = "c\<lparr>procs := (procs c)(p \<mapsto> f')\<rparr>"
  note inv = holds_inv [OF holds_update [OF holds_ptrs [OF assms(1)] assms(2,5)]]
  then show "cache_inv ?c" and "ptrs ?c = ptrs c" by simp_all
  obtain q qs where ps: "ptrs c = q # qs" and q: "the (procs c q) = f" "map (\<lambda>p. the (procs c p)) qs = l"
    using assms(4) by (cases "ptrs c") (auto simp: entries_def)
  have dist: "distinct (map funcOid (entries c))" "distinct (ptrs c)"
    using assms(1) by (simp_all add: cache_inv_def)
  have "q = p"
  proof (rule ccontr)
    assume "q \<noteq> p"
    with assms(3) ps have "p \<in> set qs" by simp
    then have "f \<in> set l" using q(2) assms(2) by force
    with dist(1) assms(4) show False by auto
  qed
  with dist ps q show "entries ?c = f' # l"
    using inv by (auto simp: entries_def)
qed

lemma lru_put_hit:
  assumes "lru_find oid l = Some g" and "funcOid f = oid" and "length l \<le> PLC_FUNCTION_CACHE_SIZE"
  shows "lru_put f l = f # filter (\<lambda>h. funcOid h \<noteq> oid) l"
proof -
  have "g \<in> set l" "funcOid g = oid" using assms(1) by (auto simp: lru_find_def find_Some_iff)
  then have "length (filter (\<lambda>h. funcOid h \<noteq> oid) l) < length l"
    by (auto intro: length_filter_less)
  with assms(2,3) show ?thesis by (simp add: lru_put_def)
qed

text \<open>The outcome of \<open>get_proc_info\<close>: the cached entry while it is current, a new one otherwise.\<close>

definition proc_got :: "catalog \<Rightarrow> call_info \<Rightarrow> pg_proc_row \<Rightarrow> backend \<Rightarrow> procptr \<Rightarrow> backend \<Rightarrow> bool" where
  "proc_got cat fcinfo row s p s' \<longleftrightarrow> backend_inv s' \<and> s' = s\<lparr>cache := cache s', next_proc := next_proc s'\<rparr>
     \<and> addresses_kept s s'
     \<and> (\<exists>f. procs (cache s') p = Some f \<and> entries (cache s') = lru_put f (entries (cache s))
           \<and> (case lru_find (fn_oid fcinfo) (entries (cache s)) of
                None \<Rightarrow> built cat fcinfo row f
              | Some g \<Rightarrow> if proc_current cat row g then f = g\<lparr>proc_hasChanged := 0\<rparr> else built cat fcinfo row f))"

text \<open>When it raises, the cache is as after a lookup, and at most one structure has been allocated, which nothing frees.\<close>

definition proc_raised :: "oid \<Rightarrow> backend \<Rightarrow> backend \<Rightarrow> bool" where
  "proc_raised oid s s' \<longleftrightarrow> backend_inv s' \<and> s' = s\<lparr>cache := cache s', next_proc := next_proc s', unfinished := unfinished s'\<rparr>
     \<and> entries (cache s') = lru_touch oid (entries (cache s))
     \<and> (\<forall>p. procs (cache s') p = procs (cache s) p)
     \<and> (next_proc s' = next_proc s \<and> unfinished s' = unfinished s
        \<or> next_proc s' = Suc (next_proc s) \<and> unfinished s' = insert (next_proc s) (unfinished s))"

lemma proc_touch:
  assumes "cache_inv c"
  shows "\<exists>r c'. function_cache_get oid c = Ok r c' \<and> cache_inv c' \<and> procs c' = procs c
    \<and> set (ptrs c') = set (ptrs c) \<and> entries c' = lru_touch oid (entries c)
    \<and> (r = None \<longleftrightarrow> lru_find oid (entries c) = None)
    \<and> (\<forall>p. r = Some p \<longrightarrow> p \<in> set (ptrs c) \<and> procs c p = lru_find oid (entries c) \<and> procs c p \<noteq> None)"
proof (cases "lru_find oid (entries c)")
  case None
  with pc.get_miss [OF assms None] show ?thesis by (auto simp: lru_touch_def)
next
  case (Some f)
  with pc.get_find [OF assms Some] show ?thesis by fastforce
qed

lemma get_proc_info_spec:
  assumes inv: "backend_inv s" and row: "pg_proc cat (fn_oid fcinfo) = Some row"
  shows "ensures (get_proc_info cat fcinfo s) (proc_got (tcat cat) fcinfo row s)
    (\<lambda>e. proc_raised (fn_oid fcinfo) s) (\<lambda>t. False)"
proof -
  let ?oid = "fn_oid fcinfo" and ?cat = "tcat cat"
  have cinv: "cache_inv (cache s)" using inv by (simp add: backend_inv_def)
  obtain r c where r: "function_cache_get ?oid (cache s) = Ok r c" "cache_inv c" "procs c = procs (cache s)"
    "set (ptrs c) = set (ptrs (cache s))" "entries c = lru_touch ?oid (entries (cache s))"
    "r = None \<longleftrightarrow> lru_find ?oid (entries (cache s)) = None"
    and hit: "\<forall>p. r = Some p \<longrightarrow> p \<in> set (ptrs (cache s)) \<and> procs (cache s) p = lru_find ?oid (entries (cache s))
      \<and> procs (cache s) p \<noteq> None"
    using proc_touch [OF cinv, of ?oid] by (elim exE conjE) (rule that)
  let ?s = "s\<lparr>cache := c\<rparr>"
  have inv1: "backend_inv ?s" using inv r by (simp add: backend_inv_def)
  have raised: "proc_raised ?oid s ?s" "proc_raised ?oid s (begun ?s)"
    using inv1 begun_inv [OF inv1] r(3,5) by (simp_all add: proc_raised_def)
  let ?build = "build_steps ?cat fcinfo row"
  let ?reuse = "bindM (needM NullDeref r) (\<lambda>p. bindM (in_cache (set_unchanged p)) (\<lambda>_. returnM p))"
  have run: "get_proc_info cat fcinfo s
    = bindM (plc_procedure_valid ?cat r row) (\<lambda>valid. if \<not> valid then ?build else ?reuse) ?s"
  proof -
    have "in_cache (function_cache_get ?oid) s = Ok r ?s" using r(1) by (simp add: via_def)
    then show ?thesis unfolding get_proc_info_def build_steps_def row by simp
  qed
  have build: "ensures (?build ?s) (proc_got ?cat fcinfo row s) (\<lambda>e. proc_raised ?oid s) (\<lambda>t. False)"
    if "\<forall>g. lru_find ?oid (entries (cache s)) = Some g \<longrightarrow> \<not> proc_current ?cat row g"
  proof (rule ensures_mono [OF build_put [OF inv1]])
    fix p s'
    assume "put_new ?cat fcinfo row ?s p s'"
    then obtain f where f: "backend_inv s'" "s' = s\<lparr>cache := cache s', next_proc := next_proc s'\<rparr>" "addresses_kept s s'"
      "procs (cache s') p = Some f" "built ?cat fcinfo row f" "entries (cache s') = lru_put f (entries c)"
      using r(3) by (auto simp: put_new_def addresses_kept_def)
    then have "entries (cache s') = lru_put f (entries (cache s))"
      using r(5) lru_put_touch [of f] by (simp add: built_def)
    with f that show "proc_got ?cat fcinfo row s p s'"
      unfolding proc_got_def by (auto split: option.splits)
  qed (use raised in auto)
  show ?thesis
  proof (cases r)
    case None
    with r(6) build show ?thesis by (simp add: run bindM_Ok [OF procedure_valid_none])
  next
    case (Some p)
    have p: "p \<in> set (ptrs c)" using hit [rule_format, OF Some] r(4) by simp
    obtain g where g: "procs (cache s) p = Some g" using hit [rule_format, OF Some] by blast
    then have g: "procs (cache s) p = Some g" "lru_find ?oid (entries (cache s)) = Some g"
      using hit [rule_format, OF Some] by simp_all
    have g': "procs (cache ?s) p = Some g" using g r(3) by simp
    have oid: "funcOid g = ?oid" using g(2) by (auto simp: lru_find_def find_Some_iff)
    let ?f = "g\<lparr>proc_hasChanged := 0\<rparr>"
    let ?c = "c\<lparr>procs := (procs c)(p \<mapsto> ?f)\<rparr>"
    have reuse: "ensures (?reuse ?s) (proc_got ?cat fcinfo row s) (\<lambda>e. proc_raised ?oid s) (\<lambda>t. False)"
      if "proc_current ?cat row g"
    proof -
      have "entries c = g # filter (\<lambda>h. funcOid h \<noteq> ?oid) (entries (cache s))"
        using r(5) g(2) by (simp add: lru_touch_def)
      note touched = entries_touched [OF r(2) _ p this, of ?f]
      have "length (entries (cache s)) \<le> PLC_FUNCTION_CACHE_SIZE"
        using cinv by (simp add: cache_inv_def entries_def)
      note put = lru_put_hit [OF g(2) _ this, of ?f]
      have "proc_got ?cat fcinfo row s p (s\<lparr>cache := ?c\<rparr>)"
        using touched put g g' oid that inv1 r(3) by (auto simp: proc_got_def backend_inv_def addresses_kept_def)
      then show ?thesis
        using Some g' by (simp add: set_unchanged_def needM_def bindM_def via_def deref_def returnM_def)
    qed
    show ?thesis
      unfolding run Some
    proof (rule ensures_bindM [where Q' = "\<lambda>b t. t = ?s \<and> b = proc_current ?cat row g"], goal_cases)
      case 1
      show ?case
        by (rule ensures_mono [OF procedure_valid_ensures [OF g']]) (use raised in auto)
    next
      case (2 b t)
      then show ?case using build reuse g(2) Some by auto
    qed
  qed
qed

lemma same_proc:
  assumes "cache_inv c" and "p \<in> set (ptrs c)" and "q \<in> set (ptrs c)"
    and "funcOid (the (procs c p)) = funcOid (the (procs c q))"
  shows "p = q"
proof -
  have "inj_on (\<lambda>p. funcOid (the (procs c p))) (set (ptrs c))"
    using assms(1) by (simp add: cache_inv_def entries_def o_def distinct_map)
  with assms(2-4) show ?thesis by (simp add: inj_on_def)
qed

text \<open>A current entry is found again, whatever else the call says.\<close>

lemma get_proc_info_reuse:
  assumes inv: "backend_inv s" and row: "pg_proc cat (fn_oid fcinfo) = Some row"
    and p: "procs (cache s) p = Some g" "funcOid g = fn_oid fcinfo"
    and cur: "proc_current (tcat cat) row g"
  shows "\<exists>c. get_proc_info cat fcinfo s = Ok p (s\<lparr>cache := c\<rparr>) \<and> procs c p = Some (g\<lparr>proc_hasChanged := 0\<rparr>)
    \<and> backend_inv (s\<lparr>cache := c\<rparr>)"
proof -
  let ?oid = "fn_oid fcinfo"
  have cinv: "cache_inv (cache s)" and mem: "p \<in> set (ptrs (cache s))"
    using inv p by (auto simp: backend_inv_def)
  then have ent: "g \<in> set (entries (cache s))" "distinct (map funcOid (entries (cache s)))"
    using p by (force simp: entries_def cache_inv_def)+
  then have "lru_find ?oid (entries (cache s)) = Some g"
    using first_hit(1) [of g ?oid] p(2) by (metis split_list)
  from pc.get_find [OF cinv this] obtain q c where c: "function_cache_get ?oid (cache s) = Ok (Some q) c"
    "procs c q = Some g" "q \<in> set (ptrs c)" "procs c = procs (cache s)" "set (ptrs c) = set (ptrs (cache s))"
    by blast
  have "q = p" using same_proc [OF cinv, of q p] c p mem by simp
  let ?c = "c\<lparr>procs := (procs c)(p \<mapsto> g\<lparr>proc_hasChanged := 0\<rparr>)\<rparr>"
  have "get_proc_info cat fcinfo s = Ok p (s\<lparr>cache := ?c\<rparr>)"
    using \<open>q = p\<close> c procedure_valid_run [of "s\<lparr>cache := c\<rparr>" p g "tcat cat" row] cur row
    by (simp add: get_proc_info_def set_unchanged_def needM_def bindM_def via_def deref_def returnM_def)
  moreover have "procs ?c p = Some (g\<lparr>proc_hasChanged := 0\<rparr>)" by simp
  moreover have "backend_inv (s\<lparr>cache := ?c\<rparr>)"
    using get_proc_info_spec [OF inv row] calculation(1) by (simp add: proc_got_def)
  ultimately show ?thesis by blast
qed

lemma built_current: "built cat fcinfo row f \<Longrightarrow> coherent cat \<Longrightarrow> proc_current cat row f"
  by (simp add: built_def proc_current_def filled_ok_def)

lemma proc_got_current:
  assumes "proc_got cat fcinfo row s p s'" and "coherent cat"
  shows "\<exists>f. procs (cache s') p = Some f \<and> funcOid f = fn_oid fcinfo \<and> proc_current cat row f"
proof -
  obtain f where f: "procs (cache s') p = Some f"
    and case_f: "case lru_find (fn_oid fcinfo) (entries (cache s)) of
                None \<Rightarrow> built cat fcinfo row f
              | Some g \<Rightarrow> if proc_current cat row g then f = g\<lparr>proc_hasChanged := 0\<rparr> else built cat fcinfo row f"
    using assms(1) unfolding proc_got_def by blast
  have new: "funcOid f = fn_oid fcinfo \<and> proc_current cat row f" if "built cat fcinfo row f"
    using that built_current [OF _ assms(2)] by (simp add: built_def)
  have "funcOid f = fn_oid fcinfo \<and> proc_current cat row f"
  proof (cases "lru_find (fn_oid fcinfo) (entries (cache s))")
    case None
    with case_f new show ?thesis by simp
  next
    case (Some g)
    then have g: "funcOid g = fn_oid fcinfo" by (auto simp: lru_find_def find_Some_iff)
    show ?thesis
    proof (cases "proc_current cat row g")
      case True
      with case_f Some have "f = g\<lparr>proc_hasChanged := 0\<rparr>" by simp
      with True g show ?thesis by (simp add: proc_current_def types_of_def)
    next
      case False
      with case_f Some new show ?thesis by simp
    qed
  qed
  with f show ?thesis by blast
qed

end
