(* ===== verification/Backend_Props.thy ===== *)
theory Backend_Props
  imports Proc_Info
begin

text \<open>
  The properties of the database side's bookkeeping: type descriptions, the function cache
  and the descriptions of functions.
\<close>

section \<open>Example inputs of the witnesses\<close>

text \<open>\<open>int4\<close>, \<open>text\<close>, \<open>int4[]\<close> and a composite type of relation 6000 with a dropped column.\<close>

definition ex_type_row :: "oid \<Rightarrow> oid \<Rightarrow> byte \<Rightarrow> pg_type_row" where
  "ex_type_row out elem kind = \<lparr>pt_output = out, pt_input = 42, pt_typmod = -1, pt_elem = elem,
     pt_typtype = kind, pt_name = [116]\<rparr>"

definition ex_desc :: tupdesc where
  "ex_desc = \<lparr>tdtypeid = 5000, tdtypmod = -1, td_attrs =
     [\<lparr>at_dropped = False, at_typid = 23, at_name = [97]\<rparr>, \<lparr>at_dropped = True, at_typid = 0, at_name = [46]\<rparr>,
      \<lparr>at_dropped = False, at_typid = 25, at_name = [98]\<rparr>]\<rparr>"

definition ex_cat :: catalog where
  "ex_cat = \<lparr>pg_type = (\<lambda>oid. if oid = 23 then Some (ex_type_row 43 0 98)
       else if oid = 25 then Some (ex_type_row 47 0 98)
       else if oid = 1007 then Some (ex_type_row F_ARRAY_OUT 23 98)
       else if oid = 5000 then Some (ex_type_row 2291 0 TYPTYPE_COMPOSITE) else None),
     type_io_data = (\<lambda>oid. (4, True, 105, 42)),
     rowtype_tupdesc = (\<lambda>oid m. if oid = 5000 then Some ex_desc else None),
     type_relid = (\<lambda>oid. 6000),
     pg_class = (\<lambda>oid. if oid = 6000 then Some (77, (1, 2)) else None)\<rparr>"

definition ex_proc_row :: pg_proc_row where
  "ex_proc_row = \<lparr>pr_xmin = 900, pr_tid = (3, 4), pr_rettype = 23, pr_argtypes = [5000, 1007],
     pr_argnames = None, pr_src = Some [120], pr_name = Some [102]\<rparr>"

definition ex_sys :: sys_catalog where
  "ex_sys = \<lparr>tcat = ex_cat, pg_proc = (\<lambda>oid. if oid = 100 then Some ex_proc_row else None)\<rparr>"

definition ex_call_info :: call_info where
  "ex_call_info = \<lparr>fn_oid = 100, fn_retset = False, call_trigger = False, result_desc = None, argdata = []\<rparr>"

definition ex_backend :: backend where
  "ex_backend = \<lparr>bw = world_of 4 [] [],
     cache = \<lparr>slots = replicate PLC_FUNCTION_CACHE_SIZE None, initialized = False, procs = (\<lambda>_. None)\<rparr>,
     next_proc = 0, unfinished = {}, connects = [], open_socks = 0, subxacts = 0, caller_context = 0, reports = [],
     spi = [], refusals = []\<rparr>"

definition ex_proc :: plcProcInfo where
  "ex_proc = \<lparr>funcOid = 100, fn_xmin = 1, fn_tid = (0, 0), proc_name = [], proc_src = [],
     proc_hasChanged = 1, rettype = TypeInfo zero_fields [], proc_retset = 0, proc_nargs = 0,
     argnames = [], argtypes = []\<rparr>"

lemma ex_cat_good [simp]: "good_catalog ex_cat None" "coherent ex_cat"
  by (auto simp: good_catalog_def coherent_def ex_cat_def ex_type_row_def good_name_def good_desc_def
      ex_desc_def RECORDOID_def split: if_splits)

lemma ex_sys_simps [simp]: "tcat ex_sys = ex_cat" "pg_proc ex_sys (fn_oid ex_call_info) = Some ex_proc_row"
  by (simp_all add: ex_sys_def ex_call_info_def)

lemma ex_cache_empty [simp]: "ptrs (cache ex_backend) = []" "entries (cache ex_backend) = []"
  "cache_inv (cache ex_backend)" "procs (cache ex_backend) = (\<lambda>_. None)"
  by (simp_all add: ex_backend_def ptrs_def entries_def cache_inv_def packed_def List.map_filter_def
      PLC_FUNCTION_CACHE_SIZE_def)

lemma ex_backend_inv [simp]: "backend_inv ex_backend" "unfinished ex_backend = {}" "next_proc ex_backend = 0"
  by (simp_all add: backend_inv_def) (simp_all add: ex_backend_def)

section \<open>Type descriptions\<close>

text \<open>
  C23: \<open>fill_type_info\<close> on catalogs whose composite types are those of their relations returns
  or raises, leaves everything else alone, and the description has the shape the rest of
  the code assumes: nested at most four deep, exactly one element type for an array and that
  not an array, subtypes otherwise only for a composite, and it is current in the catalogs
  it was made from.
\<close>

theorem type_info_shape:
  assumes "coherent cat"
  shows "ensures (fill_type_info cat rd oid w)
    (\<lambda>ti w'. w' = w \<and> wf_info ti \<and> info_depth ti \<le> 4 \<and> info_current cat ti \<and> \<not> attisdropped (info ti))
    (\<lambda>e w'. w' = w) (\<lambda>w'. False)"
  unfolding fill_type_info_def
  by (rule ensures_mono [OF quietD [OF fill_quiet]]) (use assms in \<open>auto simp: filled_ok_def info_bound_def\<close>)

lemma type_info_shape_witness:
  "ensures (fill_type_info ex_cat None 5000 (world_of 4 [] [])) (\<lambda>ti w'. info_depth ti \<le> 4 \<and> info_current ex_cat ti)
    (\<lambda>e w'. True) (\<lambda>w'. False)"
  by (rule ensures_mono [OF type_info_shape [of ex_cat None 5000 "world_of 4 [] []"]]) simp_all

text \<open>
  C13: the description of a type of the catalogs, copied into a message, is a type that travels
  (every name and every count fits the format), nested at most four deep, however many of its
  columns were dropped.
\<close>

theorem type_description_sendable:
  assumes "good_catalog cat rd" and "healthy 0 w"
  shows "ensures (bindM (fill_type_info cat rd oid) copy_type_info w)
    (\<lambda>t w'. w' = w \<and> ok_type t \<and> type_depth t \<le> 4) (\<lambda>e w'. w' = w) (\<lambda>w'. False)"
  unfolding fill_type_info_def
proof (rule ensures_bindM [OF quietD [OF fill_quiet]], clarify)
  fix ti
  assume "filled_ok cat rd False False ti"
  then have "wf_info ti" "named_info ti" "info_depth ti \<le> 4"
    using assms(1) by (simp_all add: filled_ok_def info_bound_def)
  moreover have "alloc_all w" using assms(2) by (simp add: healthy_def)
  ultimately show "ensures (copy_type_info ti w) (\<lambda>t w'. w' = w \<and> ok_type t \<and> type_depth t \<le> 4)
      (\<lambda>e w'. w' = w) (\<lambda>w'. False)"
    using type_of_info_ok [of ti] type_of_info_depth [of ti] by (simp add: copy_run)
qed

lemma type_description_sendable_witness:
  "ensures (bindM (fill_type_info ex_cat None 5000) copy_type_info (world_of 4 [] []))
    (\<lambda>t w'. ok_type t \<and> type_depth t \<le> 4) (\<lambda>e w'. True) (\<lambda>w'. False)"
  by (rule ensures_mono [OF type_description_sendable [of ex_cat None "world_of 4 [] []" 5000]]) simp_all

section \<open>The function cache\<close>

text \<open>
  C22: \<open>function_cache_get\<close> refines the lookup of a list that is kept in order of last use: it
  returns the address of the one entry for the function and moves it to the front, or
  NULL when there is none; no structure is changed or freed.
\<close>

theorem cache_lookup_lru:
  assumes "cache_inv s"
  shows "\<exists>r s'. function_cache_get oid s = Ok r s' \<and> cache_inv s' \<and> procs s' = procs s
    \<and> entries s' = lru_touch oid (entries s)
    \<and> (case r of None \<Rightarrow> lru_find oid (entries s) = None | Some p \<Rightarrow> procs s p = lru_find oid (entries s) \<and> procs s p \<noteq> None)"
proof -
  obtain r s' where r: "function_cache_get oid s = Ok r s'" and "got oid s r s'"
    using cache_get_spec [OF assms] by blast
  then show ?thesis
    by (intro exI [of _ r] exI [of _ s']) (cases r; simp add: got_def)
qed

lemma cache_lookup_lru_witness:
  "\<exists>r s'. function_cache_get 100 (cache ex_backend) = Ok r s' \<and> cache_inv s' \<and> entries s' = []"
  using cache_lookup_lru [of "cache ex_backend" 100] by (auto simp: lru_touch_def lru_find_def)

text \<open>
  C12: \<open>function_cache_put\<close> refines the replacement policy: the new entry comes first, an entry
  of the same function is replaced, else the least recently used of five goes; exactly the
  structures that leave the cache are freed and none of those it holds is.
\<close>

theorem cache_insert_lru:
  assumes "cache_inv s" and "procs s p = Some f" and "p \<notin> set (ptrs s)"
  shows "\<exists>s'. function_cache_put p s = Ok () s' \<and> cache_inv s' \<and> entries s' = lru_put f (entries s)
    \<and> p \<in> set (ptrs s') \<and> procs s' = (\<lambda>q. if q \<in> set (ptrs s) \<and> q \<notin> set (ptrs s') then None else procs s q)"
  using pc.put_law [OF assms] by blast

lemma cache_insert_lru_witness:
  "\<exists>s'. function_cache_put 7 ((cache ex_backend)\<lparr>procs := [7 \<mapsto> ex_proc]\<rparr>) = Ok () s' \<and> entries s' = [ex_proc]"
proof -
  let ?c = "(cache ex_backend)\<lparr>procs := [7 \<mapsto> ex_proc]\<rparr>"
  have p: "ptrs ?c = []" "entries ?c = []" "cache_inv ?c"
    by (simp_all add: ex_backend_def ptrs_def entries_def cache_inv_def packed_def List.map_filter_def
        PLC_FUNCTION_CACHE_SIZE_def)
  then have "\<exists>s'. function_cache_put 7 ?c = Ok () s' \<and> cache_inv s' \<and> entries s' = lru_put ex_proc (entries ?c)
      \<and> 7 \<in> set (ptrs s') \<and> procs s' = (\<lambda>q. if q \<in> set (ptrs ?c) \<and> q \<notin> set (ptrs s') then None else procs ?c q)"
    by (intro cache_insert_lru) simp_all
  then show ?thesis by (auto simp: p lru_put_def)
qed

section \<open>Descriptions of functions\<close>

text \<open>
  C11: \<open>get_proc_info\<close> keeps the invariant of the cache and of the memory it holds, also when it
  raises. It returns the entry of the cache while the function's row and the relations of
  its composite types are the versions the entry was made from, then with \<open>hasChanged\<close> 0, and
  otherwise a new entry made from the catalogs, with \<open>hasChanged\<close> 1, which takes the first
  place. When it raises, no entry is lost or freed; the structure it had allocated for the new entry, at most one, stays
  allocated and unfinished.
\<close>

theorem proc_info_outcome:
  assumes "backend_inv s" and "pg_proc cat (fn_oid fcinfo) = Some row"
  shows "ensures (get_proc_info cat fcinfo s) (proc_got (tcat cat) fcinfo row s)
    (\<lambda>e. proc_raised (fn_oid fcinfo) s) (\<lambda>t. False)"
  by (rule get_proc_info_spec [OF assms])

lemma proc_info_outcome_witness:
  "ensures (get_proc_info ex_sys ex_call_info ex_backend)
    (\<lambda>p s'. \<exists>f. procs (cache s') p = Some f \<and> entries (cache s') = [f] \<and> proc_hasChanged f = 1
       \<and> length (argtypes f) = 2) (\<lambda>e s'. entries (cache s') = []) (\<lambda>t. False)"
  by (rule ensures_mono [OF proc_info_outcome [of ex_backend ex_sys ex_call_info ex_proc_row]])
    (auto simp: proc_got_def proc_raised_def lru_touch_def lru_find_def lru_put_def built_def ex_proc_row_def)

text \<open>
  C24: while the catalogs stay as they are a second call of the function finds the description of the first:
  the same address and \<open>hasChanged\<close> 0. That is so whatever the second call's result
  descriptor is, also for a function returning \<open>record\<close>, whose description was made from the first call's.
\<close>

theorem proc_info_twice:
  assumes "backend_inv s" and "coherent (tcat cat)" and "pg_proc cat (fn_oid fcinfo) = Some row"
    and "fn_oid fcinfo' = fn_oid fcinfo"
  shows "ensures (get_proc_info cat fcinfo s)
    (\<lambda>p s1. \<exists>f s2. procs (cache s1) p = Some f \<and> get_proc_info cat fcinfo' s1 = Ok p s2
       \<and> procs (cache s2) p = Some (f\<lparr>proc_hasChanged := 0\<rparr>))
    (\<lambda>e t. backend_inv t) (\<lambda>t. False)"
proof (rule ensures_mono [OF get_proc_info_spec [OF assms(1,3)]])
  fix p s1
  assume got: "proc_got (tcat cat) fcinfo row s p s1"
  then have inv: "backend_inv s1" by (simp add: proc_got_def)
  from proc_got_current [OF got assms(2)] obtain f where f: "procs (cache s1) p = Some f"
    "funcOid f = fn_oid fcinfo'" "proc_current (tcat cat) row f" using assms(4) by auto
  from get_proc_info_reuse [OF inv _ f] assms(3,4) f(1)
  show "\<exists>f s2. procs (cache s1) p = Some f \<and> get_proc_info cat fcinfo' s1 = Ok p s2
       \<and> procs (cache s2) p = Some (f\<lparr>proc_hasChanged := 0\<rparr>)" by fastforce
qed (simp_all add: proc_raised_def)

lemma proc_info_twice_witness:
  "ensures (get_proc_info ex_sys ex_call_info ex_backend)
    (\<lambda>p s1. \<exists>f s2. procs (cache s1) p = Some f
       \<and> get_proc_info ex_sys (ex_call_info\<lparr>result_desc := Some ex_desc\<rparr>) s1 = Ok p s2
       \<and> procs (cache s2) p = Some (f\<lparr>proc_hasChanged := 0\<rparr>))
    (\<lambda>e t. backend_inv t) (\<lambda>t. False)"
  by (rule proc_info_twice [where row = ex_proc_row]) simp_all

text \<open>
  C25: a function with input arguments whose catalog row has more argument names than input arguments (any input argument
  and a named \<open>OUT\<close> or \<open>TABLE\<close> column) cannot be called: its description is never made. When nothing fails before, so when there is
  memory and the types can be described, the error is \<open>FATAL\<close>: the call ends the session.
\<close>

theorem proc_info_named_out:
  assumes "backend_inv s" and "pg_proc cat (fn_oid fcinfo) = Some row"
    and "lru_find (fn_oid fcinfo) (entries (cache s)) = None"
    and "pr_argtypes row \<noteq> []" and "pr_argnames row = Some nms" and "length nms > length (pr_argtypes row)"
  shows "ensures (get_proc_info cat fcinfo s) (\<lambda>p s'. False)
      (\<lambda>e s'. entries (cache s') = entries (cache s)
         \<and> (alloc_all (bw s) \<and> length (pr_argtypes row) \<le> 100 \<and> pg_type (tcat cat) TEXTOID \<noteq> None
             \<and> (\<forall>oid \<in> set (pr_rettype row # pr_argtypes row). \<exists>ti. fill_type_info (tcat cat) (result_desc fcinfo) oid (bw s) = Ok ti (bw s))
           \<longrightarrow> e = E_fatal ''something bad happened, nargs != len'')) (\<lambda>t. False)"
proof -
  have "cache_inv (cache s)" using assms(1) by (simp add: backend_inv_def)
  from pc.get_miss [OF this assms(3)] obtain c where c: "function_cache_get (fn_oid fcinfo) (cache s) = Ok None c"
    "entries c = entries (cache s)" by blast
  show ?thesis
    unfolding get_proc_missed [OF assms(2) c(1)] build_steps_def
  proof (rule ensures_bindM [where Q' = "\<lambda>p t. t = begun (s\<lparr>cache := c\<rparr>)"], goal_cases)
    case 1
    show ?case by (rule ensures_mono [OF new_proc_ensures]) (use c(2) in auto)
  next
    case (2 p t)
    show ?case
      by (rule ensures_bindM [where Q' = "\<lambda>_ _. False"], rule ensures_mono,
          rule in_world_raises [OF build_proc_mismatch [OF assms(4,5)]])
        (use assms(6) c(2) 2 build_proc_fatal [OF _ assms(4,5)] in auto)
  qed
qed

definition ex_out_sys :: sys_catalog where
  "ex_out_sys = ex_sys\<lparr>pg_proc := (\<lambda>oid. Some (ex_proc_row\<lparr>pr_argtypes := [23],
     pr_argnames := Some [Some [97], Some [98]]\<rparr>))\<rparr>"

lemma ex_fill_int4:
  "fill_type_info ex_cat rd 23 w = Ok (TypeInfo (base_fields ex_cat 23 (ex_type_row 43 0 98) False) []) w"
proof -
  have row: "pg_type ex_cat 23 = Some (ex_type_row 43 0 98)" by (simp add: ex_cat_def)
  show ?thesis
    unfolding fill_type_info_def fill_type_info_inner.simps [of ex_cat rd 23] row option.case
    by (simp add: ex_type_row_def row_desc_def RECORDOID_def TYPTYPE_COMPOSITE_def returnM_def)
qed

lemma ex_world: "alloc_all (bw ex_backend)" "\<exists>row. pg_type ex_cat TEXTOID = Some row"
  by (simp_all add: ex_backend_def TEXTOID_def ex_cat_def)

lemma proc_info_named_out_witness:
  "\<exists>s'. get_proc_info ex_out_sys ex_call_info ex_backend = Elog (E_fatal ''something bad happened, nargs != len'') s'"
proof -
  have "ensures (get_proc_info ex_out_sys ex_call_info ex_backend) (\<lambda>p s'. False)
      (\<lambda>e s'. e = E_fatal ''something bad happened, nargs != len'') (\<lambda>t. False)"
    by (rule ensures_mono [OF proc_info_named_out [of ex_backend ex_out_sys ex_call_info]])
      (use ex_world in \<open>auto simp: ex_out_sys_def lru_find_def ex_proc_row_def ex_fill_int4\<close>)
  then show ?thesis by (cases "get_proc_info ex_out_sys ex_call_info ex_backend") auto
qed





end
