(* ===== verification/Datum_IO.thy ===== *)
theory Datum_IO
  imports Proc_Info
begin

text \<open>
  \<^verbatim>\<open>src/plc_typeio.c\<close>: the functions that turn a \<open>Datum\<close> into the value of a message and
  back. A description's \<open>outfunc\<close> and \<open>infunc\<close> name one of them; \<open>out_datum\<close> and \<open>in_datum\<close> are the calls
  through these pointers.

  A \<open>datum\<close> stands for what PostgreSQL's accessors give: \<open>DatumGetInt16\<close> and the like read
  back what the corresponding constructor was given, a \<open>bytea\<close> is its detoasted content, a
  row its attributes by number, an array its dimensions, its null bitmap and its stored elements in
  order, which is what \<open>fetch_att\<close>, \<open>att_addlength_pointer\<close> and \<open>att_align_nominal\<close> walk over. The functions
  of the server the code calls are the fields of \<open>fmgr\<close>; \<open>None\<close> where they raise.
\<close>

section \<open>The functions of the server\<close>

record fmgr =
  fm_output :: "oid \<Rightarrow> datum \<Rightarrow> oid \<Rightarrow> i32 \<Rightarrow> byte list option"
  fm_input :: "oid \<Rightarrow> byte list \<Rightarrow> oid \<Rightarrow> i32 \<Rightarrow> datum option"
  fm_numeric_float8 :: "datum \<Rightarrow> i64 option"
  fm_float8_numeric :: "i64 \<Rightarrow> datum option"
  fm_md_array :: "oid \<Rightarrow> i32 list \<Rightarrow> datum option list \<Rightarrow> datum option"
  fm_heap_tuple :: "tupdesc \<Rightarrow> datum option list \<Rightarrow> datum option"

definition call_fm :: "'a option \<Rightarrow> ('s, 'a) prog" where
  "call_fm r = (case r of None \<Rightarrow> elogM (E_msg ''error in a called function'') | Some x \<Rightarrow> returnM x)"

section \<open>From a datum\<close>

definition plc_datum_as_int1 :: "datum \<Rightarrow> (world, rvalue) prog" where
  "plc_datum_as_int1 input = bindM (plc_alloc 1) (\<lambda>_.
     case input of DBool b \<Rightarrow> returnM (VInt1 (if b then 1 else 0)) | _ \<Rightarrow> stuckM BadShape)"

definition plc_datum_as_int2 :: "datum \<Rightarrow> (world, rvalue) prog" where
  "plc_datum_as_int2 input = bindM (plc_alloc 2) (\<lambda>_.
     case input of DInt2 i \<Rightarrow> returnM (VInt2 i) | _ \<Rightarrow> stuckM BadShape)"

definition plc_datum_as_int4 :: "datum \<Rightarrow> (world, rvalue) prog" where
  "plc_datum_as_int4 input = bindM (plc_alloc 4) (\<lambda>_.
     case input of DInt4 i \<Rightarrow> returnM (VInt4 i) | _ \<Rightarrow> stuckM BadShape)"

definition plc_datum_as_int8 :: "datum \<Rightarrow> (world, rvalue) prog" where
  "plc_datum_as_int8 input = bindM (plc_alloc 8) (\<lambda>_.
     case input of DInt8 i \<Rightarrow> returnM (VInt8 i) | _ \<Rightarrow> stuckM BadShape)"

definition plc_datum_as_float4 :: "datum \<Rightarrow> (world, rvalue) prog" where
  "plc_datum_as_float4 input = bindM (plc_alloc 4) (\<lambda>_.
     case input of DFloat4 x \<Rightarrow> returnM (VFloat4 x) | _ \<Rightarrow> stuckM BadShape)"

definition plc_datum_as_float8 :: "datum \<Rightarrow> (world, rvalue) prog" where
  "plc_datum_as_float8 input = bindM (plc_alloc 8) (\<lambda>_.
     case input of DFloat8 x \<Rightarrow> returnM (VFloat8 x) | _ \<Rightarrow> stuckM BadShape)"

definition plc_datum_as_float8_numeric :: "fmgr \<Rightarrow> datum \<Rightarrow> (world, rvalue) prog" where
  "plc_datum_as_float8_numeric fm input = bindM (plc_alloc 8) (\<lambda>_.
     bindM (call_fm (fm_numeric_float8 fm input)) (\<lambda>x. returnM (VFloat8 x)))"

definition plc_datum_as_text :: "fmgr \<Rightarrow> type_fields \<Rightarrow> datum \<Rightarrow> (world, rvalue) prog" where
  "plc_datum_as_text fm type input =
     bindM (call_fm (fm_output fm (output_proc type) input (typelem type) (typmod type))) (\<lambda>s.
     returnM (VText s))"

definition plc_datum_as_bytea :: "datum \<Rightarrow> (world, rvalue) prog" where
  "plc_datum_as_bytea input =
     (case input of
        DBytea s \<Rightarrow>
          bindM (intM (int (length s) + 4)) (\<lambda>len.
          bindM (plc_alloc (size_of_int len)) (\<lambda>_.
          returnM (VBytea s)))
      | _ \<Rightarrow> stuckM BadShape)"

text \<open>
  The iterator over an array: where the bitmap and the elements are read next. \<open>bitmask\<close> has
  the one bit of the element, \<open>0x100\<close> after the last of a byte.
\<close>

record array_pos =
  bitmap :: "byte list option"
  bitmask :: int
  elems :: "datum list"

definition next_bit :: "array_pos \<Rightarrow> datum list \<Rightarrow> array_pos" where
  "next_bit pos ds =
     (case bitmap pos of
        None \<Rightarrow> pos\<lparr>elems := ds\<rparr>
      | Some bs \<Rightarrow>
          if bitmask pos * 2 = 256 then pos\<lparr>bitmap := Some (tl bs), bitmask := 1, elems := ds\<rparr>
          else pos\<lparr>bitmask := bitmask pos * 2, elems := ds\<rparr>)"

definition plc_backend_array_next :: "(datum \<Rightarrow> (world, rvalue) prog) \<Rightarrow> array_pos
    \<Rightarrow> (world, rawdata \<times> array_pos) prog" where
  "plc_backend_array_next out pos =
     bindM (plc_alloc 16) (\<lambda>_.
     bindM (case bitmap pos of
              None \<Rightarrow> returnM False
            | Some [] \<Rightarrow> stuckM OutOfBounds
            | Some (b # _) \<Rightarrow> returnM (uint b AND bitmask pos = 0)) (\<lambda>isn.
     bindM (if isn then returnM (Rawdata True None, elems pos)
            else case elems pos of
                [] \<Rightarrow> stuckM OutOfBounds
              | d # ds \<Rightarrow> bindM (out d) (\<lambda>v. returnM (Rawdata False (Some v), ds))) (\<lambda>(res, ds).
     returnM (res, next_bit pos ds))))"

text \<open>What the first \<open>n\<close> calls of \<open>next\<close> return, one after the other.\<close>

primrec array_objects :: "(datum \<Rightarrow> (world, rvalue) prog) \<Rightarrow> nat \<Rightarrow> array_pos \<Rightarrow> (world, rawdata list) prog" where
  "array_objects out 0 pos = returnM []"
| "array_objects out (Suc n) pos =
     bindM (plc_backend_array_next out pos) (\<lambda>(r, pos).
     bindM (array_objects out n pos) (\<lambda>rs. returnM (r # rs)))"

text \<open>\<open>meta->size *= ARR_DIMS(array)[i]\<close>\<close>

fun mult_dims :: "int \<Rightarrow> i32 list \<Rightarrow> ('s, int) prog" where
  "mult_dims prd [] = returnM prd"
| "mult_dims prd (d # ds) = bindM (intM (prd * sint d)) (\<lambda>prd. mult_dims prd ds)"

text \<open>
  The iterator is given by its meta data and the objects it yields. The elements are converted when
  the channel asks for them; here they are converted when the iterator is made, so an error
  of an element's output function shows at this point.
\<close>

definition plc_datum_as_array :: "plcDatatype \<Rightarrow> (datum \<Rightarrow> (world, rvalue) prog) \<Rightarrow> datum
    \<Rightarrow> (world, rvalue) prog" where
  "plc_datum_as_array elem_type out input =
     (case input of
        DArray ds bm es \<Rightarrow>
          bindM (plc_alloc 48) (\<lambda>_.
          bindM (plc_alloc 24) (\<lambda>_.
          bindM (plc_alloc 24) (\<lambda>_.
          bindM (plc_alloc (size_mult (length ds) 4)) (\<lambda>_.
          bindM (mult_dims (if 0 < length ds then 1 else 0) ds) (\<lambda>prd.
          bindM (array_objects out (nat prd) \<lparr>bitmap = bm, bitmask = 1, elems = es\<rparr>) (\<lambda>objs.
          returnM (VIter \<lparr>atype = elem_type, ndims = of_nat (length ds), dims = ds, asize = word_of_int prd\<rparr> objs)))))))
      | _ \<Rightarrow> stuckM BadShape)"

text \<open>\<open>GetAttributeByNum\<close> gives NULL past the attributes a row has.\<close>

definition plc_datum_as_udt :: "(plcTypeInfo \<Rightarrow> datum \<Rightarrow> (world, rvalue) prog) \<Rightarrow> plcTypeInfo list \<Rightarrow> datum
    \<Rightarrow> (world, rvalue) prog" where
  "plc_datum_as_udt out subs input =
     (case input of
        DTuple vs \<Rightarrow>
          bindM (plc_alloc_udt (int (length (filter (\<lambda>t. \<not> attisdropped (info t)) subs)))) (\<lambda>_.
          bindM (mapM (\<lambda>(t, v). case v of
                       None \<Rightarrow> returnM (Rawdata True None)
                     | Some d \<Rightarrow> bindM (out t d) (\<lambda>x. returnM (Rawdata False (Some x))))
                  (filter (\<lambda>(t, v). \<not> attisdropped (info t)) (zip subs (vs @ replicate (length subs) None)))) (\<lambda>ds.
          returnM (VUdt ds)))
      | _ \<Rightarrow> stuckM BadShape)"

lemma plc_datum_as_udt_cong [fundef_cong]:
  assumes "subs = subs'" and "input = input'" and "\<And>t d. t \<in> set subs' \<Longrightarrow> out t d = out' t d"
  shows "plc_datum_as_udt out subs input = plc_datum_as_udt out' subs' input'"
  unfolding plc_datum_as_udt_def assms(1,2)
  by (intro datum.case_cong refl arg_cong2 [of _ _ _ _ bindM] ext mapM_cong)
    (auto dest!: set_zip_leftD simp: assms(3) split: option.splits)

text \<open>\<open>type->outfunc(input, type)\<close>\<close>

fun out_datum :: "fmgr \<Rightarrow> plcTypeInfo \<Rightarrow> datum \<Rightarrow> (world, rvalue) prog" where
  "out_datum fm (TypeInfo f subs) input =
     (case outfunc f of
        None \<Rightarrow> stuckM NullDeref
      | Some As_int1 \<Rightarrow> plc_datum_as_int1 input
      | Some As_int2 \<Rightarrow> plc_datum_as_int2 input
      | Some As_int4 \<Rightarrow> plc_datum_as_int4 input
      | Some As_int8 \<Rightarrow> plc_datum_as_int8 input
      | Some As_float4 \<Rightarrow> plc_datum_as_float4 input
      | Some As_float8 \<Rightarrow> plc_datum_as_float8 input
      | Some As_float8_numeric \<Rightarrow> plc_datum_as_float8_numeric fm input
      | Some As_text \<Rightarrow> plc_datum_as_text fm f input
      | Some As_bytea \<Rightarrow> plc_datum_as_bytea input
      | Some As_array \<Rightarrow>
          (case subs of
             [] \<Rightarrow> stuckM NullDeref
           | sub # _ \<Rightarrow> plc_datum_as_array (datatype_of (info sub)) (\<lambda>d. out_datum fm sub d) input)
      | Some As_udt \<Rightarrow> plc_datum_as_udt (\<lambda>t d. out_datum fm t d) subs input)"

declare out_datum.simps [simp del]

section \<open>To a datum\<close>

text \<open>
  The \<open>char*\<close> argument of these functions is \<open>None\<close> for NULL. Nothing checks that the value is of the
  description's type; a value of another type is read as what it is not. A text that is NULL goes to the type's
  input function, which dereferences it. The functions for elements of an array
  (\<open>_ptr\<close>) take the address of the cell that holds the pointer.
\<close>

definition need_value :: "'a option \<Rightarrow> ('s, 'a) prog" where
  "need_value v = needM NullDeref v"

definition plc_datum_from_int1 :: "rvalue option \<Rightarrow> (world, datum) prog" where
  "plc_datum_from_int1 input = bindM (need_value input) (\<lambda>v.
     case v of VInt1 b \<Rightarrow> returnM (DBool (b \<noteq> 0)) | _ \<Rightarrow> stuckM BadShape)"

definition plc_datum_from_int2 :: "rvalue option \<Rightarrow> (world, datum) prog" where
  "plc_datum_from_int2 input = bindM (need_value input) (\<lambda>v.
     case v of VInt2 i \<Rightarrow> returnM (DInt2 i) | _ \<Rightarrow> stuckM BadShape)"

definition plc_datum_from_int4 :: "rvalue option \<Rightarrow> (world, datum) prog" where
  "plc_datum_from_int4 input = bindM (need_value input) (\<lambda>v.
     case v of VInt4 i \<Rightarrow> returnM (DInt4 i) | _ \<Rightarrow> stuckM BadShape)"

definition plc_datum_from_int8 :: "rvalue option \<Rightarrow> (world, datum) prog" where
  "plc_datum_from_int8 input = bindM (need_value input) (\<lambda>v.
     case v of VInt8 i \<Rightarrow> returnM (DInt8 i) | _ \<Rightarrow> stuckM BadShape)"

definition plc_datum_from_float4 :: "rvalue option \<Rightarrow> (world, datum) prog" where
  "plc_datum_from_float4 input = bindM (need_value input) (\<lambda>v.
     case v of VFloat4 x \<Rightarrow> returnM (DFloat4 x) | _ \<Rightarrow> stuckM BadShape)"

definition plc_datum_from_float8 :: "rvalue option \<Rightarrow> (world, datum) prog" where
  "plc_datum_from_float8 input = bindM (need_value input) (\<lambda>v.
     case v of VFloat8 x \<Rightarrow> returnM (DFloat8 x) | _ \<Rightarrow> stuckM BadShape)"

definition plc_datum_from_float8_numeric :: "fmgr \<Rightarrow> rvalue option \<Rightarrow> (world, datum) prog" where
  "plc_datum_from_float8_numeric fm input = bindM (need_value input) (\<lambda>v.
     case v of VFloat8 x \<Rightarrow> call_fm (fm_float8_numeric fm x) | _ \<Rightarrow> stuckM BadShape)"

definition plc_datum_from_text :: "fmgr \<Rightarrow> type_fields \<Rightarrow> rvalue option \<Rightarrow> (world, datum) prog" where
  "plc_datum_from_text fm type input = bindM (need_value input) (\<lambda>v.
     case v of VText s \<Rightarrow> call_fm (fm_input fm (input_proc type) s (typelem type) (typmod type))
             | _ \<Rightarrow> stuckM BadShape)"

definition plc_datum_from_bytea :: "rvalue option \<Rightarrow> (world, datum) prog" where
  "plc_datum_from_bytea input = bindM (need_value input) (\<lambda>v.
     case v of
       VBytea s \<Rightarrow>
         bindM (intM (int (length s) + 4)) (\<lambda>size.
         bindM (plc_alloc (size_of_int size)) (\<lambda>_.
         returnM (DBytea s)))
     | _ \<Rightarrow> stuckM BadShape)"

text \<open>
  \<open>lbs\<close>, the lower bounds, are all 1. \<open>elem_in\<close> is \<open>subType->infunc\<close>; the cells an array has are those its
  meta data counts, or none when that is not positive.
\<close>

definition plc_datum_from_array :: "fmgr \<Rightarrow> type_fields \<Rightarrow> (rvalue option \<Rightarrow> (world, datum) prog)
    \<Rightarrow> rvalue option \<Rightarrow> (world, datum) prog" where
  "plc_datum_from_array fm subType elem_in input = bindM (need_value input) (\<lambda>v.
     case v of
       VArray meta cells \<Rightarrow>
         bindM (plc_alloc (size_mult (size_of_int (sint (ndims meta))) 4)) (\<lambda>_.
         bindM (plc_alloc (size_mult (size_of_int (sint (asize meta))) 8)) (\<lambda>_.
         bindM (plc_get_type_length (datatype_of subType)) (\<lambda>_.
         bindM (checkM OutOfBounds (nat (sint (asize meta)) \<le> length cells)) (\<lambda>_.
         bindM (mapM (\<lambda>c. case c of
                       Rawdata True _ \<Rightarrow> returnM None
                     | Rawdata False x \<Rightarrow> bindM (elem_in x) (\<lambda>d. returnM (Some d)))
                  (take (nat (sint (asize meta))) cells)) (\<lambda>es.
         call_fm (fm_md_array fm (typeOid subType) (dims meta) es))))))
     | _ \<Rightarrow> stuckM BadShape)"

text \<open>
  The loop of \<open>plc_datum_from_udt\<close> for attribute \<open>i\<close>: \<open>None\<close> leaves \<open>values[i]\<close> and \<open>nulls[i]\<close>
  unset. The description used for it is that at \<open>j\<close>, the number of attributes before \<open>i\<close> that are not
  dropped.
\<close>

definition not_dropped :: "plcTypeInfo list \<Rightarrow> nat" where
  "not_dropped ts = length (filter (\<lambda>t. \<not> attisdropped (info t)) ts)"

lemma not_dropped_le: "not_dropped ts \<le> length ts"
  by (simp add: not_dropped_def)

definition udt_attribute :: "(plcTypeInfo \<Rightarrow> rvalue option \<Rightarrow> (world, datum) prog) \<Rightarrow> plcTypeInfo list
    \<Rightarrow> rawdata list \<Rightarrow> nat \<Rightarrow> (world, datum option option) prog" where
  "udt_attribute infn subs ds i =
     (if \<not> attisdropped (info (subs ! i)) then
        let j = not_dropped (take i subs) in
        bindM (checkM OutOfBounds (j < length ds)) (\<lambda>_.
        case ds ! j of
          Rawdata True _ \<Rightarrow> returnM (Some None)
        | Rawdata False x \<Rightarrow> bindM (infn (subs ! j) x) (\<lambda>d. returnM (Some (Some d))))
      else returnM None)"

text \<open>
  \<open>heap_form_tuple(desc, values, nulls)\<close> reads the entries of all the attributes the row type has now, which is not the number
  the description was filled with when a column was added in between: an entry that was never written is read as it is, and past the
  last one the read leaves the blocks.
\<close>

definition heap_form_tuple :: "fmgr \<Rightarrow> tupdesc \<Rightarrow> datum option option list \<Rightarrow> (world, datum) prog" where
  "heap_form_tuple fm desc vals =
     bindM (checkM Uninit (None \<notin> set (take (length (td_attrs desc)) vals))) (\<lambda>_.
     bindM (checkM OutOfBounds (length (td_attrs desc) \<le> length vals)) (\<lambda>_.
     call_fm (fm_heap_tuple fm desc (map the (take (length (td_attrs desc)) vals)))))"

definition plc_datum_from_udt :: "fmgr \<Rightarrow> catalog \<Rightarrow> type_fields
    \<Rightarrow> (plcTypeInfo \<Rightarrow> rvalue option \<Rightarrow> (world, datum) prog) \<Rightarrow> plcTypeInfo list
    \<Rightarrow> rvalue option \<Rightarrow> (world, datum) prog" where
  "plc_datum_from_udt fm cat type infn subs input = bindM (need_value input) (\<lambda>v.
     case v of
       VUdt ds \<Rightarrow>
         bindM (plc_alloc (size_mult 8 (length subs))) (\<lambda>_.
         bindM (plc_alloc (size_mult 1 (length subs))) (\<lambda>_.
         bindM (mapM (udt_attribute infn subs ds) [0..<length subs]) (\<lambda>vals.
         case rowtype_tupdesc cat (typeOid type) (typmod type) of
           None \<Rightarrow> elogM (E_msg ''type is not composite'')
         | Some desc \<Rightarrow> heap_form_tuple fm desc vals)))
     | _ \<Rightarrow> stuckM BadShape)"

lemma plc_datum_from_udt_cong [fundef_cong]:
  assumes "fm = fm'" and "cat = cat'" and "type = type'" and "subs = subs'" and "input = input'"
    and "\<And>t x. t \<in> set subs' \<Longrightarrow> infn t x = infn' t x"
  shows "plc_datum_from_udt fm cat type infn subs input = plc_datum_from_udt fm' cat' type' infn' subs' input'"
proof -
  have "udt_attribute infn subs' ds i = udt_attribute infn' subs' ds i" if "i < length subs'" for ds i
  proof -
    have "not_dropped (take i subs') < length subs'"
      using that not_dropped_le [of "take i subs'"] by simp
    then have "subs' ! not_dropped (take i subs') \<in> set subs'" by simp
    then have eq: "infn (subs' ! not_dropped (take i subs')) = infn' (subs' ! not_dropped (take i subs'))"
      by (intro ext assms(6))
    show ?thesis unfolding udt_attribute_def Let_def eq ..
  qed
  then have "mapM (udt_attribute infn subs' ds) [0..<length subs'] = mapM (udt_attribute infn' subs' ds) [0..<length subs']" for ds
    by (intro mapM_cong) auto
  then show ?thesis unfolding plc_datum_from_udt_def assms(1-5) by simp
qed

text \<open>\<open>type->infunc(input, type)\<close>\<close>

fun in_datum :: "fmgr \<Rightarrow> catalog \<Rightarrow> plcTypeInfo \<Rightarrow> rvalue option \<Rightarrow> (world, datum) prog" where
  "in_datum fm cat (TypeInfo f subs) input =
     (case infunc f of
        None \<Rightarrow> stuckM NullDeref
      | Some From_int1 \<Rightarrow> plc_datum_from_int1 input
      | Some From_int2 \<Rightarrow> plc_datum_from_int2 input
      | Some From_int4 \<Rightarrow> plc_datum_from_int4 input
      | Some From_int8 \<Rightarrow> plc_datum_from_int8 input
      | Some From_float4 \<Rightarrow> plc_datum_from_float4 input
      | Some From_float8 \<Rightarrow> plc_datum_from_float8 input
      | Some From_float8_numeric \<Rightarrow> plc_datum_from_float8_numeric fm input
      | Some From_text \<Rightarrow> plc_datum_from_text fm f input
      | Some From_text_ptr \<Rightarrow> plc_datum_from_text fm f input
      | Some From_bytea \<Rightarrow> plc_datum_from_bytea input
      | Some From_bytea_ptr \<Rightarrow> plc_datum_from_bytea input
      | Some From_array \<Rightarrow>
          (case subs of
             [] \<Rightarrow> stuckM NullDeref
           | sub # _ \<Rightarrow> plc_datum_from_array fm (info sub) (\<lambda>x. in_datum fm cat sub x) input)
      | Some From_udt \<Rightarrow> plc_datum_from_udt fm cat f (\<lambda>t x. in_datum fm cat t x) subs input
      | Some From_udt_ptr \<Rightarrow> plc_datum_from_udt fm cat f (\<lambda>t x. in_datum fm cat t x) subs input)"

declare in_datum.simps [simp del]

end
