(* ===== verification/Datum_Facts.thy ===== *)
theory Datum_Facts
  imports Datum_IO
begin

text \<open>
  What the conversions of \<open>Datum_IO\<close> compute: the iterator over an array yields its items as the
  bitmap says, and a datum that is converted, sent, received and converted back is the
  datum.
\<close>

section \<open>The iterator over an array\<close>

text \<open>
  The reference: item \<open>i\<close> is NULL when bit \<open>i\<close> of the bitmap is clear, otherwise the next element that
  is stored.
\<close>

definition present :: "byte list option \<Rightarrow> nat \<Rightarrow> bool" where
  "present bm i = (case bm of None \<Rightarrow> True | Some bs \<Rightarrow> bit (bs ! (i div 8)) (i mod 8))"

fun array_items :: "(nat \<Rightarrow> bool) \<Rightarrow> nat \<Rightarrow> nat \<Rightarrow> datum list \<Rightarrow> datum option list option" where
  "array_items pres i 0 es = Some []"
| "array_items pres i (Suc n) es =
     (if pres i then (case es of [] \<Rightarrow> None | e # es \<Rightarrow> map_option ((#) (Some e)) (array_items pres (Suc i) n es))
      else map_option ((#) None) (array_items pres (Suc i) n es))"

definition pos_at :: "byte list option \<Rightarrow> nat \<Rightarrow> datum list \<Rightarrow> array_pos" where
  "pos_at bm i es = \<lparr>bitmap = map_option (drop (i div 8)) bm,
     bitmask = (case bm of None \<Rightarrow> 1 | Some _ \<Rightarrow> 2 ^ (i mod 8)), elems = es\<rparr>"

lemma elems_pos [simp]: "elems (pos_at bm i es) = es"
  by (simp add: pos_at_def)

lemma next_pos: "next_bit (pos_at bm i es) ds = pos_at bm (Suc i) ds"
proof (cases bm)
  case None
  then show ?thesis by (simp add: next_bit_def pos_at_def)
next
  case (Some bs)
  have full: "(2::int) ^ (i mod 8) * 2 = 256 \<longleftrightarrow> i mod 8 = 7"
  proof -
    have "(2::int) ^ (i mod 8) * 2 = 2 ^ Suc (i mod 8)" and "(256::int) = 2 ^ 8" by simp_all
    then show ?thesis by (simp only: power_inject_exp) auto
  qed
  show ?thesis
  proof (cases "i mod 8 = 7")
    case True
    then have "Suc i div 8 = Suc (i div 8)" "Suc i mod 8 = 0" by (simp_all add: div_Suc mod_Suc)
    with True Some show ?thesis by (simp add: next_bit_def pos_at_def full drop_Suc tl_drop)
  next
    case False
    then have "Suc i div 8 = i div 8" "Suc i mod 8 = Suc (i mod 8)" by (simp_all add: div_Suc mod_Suc)
    with False Some show ?thesis by (simp add: next_bit_def pos_at_def full)
  qed
qed

lemma bit_test: "(uint (b :: byte) AND 2 ^ k = 0) \<longleftrightarrow> \<not> bit b k"
  by (simp add: and_exp_eq_0_iff_not_bit bit_uint_iff) (use bit_imp_le_length in fastforce)

definition to_raw :: "(datum \<Rightarrow> rvalue) \<Rightarrow> datum option \<Rightarrow> rawdata" where
  "to_raw g x = (case x of None \<Rightarrow> Rawdata True None | Some d \<Rightarrow> Rawdata False (Some (g d)))"

lemma array_next_run:
  assumes covered: "\<forall>bs. bm = Some bs \<longrightarrow> i < 8 * length bs" and "alloc_all w"
    and rest: "if present bm i then es = e # ds \<and> out e w = Ok v w \<and> r = Rawdata False (Some v)
      else ds = es \<and> r = Rawdata True None"
  shows "plc_backend_array_next out (pos_at bm i es) w = Ok (r, pos_at bm (Suc i) ds) w"
proof -
  have "(case bitmap (pos_at bm i es) of
              None \<Rightarrow> returnM False
            | Some [] \<Rightarrow> stuckM OutOfBounds
            | Some (b # _) \<Rightarrow> returnM (uint b AND bitmask (pos_at bm i es) = 0)) w = Ok (\<not> present bm i) w"
  proof (cases bm)
    case None
    then show ?thesis by (simp add: pos_at_def present_def returnM_def)
  next
    case (Some bs)
    then have "i div 8 < length bs" using covered by (simp add: less_mult_imp_div_less mult.commute)
    with Some show ?thesis
      by (simp add: pos_at_def present_def returnM_def bit_test flip: Cons_nth_drop_Suc)
  qed
  note nullness = this
  have "plc_alloc 16 w = Ok (replicate 16 (junk w)) w"
    using assms(2) by (simp add: alloc_all_run MaxAllocSize_def)
  then have "plc_backend_array_next out (pos_at bm i es) w =
      bindM (if \<not> present bm i then returnM (Rawdata True None, elems (pos_at bm i es))
            else case elems (pos_at bm i es) of
                [] \<Rightarrow> stuckM OutOfBounds
              | d # ds \<Rightarrow> bindM (out d) (\<lambda>v. returnM (Rawdata False (Some v), ds)))
       (\<lambda>(res, ds). returnM (res, next_bit (pos_at bm i es) ds)) w"
    unfolding plc_backend_array_next_def using nullness by simp
  also have "\<dots> = Ok (r, pos_at bm (Suc i) ds) w"
    using rest by (auto simp: next_pos returnM_def split: if_splits)
  finally show ?thesis .
qed

lemma array_objects_run:
  assumes "array_items (present bm) i n es = Some items" and "\<forall>bs. bm = Some bs \<longrightarrow> i + n \<le> 8 * length bs"
    and "\<forall>d. Some d \<in> set items \<longrightarrow> out d w = Ok (g d) w" and "alloc_all w"
  shows "array_objects out n (pos_at bm i es) w = Ok (map (to_raw g) items) w"
  using assms
proof (induction n arbitrary: i es items)
  case 0
  then show ?case by (simp add: returnM_def)
next
  case (Suc n)
  obtain x ds its where step: "if present bm i then \<exists>e. es = e # ds \<and> x = Some e else ds = es \<and> x = None"
    and its: "array_items (present bm) (Suc i) n ds = Some its" "items = x # its"
    using Suc.prems(1) by (auto split: if_splits list.splits)
  have step1: "plc_backend_array_next out (pos_at bm i es) w = Ok (to_raw g x, pos_at bm (Suc i) ds) w"
  proof (rule array_next_run [OF _ Suc.prems(4)])
    show "\<forall>bs. bm = Some bs \<longrightarrow> i < 8 * length bs" using Suc.prems(2) by auto
    show "if present bm i then es = the x # ds \<and> out (the x) w = Ok (g (the x)) w
          \<and> to_raw g x = Rawdata False (Some (g (the x)))
        else ds = es \<and> to_raw g x = Rawdata True None"
      using step Suc.prems(3) its(2) by (auto simp: to_raw_def split: if_splits)
  qed
  have "array_objects out n (pos_at bm (Suc i) ds) w = Ok (map (to_raw g) its) w"
    using Suc.IH [OF its(1)] Suc.prems(2-4) its(2) by simp
  with step1 its(2) show ?case by (simp add: returnM_def)
qed

lemma returnM_run: "returnM x s = Ok x s"
  by simp

lemma mapM_map: "mapM f (map h xs) = mapM (\<lambda>x. f (h x)) xs"
  by (induction xs) simp_all

section \<open>Values of a description\<close>

text \<open>
  \<open>datum_ok fm cat ti d\<close>: \<open>d\<close> is a value of the described type that the message format has room for, and
  what the server's functions promise holds for it: a type's input function reads what its output function
  writes, \<open>construct_md_array\<close> and \<open>heap_form_tuple\<close> build the array and the row with the given items
  (so its lower bounds are 1), and a \<open>numeric\<close> is one a \<open>float8\<close> can hold.
\<close>

definition fits_array :: "i32 list \<Rightarrow> byte list option \<Rightarrow> nat \<Rightarrow> bool" where
  "fits_array ds bm n \<longleftrightarrow> length ds \<le> 6 \<and> int n * 8 \<le> MaxAllocSize
     \<and> dims_size (if ds = [] then 0 else 1) ds = Some (int n)
     \<and> (\<forall>bs. bm = Some bs \<longrightarrow> n \<le> 8 * length bs)"

function datum_ok :: "fmgr \<Rightarrow> catalog \<Rightarrow> plcTypeInfo \<Rightarrow> datum \<Rightarrow> bool" where
  "datum_ok fm cat (TypeInfo f subs) d =
     (case outfunc f of
        None \<Rightarrow> False
      | Some As_int1 \<Rightarrow> (\<exists>b. d = DBool b)
      | Some As_int2 \<Rightarrow> (\<exists>i. d = DInt2 i)
      | Some As_int4 \<Rightarrow> (\<exists>i. d = DInt4 i)
      | Some As_int8 \<Rightarrow> (\<exists>i. d = DInt8 i)
      | Some As_float4 \<Rightarrow> (\<exists>x. d = DFloat4 x)
      | Some As_float8 \<Rightarrow> (\<exists>x. d = DFloat8 x)
      | Some As_float8_numeric \<Rightarrow>
          (\<exists>x. fm_numeric_float8 fm d = Some x \<and> fm_float8_numeric fm x = Some d)
      | Some As_text \<Rightarrow>
          (\<exists>s. fm_output fm (output_proc f) d (typelem f) (typmod f) = Some s \<and> ok_cstring (Some s)
             \<and> fm_input fm (input_proc f) s (typelem f) (typmod f) = Some d)
      | Some As_bytea \<Rightarrow> (\<exists>s. d = DBytea s \<and> ok_bytea s)
      | Some As_array \<Rightarrow>
          (\<exists>ds bm es n items. d = DArray ds bm es \<and> fits_array ds bm n
             \<and> array_items (present bm) 0 n es = Some items
             \<and> (\<forall>sub \<in> set subs. \<forall>x. Some x \<in> set items \<longrightarrow> datum_ok fm cat sub x)
             \<and> (\<forall>sub \<in> set subs. fm_md_array fm (typeOid (info sub)) ds items = Some d))
      | Some As_udt \<Rightarrow>
          (\<exists>vs desc. d = DTuple vs \<and> length vs = length subs
             \<and> (\<forall>t \<in> set subs. \<not> attisdropped (info t))
             \<and> (\<forall>i < length subs. \<forall>x. vs ! i = Some x \<longrightarrow> datum_ok fm cat (subs ! i) x)
             \<and> rowtype_tupdesc cat (typeOid f) (typmod f) = Some desc \<and> length (td_attrs desc) = length subs
             \<and> fm_heap_tuple fm desc vs = Some d))"
  by pat_completeness auto
termination
proof (relation "measure (\<lambda>(fm, cat, ti, d). size ti)", goal_cases)
  case (3 fm cat f subs d out ds desc i x)
  then have "subs ! i \<in> set subs" by simp
  then show ?case using size_list_estimation' [of "subs ! i" subs _ size] by (auto simp: less_Suc_eq_le)
qed (auto intro: size_list_estimation' simp: less_Suc_eq_le)

declare datum_ok.simps [simp del]

text \<open>
  What converting a datum gives: a value that travels as one of the type's, has no NULL pointer that is not marked, and
  is converted back to the datum where it is delivered.
\<close>

definition converts :: "fmgr \<Rightarrow> catalog \<Rightarrow> plcTypeInfo \<Rightarrow> datum \<Rightarrow> rvalue \<Rightarrow> bool" where
  "converts fm cat ti d v \<longleftrightarrow> ok_object (type_of_info ti) (Rawdata False (Some v)) \<and> marked (Rawdata False (Some v))
     \<and> (\<forall>w. alloc_all w \<longrightarrow> in_datum fm cat ti (rvalue (deliver (Rawdata False (Some v)))) w = Ok d w)"

text \<open>A conversion that depends on nothing but its datum.\<close>

definition yields :: "(world, 'a) prog \<Rightarrow> 'a \<Rightarrow> bool" where
  "yields m x \<longleftrightarrow> (\<forall>w. alloc_all w \<longrightarrow> m w = Ok x w)"

lemma yields_run: "yields m x \<Longrightarrow> alloc_all w \<Longrightarrow> m w = Ok x w"
  by (simp add: yields_def)

lemma mult_dims_run: "dims_size p ds = Some q \<Longrightarrow> mult_dims p ds s = Ok q s"
  by (induction ds arbitrary: p) (auto simp: returnM_def split: if_splits)

lemma as_array_run:
  assumes fits: "fits_array ds bm n" and items: "array_items (present bm) 0 n es = Some items"
    and out: "\<forall>d. Some d \<in> set items \<longrightarrow> out d w = Ok (g d) w" and w: "alloc_all w"
  shows "plc_datum_as_array et out (DArray ds bm es) w = Ok (VIter \<lparr>atype = et, ndims = of_nat (length ds),
    dims = ds, asize = word_of_int (int n)\<rparr> (map (to_raw g) items)) w"
proof -
  have pos: "\<lparr>bitmap = bm, bitmask = 1, elems = es\<rparr> = pos_at bm 0 es"
    by (cases bm) (simp_all add: pos_at_def)
  have "array_objects out n (pos_at bm 0 es) w = Ok (map (to_raw g) items) w"
    using fits by (intro array_objects_run [where g = g] items out w) (simp add: fits_array_def)
  moreover have "mult_dims (if 0 < length ds then 1 else 0) ds w = Ok (int n) w"
    using fits mult_dims_run [of "if ds = [] then 0 else 1" ds "int n" w]
    by (auto simp: fits_array_def returnM_def split: if_splits)
  moreover have "int (size_mult (length ds) 4) \<le> MaxAllocSize"
    using fits by (simp add: fits_array_def size_mult_def MaxAllocSize_def)
  note alloc_all_run [OF w this]
  moreover have "plc_alloc k w = Ok (replicate k (junk w)) w" if "k \<le> 48" for k
    using that alloc_all_run [OF w, of k] by (simp add: MaxAllocSize_def)
  ultimately show ?thesis
    by (simp add: plc_datum_as_array_def pos returnM_def)
qed

lemma length_array_items: "array_items pres i n es = Some items \<Longrightarrow> length items = n"
  by (induction pres i n es arbitrary: items rule: array_items.induct) (auto split: if_splits list.splits)

lemma fits_size:
  assumes "fits_array ds bm n"
  shows "sint (of_nat n :: i32) = int n" "size_of_int (int n) = n" "n < 2147483648"
    "sint (of_nat (length ds) :: i32) = int (length ds)" "size_of_int (int (length ds)) = length ds"
    "int (size_mult n 8) \<le> MaxAllocSize" "int (size_mult (length ds) 4) \<le> MaxAllocSize"
  using assms
  by (simp_all add: fits_array_def MaxAllocSize_def sint_of_nat_small size_of_int_nonneg
      INT_MAX_def size_mult_def)

lemma width_le: "elem_width dt = Some e \<Longrightarrow> 0 \<le> e \<and> e \<le> 8"
  by (cases dt) auto

lemma scalar_width: "dt \<in> scalar_types \<or> dt = PLC_DATA_UDT \<Longrightarrow> \<exists>e. elem_width dt = Some e"
  by (auto simp: scalar_types_def)

lemma fits_meta:
  assumes fits: "fits_array ds bm n" and dt: "dt \<in> scalar_types \<or> dt = PLC_DATA_UDT"
  shows "ok_meta dt \<lparr>atype = dt, ndims = of_nat (length ds), dims = ds, asize = word_of_int (int n)\<rparr> n"
proof -
  obtain e where e: "elem_width dt = Some e" "0 \<le> e" "e \<le> 8"
    using scalar_width [OF dt] width_le by blast
  then have "int n * e \<le> int n * 8" by (intro mult_left_mono) simp_all
  moreover have "int n * 8 \<le> MaxAllocSize" using fits by (simp add: fits_array_def)
  ultimately have "int n * e \<le> MaxAllocSize" by linarith
  with fits e(1) show ?thesis
    unfolding ok_meta_def by (simp add: fits_size [OF fits] fits_array_def MaxAllocSize_def)
qed

lemma from_array_run:
  assumes fits: "fits_array ds bm n" and len: "length items = n"
    and conv: "\<forall>d. Some d \<in> set items \<longrightarrow> elem_in (rvalue (deliver (Rawdata False (Some (g d))))) w = Ok d w"
    and dt: "datatype_of sub \<in> scalar_types \<or> datatype_of sub = PLC_DATA_UDT" and w: "alloc_all w"
    and built: "fm_md_array fm (typeOid sub) ds items = Some d"
  shows "plc_datum_from_array fm sub elem_in (Some (VArray \<lparr>atype = datatype_of sub, ndims = of_nat (length ds),
    dims = ds, asize = word_of_int (int n)\<rparr> (map deliver (map (to_raw g) items)))) w = Ok d w"
proof -
  let ?cells = "map deliver (map (to_raw g) items)"
  let ?body = "\<lambda>c. case c of Rawdata True _ \<Rightarrow> returnM None
     | Rawdata False x \<Rightarrow> bindM (elem_in x) (\<lambda>d. returnM (Some d))"
  have cell: "?body (deliver (to_raw g x)) w = Ok x w" if "x \<in> set items" for x
  proof (cases x)
    case None
    then show ?thesis by (simp add: to_raw_def returnM_def)
  next
    case (Some y)
    with that conv have "elem_in (rvalue (deliver (Rawdata False (Some (g y))))) w = Ok y w" by simp
    with Some show ?thesis by (simp add: to_raw_def returnM_def)
  qed
  have "mapM ?body ?cells w = Ok items w"
  proof -
    have "mapM ?body ?cells w = mapM (\<lambda>x. ?body (deliver (to_raw g x))) items w"
      by (simp only: mapM_map map_map o_def)
    also have "\<dots> = Ok (map (\<lambda>x. x) items) w" by (rule mapM_run) (rule cell)
    finally show ?thesis by simp
  qed
  moreover obtain e where "plc_get_type_length (datatype_of sub) = (returnM e :: (world, int) prog)"
    using scalar_width [OF dt] plc_get_type_length_width by blast
  moreover note alloc_all_run [OF w fits_size(6) [OF fits]] alloc_all_run [OF w fits_size(7) [OF fits]]
  moreover have "?cells = take n ?cells" using len by simp
  ultimately show ?thesis
    using built len fits_size(1-5) [OF fits]
    by (simp add: plc_datum_from_array_def need_value_def call_fm_def returnM_def)
qed

text \<open>The conversions of a row.\<close>

lemma not_dropped_all: "\<forall>t \<in> set ts. \<not> attisdropped (info t) \<Longrightarrow> not_dropped (take i ts) = min (length ts) i"
proof -
  assume "\<forall>t \<in> set ts. \<not> attisdropped (info t)"
  then have "\<forall>t \<in> set (take i ts). \<not> attisdropped (info t)" using in_set_takeD by fast
  then show ?thesis by (simp add: not_dropped_def)
qed

lemma udt_cells_run:
  assumes len: "length vs = length subs" and kept: "\<forall>t \<in> set subs. \<not> attisdropped (info t)"
    and out: "\<forall>i < length subs. \<forall>d. vs ! i = Some d \<longrightarrow> out (subs ! i) d w = Ok (g i) w"
  shows "mapM (\<lambda>(t, v). case v of None \<Rightarrow> returnM (Rawdata True None)
      | Some d \<Rightarrow> bindM (out t d) (\<lambda>x. returnM (Rawdata False (Some x))))
    (filter (\<lambda>(t, v). \<not> attisdropped (info t)) (zip subs (vs @ replicate (length subs) None))) w
    = Ok (map (\<lambda>i. to_raw (\<lambda>_. g i) (vs ! i)) [0..<length subs]) w"
proof -
  let ?f = "\<lambda>(t, v). case v of None \<Rightarrow> returnM (Rawdata True None)
      | Some d \<Rightarrow> bindM (out t d) (\<lambda>x. returnM (Rawdata False (Some x)))"
  have "zip subs (vs @ replicate (length subs) None) = zip subs vs"
    using len by (simp add: zip_append2)
  moreover have "filter (\<lambda>(t, v). \<not> attisdropped (info t)) (zip subs vs) = zip subs vs"
    using kept by (auto simp: filter_id_conv dest: set_zip_leftD)
  moreover have "zip subs vs = map (\<lambda>i. (subs ! i, vs ! i)) [0..<length subs]"
    using len by (intro nth_equalityI) simp_all
  ultimately have eq: "mapM ?f (filter (\<lambda>(t, v). \<not> attisdropped (info t)) (zip subs (vs @ replicate (length subs) None)))
    = mapM (\<lambda>i. ?f (subs ! i, vs ! i)) [0..<length subs]"
    by (simp only: mapM_map)
  have "mapM (\<lambda>i. ?f (subs ! i, vs ! i)) [0..<length subs] w
    = Ok (map (\<lambda>i. to_raw (\<lambda>_. g i) (vs ! i)) [0..<length subs]) w"
  proof (rule mapM_run)
    fix i
    assume "i \<in> set [0..<length subs]"
    with out show "?f (subs ! i, vs ! i) w = Ok (to_raw (\<lambda>_. g i) (vs ! i)) w"
      by (cases "vs ! i") (simp_all add: to_raw_def returnM_def)
  qed
  then show ?thesis unfolding eq .
qed

lemma from_udt_run:
  assumes len: "length vs = length subs" and kept: "\<forall>t \<in> set subs. \<not> attisdropped (info t)"
    and conv: "\<forall>i < length subs. \<forall>d. vs ! i = Some d \<longrightarrow>
      infn (subs ! i) (rvalue (deliver (Rawdata False (Some (g i))))) w = Ok d w"
    and w: "alloc_all w" and small: "length subs \<le> 1664"
    and desc: "rowtype_tupdesc cat (typeOid f) (typmod f) = Some desc" "length (td_attrs desc) = length subs" "fm_heap_tuple fm desc vs = Some d"
  shows "plc_datum_from_udt fm cat f infn subs
    (Some (VUdt (map deliver (map (\<lambda>i. to_raw (\<lambda>_. g i) (vs ! i)) [0..<length subs])))) w = Ok d w"
proof -
  let ?ds = "map deliver (map (\<lambda>i. to_raw (\<lambda>_. g i) (vs ! i)) [0..<length subs])"
  have "mapM (udt_attribute infn subs ?ds) [0..<length subs] w = Ok (map (\<lambda>i. Some (vs ! i)) [0..<length subs]) w"
  proof (rule mapM_run)
    fix i
    assume "i \<in> set [0..<length subs]"
    then have i: "i < length subs" by simp
    then have j: "not_dropped (take i subs) = i" using not_dropped_all [OF kept, of i] by simp
    have ds: "?ds ! i = deliver (to_raw (\<lambda>_. g i) (vs ! i))" using i by simp
    show "udt_attribute infn subs ?ds i w = Ok (Some (vs ! i)) w"
    proof (cases "vs ! i")
      case None
      then show ?thesis
        using i kept by (simp add: udt_attribute_def Let_def j ds to_raw_def returnM_def)
    next
      case (Some x)
      with conv i have "infn (subs ! i) (rvalue (deliver (Rawdata False (Some (g i))))) w = Ok x w" by simp
      with Some show ?thesis
        using i kept by (simp add: udt_attribute_def Let_def j ds to_raw_def returnM_def)
    qed
  qed
  moreover have "map (\<lambda>i. vs ! i) [0..<length subs] = vs"
    using map_nth [of vs] by (simp add: len)
  moreover have "int (size_mult 8 (length subs)) \<le> MaxAllocSize" "int (size_mult 1 (length subs)) \<le> MaxAllocSize"
    using small by (simp_all add: size_mult_def MaxAllocSize_def)
  note alloc_all_run [OF w this(1)] alloc_all_run [OF w this(2)]
  ultimately show ?thesis
    using desc by (simp add: plc_datum_from_udt_def heap_form_tuple_def need_value_def call_fm_def returnM_def o_def image_iff)
qed

lemmas scalar_conversions = plc_datum_as_int1_def plc_datum_as_int2_def plc_datum_as_int4_def
  plc_datum_as_int8_def plc_datum_as_float4_def plc_datum_as_float8_def plc_datum_as_float8_numeric_def
  plc_datum_as_text_def plc_datum_as_bytea_def plc_datum_from_int1_def plc_datum_from_int2_def
  plc_datum_from_int4_def plc_datum_from_int8_def plc_datum_from_float4_def plc_datum_from_float8_def
  plc_datum_from_float8_numeric_def plc_datum_from_text_def plc_datum_from_bytea_def need_value_def call_fm_def

lemma bytea_sizes:
  assumes "ok_bytea s"
  shows "in_int (int (length s) + 4)" "int (size_of_int (int (length s) + 4)) \<le> MaxAllocSize"
  using assms by (simp_all add: ok_bytea_def in_int_def INT_MAX_def MAX_CHUNK_def MaxAllocSize_def size_of_int_nonneg)

lemma scalar_converts:
  assumes "io_match f" and "outfunc f \<noteq> Some As_array" and "outfunc f \<noteq> Some As_udt"
    and d: "datum_ok fm cat (TypeInfo f subs) d"
  shows "\<exists>v. yields (out_datum fm (TypeInfo f subs) d) v \<and> converts fm cat (TypeInfo f subs) d v"
proof -
  have small: "alloc_all w \<Longrightarrow> n \<le> 8 \<Longrightarrow> plc_alloc n w = Ok (replicate n (junk w)) w" for n w
    by (rule alloc_all_run) (simp_all add: MaxAllocSize_def)
  have good: "\<exists>w. alloc_all w" by (rule exI [of _ "world_of 0 [] []"]) simp
  from assms(1) obtain out inp where io: "outfunc f = Some out" "infunc f = Some inp"
    "(datatype_of f, out, inp) \<in> io_table"
    by (auto simp: io_match_def)
  show ?thesis
    using io(3) assms(2,3) d alloc_all_run [OF _ bytea_sizes(2)] bytea_sizes(1)
    unfolding io_table_def
    by (auto simp: io(1,2) out_datum.simps in_datum.simps datum_ok.simps converts_def yields_def scalar_conversions
        small returnM_def good)
qed

lemma array_converts:
  assumes f: "io_match f" "outfunc f = Some As_array" and sub: "datatype_of (info sub) \<in> scalar_types \<or> datatype_of (info sub) = PLC_DATA_UDT"
    and kept: "\<not> attisdropped (info sub)"
    and d: "datum_ok fm cat (TypeInfo f [sub]) d"
    and conv: "\<And>x. datum_ok fm cat sub x \<Longrightarrow> \<exists>v. yields (out_datum fm sub x) v \<and> converts fm cat sub x v"
  shows "\<exists>v. yields (out_datum fm (TypeInfo f [sub]) d) v \<and> converts fm cat (TypeInfo f [sub]) d v"
proof -
  obtain ds bm es n items where arr: "d = DArray ds bm es" "fits_array ds bm n"
    "array_items (present bm) 0 n es = Some items" "\<forall>x. Some x \<in> set items \<longrightarrow> datum_ok fm cat sub x"
    "fm_md_array fm (typeOid (info sub)) ds items = Some d"
    using d f(2) by (auto simp: datum_ok.simps)
  have io: "infunc f = Some From_array" "datatype_of f = PLC_DATA_ARRAY"
    using f by (auto simp: io_match_def io_table_def)
  have "\<forall>x \<in> {x. Some x \<in> set items}. \<exists>v. yields (out_datum fm sub x) v \<and> converts fm cat sub x v"
    using conv arr(4) by blast
  from bchoice [OF this] obtain g where g: "\<forall>x. Some x \<in> set items \<longrightarrow> yields (out_datum fm sub x) (g x)"
    "\<forall>x. Some x \<in> set items \<longrightarrow> converts fm cat sub x (g x)" by auto
  have len: "length items = n" by (rule length_array_items [OF arr(3)])
  let ?meta = "\<lparr>atype = datatype_of (info sub), ndims = of_nat (length ds), dims = ds, asize = word_of_int (int n)\<rparr>"
  let ?objs = "map (to_raw g) items"
  have ty: "ty (type_of_info sub) = datatype_of (info sub)" by (cases sub) simp
  have cell: "ok_object (type_of_info sub) (to_raw g x)" "marked (to_raw g x)" if "x \<in> set items" for x
    using g(2) that by (cases x, auto simp: to_raw_def converts_def)+
  then have marked: "marked (Rawdata False (Some (VIter ?meta ?objs)))" by auto
  from cell have "ok_object (type_of_info sub) (to_raw g x)" "pointed (to_raw g x)" if "x \<in> set items" for x
    using marked_pointed that by blast+
  then have ok: "ok_object (type_of_info (TypeInfo f [sub])) (Rawdata False (Some (VIter ?meta ?objs)))"
    using fits_meta [OF arr(2) sub] kept by (simp add: io ty len)
  have returns: "in_datum fm cat (TypeInfo f [sub]) (rvalue (deliver (Rawdata False (Some (VIter ?meta ?objs))))) w'
      = Ok d w'" if w': "alloc_all w'" for w'
  proof -
    have "\<forall>x. Some x \<in> set items \<longrightarrow> in_datum fm cat sub (rvalue (deliver (Rawdata False (Some (g x))))) w' = Ok x w'"
      using g(2) w' by (simp add: converts_def)
    from from_array_run [where elem_in = "in_datum fm cat sub" and g = g, OF arr(2) len this sub w' arr(5)] show ?thesis
      by (simp add: in_datum.simps io)
  qed
  have "out_datum fm (TypeInfo f [sub]) d w = Ok (VIter ?meta ?objs) w" if w: "alloc_all w" for w
  proof -
    have "\<forall>x. Some x \<in> set items \<longrightarrow> out_datum fm sub x w = Ok (g x) w" using g(1) w by (simp add: yields_def)
    from as_array_run [where out = "out_datum fm sub" and g = g, OF arr(2,3) this w] show ?thesis
      by (simp add: out_datum.simps f(2) arr(1))
  qed
  with ok marked returns show ?thesis unfolding converts_def yields_def by blast
qed

lemma row_converts:
  assumes f: "io_match f" "outfunc f = Some As_udt" and small: "length subs \<le> 1664"
    and d: "datum_ok fm cat (TypeInfo f subs) d"
    and conv: "\<And>s x. s \<in> set subs \<Longrightarrow> datum_ok fm cat s x \<Longrightarrow> \<exists>v. yields (out_datum fm s x) v \<and> converts fm cat s x v"
  shows "\<exists>v. yields (out_datum fm (TypeInfo f subs) d) v \<and> converts fm cat (TypeInfo f subs) d v"
proof -
  obtain vs desc where row: "d = DTuple vs" "length vs = length subs" "\<forall>t \<in> set subs. \<not> attisdropped (info t)"
    "\<forall>i < length subs. \<forall>x. vs ! i = Some x \<longrightarrow> datum_ok fm cat (subs ! i) x"
    "rowtype_tupdesc cat (typeOid f) (typmod f) = Some desc" "length (td_attrs desc) = length subs" "fm_heap_tuple fm desc vs = Some d"
    using d f(2) by (auto simp: datum_ok.simps)
  have io: "infunc f = Some From_udt \<or> infunc f = Some From_udt_ptr" "datatype_of f = PLC_DATA_UDT"
    using f by (auto simp: io_match_def io_table_def)
  have kept: "kept_subs subs = subs" using row(3) by (simp add: filter_id_conv)
  have "\<forall>i \<in> {i. i < length subs}. \<exists>v. \<forall>x. vs ! i = Some x \<longrightarrow>
      yields (out_datum fm (subs ! i) x) v \<and> converts fm cat (subs ! i) x v"
  proof
    fix i
    assume "i \<in> {i. i < length subs}"
    then show "\<exists>v. \<forall>x. vs ! i = Some x \<longrightarrow> yields (out_datum fm (subs ! i) x) v \<and> converts fm cat (subs ! i) x v"
      using conv [of "subs ! i"] row(4) by (cases "vs ! i") auto
  qed
  from bchoice [OF this] obtain g where g:
    "\<forall>i < length subs. \<forall>x. vs ! i = Some x \<longrightarrow> yields (out_datum fm (subs ! i) x) (g i)"
    "\<forall>i < length subs. \<forall>x. vs ! i = Some x \<longrightarrow> converts fm cat (subs ! i) x (g i)" by auto
  let ?ds = "map (\<lambda>i. to_raw (\<lambda>_. g i) (vs ! i)) [0..<length subs]"
  have "ok_object (type_of_info (subs ! i)) (to_raw (\<lambda>_. g i) (vs ! i))" if "i < length subs" for i
    using g(2) that by (cases "vs ! i") (auto simp: to_raw_def converts_def)
  then have each: "\<forall>(t, d) \<in> set (zip (map type_of_info subs) ?ds). ok_object t d"
    by (auto simp: set_zip)
  have "marked (to_raw (\<lambda>_. g i) (vs ! i))" if "i < length subs" for i
    using g(2) that by (cases "vs ! i") (auto simp: to_raw_def converts_def)
  then have marked: "marked (Rawdata False (Some (VUdt ?ds)))" by auto
  from each have ok: "ok_object (type_of_info (TypeInfo f subs)) (Rawdata False (Some (VUdt ?ds)))"
    using small by (simp add: io(2) kept short_count)
  have returns: "in_datum fm cat (TypeInfo f subs) (rvalue (deliver (Rawdata False (Some (VUdt ?ds))))) w' = Ok d w'"
    if w': "alloc_all w'" for w'
  proof -
    have "\<forall>i < length subs. \<forall>x. vs ! i = Some x \<longrightarrow>
        in_datum fm cat (subs ! i) (rvalue (deliver (Rawdata False (Some (g i))))) w' = Ok x w'"
      using g(2) w' by (simp add: converts_def)
    from from_udt_run [where infn = "in_datum fm cat" and g = g, OF row(2,3) this w' small row(5-7)] show ?thesis
      using io(1) by (auto simp: in_datum.simps)
  qed
  have "int (size_mult (size_of_int (int (length subs))) 16) \<le> MaxAllocSize" "int 8 \<le> MaxAllocSize"
    using small by (simp_all add: size_mult_def size_of_int_nonneg INT_MAX_def MaxAllocSize_def)
  note alloc = alloc_all_run [OF _ this(1)] alloc_all_run [OF _ this(2)]
  have "out_datum fm (TypeInfo f subs) d w = Ok (VUdt ?ds) w" if w: "alloc_all w" for w
  proof -
    have "\<forall>i < length subs. \<forall>x. vs ! i = Some x \<longrightarrow> out_datum fm (subs ! i) x w = Ok (g i) w"
      using g(1) w by (simp add: yields_def)
    from udt_cells_run [where out = "out_datum fm" and g = g, OF row(2,3) this] show ?thesis
      using alloc [OF w] kept
      by (simp add: out_datum.simps f(2) row(1) plc_datum_as_udt_def plc_alloc_udt_def returnM_run)
  qed
  with ok marked returns show ?thesis unfolding converts_def yields_def by blast
qed

lemma out_converts:
  assumes "wf_info ti" and "io_info ti" and "named_info ti" and "\<not> attisdropped (info ti)"
    and "datum_ok fm cat ti d"
  shows "\<exists>v. yields (out_datum fm ti d) v \<and> converts fm cat ti d v"
  using assms
proof (induction ti arbitrary: d)
  case (TypeInfo f subs)
  have match: "io_match f" and small: "length subs \<le> 1664"
    using TypeInfo.prems by simp_all
  have dt: "outfunc f = Some As_array \<longleftrightarrow> datatype_of f = PLC_DATA_ARRAY" "outfunc f = Some As_udt \<longleftrightarrow> datatype_of f = PLC_DATA_UDT"
    using match by (auto simp: io_match_def io_table_def)
  have conv: "\<exists>v. yields (out_datum fm s x) v \<and> converts fm cat s x v"
    if "s \<in> set subs" "\<not> attisdropped (info s)" "datum_ok fm cat s x" for s x
    using TypeInfo.IH [of s x] TypeInfo.prems that by simp
  consider "outfunc f = Some As_array" | "outfunc f = Some As_udt"
    | "outfunc f \<noteq> Some As_array" "outfunc f \<noteq> Some As_udt" by blast
  then show ?case
  proof cases
    case 1
    then have "length subs = 1" and sub: "\<forall>s \<in> set subs. datatype_of (info s) \<noteq> PLC_DATA_ARRAY \<and> \<not> attisdropped (info s)"
      using TypeInfo.prems(1) dt(1) by simp_all
    then obtain s where s: "subs = [s]" by (auto simp: length_Suc_conv)
    have "datatype_of (info s) \<in> scalar_types \<or> datatype_of (info s) = PLC_DATA_UDT"
      using TypeInfo.prems(1) sub unfolding s by (cases s) auto
    with array_converts [OF match 1 this] conv sub TypeInfo.prems(5) show ?thesis unfolding s by simp
  next
    case 2
    then have "\<forall>s \<in> set subs. \<not> attisdropped (info s)" using TypeInfo.prems(5) by (auto simp: datum_ok.simps)
    with row_converts [OF match 2 small TypeInfo.prems(5)] conv show ?thesis by blast
  next
    case 3
    with scalar_converts [OF match _ _ TypeInfo.prems(5)] show ?thesis by blast
  qed
qed

lemma out_converts_run:
  assumes "wf_info ti" and "io_info ti" and "named_info ti" and "\<not> attisdropped (info ti)"
    and "datum_ok fm cat ti d" and "alloc_all w"
  shows "\<exists>v. out_datum fm ti d w = Ok v w \<and> converts fm cat ti d v"
  using out_converts [OF assms(1-5)] yields_run [OF _ assms(6)] by metis

end
