(* ===== verification/Call_Request.thy ===== *)
theory Call_Request
  imports Datum_Facts
begin

text \<open>
  \<open>pljvm_create_call\<close> and \<open>fill_callreq_arguments\<close> of \<^verbatim>\<open>src/message_fns.c\<close>: the message of a call, from the
  function's description and the arguments, and that it is one the protocol carries.
\<close>

section \<open>The message of a call\<close>

definition nth_opt :: "'a list \<Rightarrow> nat \<Rightarrow> 'a option" where
  "nth_opt xs i = (if i < length xs then Some (xs ! i) else None)"

definition call_argument :: "fmgr \<Rightarrow> call_info \<Rightarrow> plcProcInfo \<Rightarrow> nat \<Rightarrow> (world, plcArgument) prog" where
  "call_argument fm fcinfo pinfo i =
     bindM (needM OutOfBounds (nth_opt (argnames pinfo) i)) (\<lambda>nm.
     bindM (needM OutOfBounds (nth_opt (argtypes pinfo) i)) (\<lambda>ti.
     bindM (copy_type_info ti) (\<lambda>t.
     bindM (needM OutOfBounds (nth_opt (argdata fcinfo) i)) (\<lambda>arg.
     bindM (case arg of
              None \<Rightarrow> returnM (Rawdata True None)
            | Some d \<Rightarrow> bindM (out_datum fm ti d) (\<lambda>v. returnM (Rawdata False (Some v)))) (\<lambda>data.
     returnM \<lparr>argType = t, argName = nm, argData = data\<rparr>)))))"

definition fill_callreq_arguments :: "fmgr \<Rightarrow> call_info \<Rightarrow> plcProcInfo \<Rightarrow> plcMsgCallreq
    \<Rightarrow> (world, plcMsgCallreq) prog" where
  "fill_callreq_arguments fm fcinfo pinfo req =
     bindM (plc_alloc (size_mult 48 (size_of_int (sint (proc_nargs pinfo))))) (\<lambda>_.
     bindM (mapM (call_argument fm fcinfo pinfo) [0..<nat (sint (proc_nargs pinfo))]) (\<lambda>as.
     returnM (req\<lparr>nargs := proc_nargs pinfo, retset := proc_retset pinfo, args := as\<rparr>)))"

definition pljvm_create_call :: "fmgr \<Rightarrow> call_info \<Rightarrow> plcProcInfo \<Rightarrow> (world, plcMsgCallreq) prog" where
  "pljvm_create_call fm fcinfo pinfo =
     bindM (plc_alloc 72) (\<lambda>_.
     bindM (copy_type_info (rettype pinfo)) (\<lambda>rt.
     fill_callreq_arguments fm fcinfo pinfo
       \<lparr>objectid = funcOid pinfo, hasChanged = proc_hasChanged pinfo, procName = Some (proc_name pinfo),
        procSrc = Some (proc_src pinfo), retType = rt, retset = 0, nargs = 0, args = []\<rparr>))"

section \<open>Calls that can be sent\<close>

text \<open>
  A description whose call fits the protocol: its names and source are strings of the wire, its types are as
  \<open>fill_type_info\<close> makes them, and there are at most \<open>FUNC_MAX_ARGS\<close> arguments. \<open>call_ok\<close>: the arguments are
  values of the argument types.
\<close>

definition sendable_type :: "plcTypeInfo \<Rightarrow> bool" where
  "sendable_type ti \<longleftrightarrow> wf_info ti \<and> io_info ti \<and> named_info ti \<and> info_depth ti \<le> 4 \<and> \<not> attisdropped (info ti)"

definition sendable_proc :: "plcProcInfo \<Rightarrow> bool" where
  "sendable_proc f \<longleftrightarrow> ok_cstring (Some (proc_name f)) \<and> ok_cstring (Some (proc_src f))
     \<and> length (argtypes f) \<le> 100 \<and> length (argnames f) = length (argtypes f)
     \<and> proc_nargs f = of_nat (length (argtypes f))
     \<and> (\<forall>nm \<in> set (argnames f). ok_cstring nm) \<and> (\<forall>t \<in> types_of f. sendable_type t)"

definition call_ok :: "fmgr \<Rightarrow> catalog \<Rightarrow> call_info \<Rightarrow> plcProcInfo \<Rightarrow> bool" where
  "call_ok fm cat fcinfo f \<longleftrightarrow> length (argtypes f) \<le> length (argdata fcinfo)
     \<and> (\<forall>i < length (argtypes f). \<forall>d. argdata fcinfo ! i = Some d \<longrightarrow> datum_ok fm cat (argtypes f ! i) d)"

definition good_proc_row :: "pg_proc_row \<Rightarrow> bool" where
  "good_proc_row row \<longleftrightarrow> ok_cstring (pr_src row) \<and> ok_cstring (pr_name row) \<and> length (pr_argtypes row) \<le> 100
     \<and> (\<forall>nms. pr_argnames row = Some nms \<longrightarrow> (\<forall>nm \<in> set nms. ok_cstring nm))"

lemma filled_sendable:
  "filled_ok cat rd False False ti \<Longrightarrow> good_catalog cat rd \<Longrightarrow> sendable_type ti"
  by (simp add: filled_ok_def sendable_type_def info_bound_def)

lemma built_sendable:
  assumes f: "built cat fcinfo row f" and "good_catalog cat (result_desc fcinfo)" and "good_proc_row row"
  shows "sendable_proc f"
proof -
  have "ok_cstring nm" if "from_row row nm" for nm
    using that assms(3) by (auto simp: from_row_def good_proc_row_def ok_cstring_def [of None])
  moreover have "ok_cstring (Some (proc_src f))" "ok_cstring (Some (proc_name f))"
    using assms unfolding built_def good_proc_row_def by metis+
  ultimately show ?thesis
    using assms filled_sendable [OF _ assms(2)] by (simp add: sendable_proc_def built_def good_proc_row_def)
qed

lemma sendable_type_of:
  assumes "sendable_type ti"
  shows "ok_type (type_of_info ti)" "type_depth (type_of_info ti) \<le> 4"
    and "alloc_all w \<Longrightarrow> copy_type_info ti w = Ok (type_of_info ti) w"
  using assms type_of_info_ok [of ti] type_of_info_depth [of ti] copy_run [of ti w]
  by (simp_all add: sendable_type_def)

text \<open>An argument: its type and name are the description's, and its value converts back to the datum.\<close>

definition carries :: "fmgr \<Rightarrow> catalog \<Rightarrow> plcTypeInfo \<Rightarrow> datum option \<Rightarrow> rawdata \<Rightarrow> bool" where
  "carries fm cat ti arg r \<longleftrightarrow> (case arg of
      None \<Rightarrow> r = Rawdata True None
    | Some d \<Rightarrow> (\<exists>v. r = Rawdata False (Some v) \<and> converts fm cat ti d v))"

lemma call_argument_run:
  assumes f: "sendable_proc f" and c: "call_ok fm cat fcinfo f" and i: "i < length (argtypes f)"
  shows "\<exists>r. yields (call_argument fm fcinfo f i)
      \<lparr>argType = type_of_info (argtypes f ! i), argName = argnames f ! i, argData = r\<rparr>
    \<and> carries fm cat (argtypes f ! i) (argdata fcinfo ! i) r \<and> ok_object (type_of_info (argtypes f ! i)) r"
proof -
  let ?ti = "argtypes f ! i"
  have "?ti \<in> types_of f" using i by (simp add: types_of_def)
  then have ti: "sendable_type ?ti" using f by (simp add: sendable_proc_def)
  have nths: "nth_opt (argnames f) i = Some (argnames f ! i)" "nth_opt (argtypes f) i = Some ?ti"
    "nth_opt (argdata fcinfo) i = Some (argdata fcinfo ! i)"
    using f c i by (auto simp: nth_opt_def sendable_proc_def call_ok_def)
  show ?thesis
  proof (cases "argdata fcinfo ! i")
    case None
    then show ?thesis
      using sendable_type_of(3) [OF ti]
      by (intro exI [of _ "Rawdata True None"]) (simp add: yields_def call_argument_def nths carries_def returnM_run)
  next
    case (Some d)
    then have "datum_ok fm cat ?ti d" using c i by (simp add: call_ok_def)
    with out_converts [of ?ti fm cat d] ti obtain v where "yields (out_datum fm ?ti d) v" "converts fm cat ?ti d v"
      by (auto simp: sendable_type_def)
    moreover from this have "ok_object (type_of_info ?ti) (Rawdata False (Some v))" by (simp add: converts_def)
    ultimately show ?thesis
      using Some sendable_type_of(3) [OF ti]
      by (intro exI [of _ "Rawdata False (Some v)"]) (simp del: ok_object.simps add: yields_def call_argument_def nths carries_def returnM_run)
  qed
qed

lemma nargs_count: "n \<le> 100 \<Longrightarrow> sint (of_nat n :: i32) = int n"
  by (rule sint_of_nat_small) simp

text \<open>The call of a description: what is made, what it says, that it travels, and that its arguments arrive.\<close>

definition call_of :: "fmgr \<Rightarrow> catalog \<Rightarrow> call_info \<Rightarrow> plcProcInfo \<Rightarrow> plcMsgCallreq \<Rightarrow> bool" where
  "call_of fm cat fcinfo f c \<longleftrightarrow> yields (pljvm_create_call fm fcinfo f) c \<and> ok_message (MsgCallreq c) \<and> message_depth (MsgCallreq c) \<le> 4
     \<and> objectid c = funcOid f \<and> hasChanged c = proc_hasChanged f \<and> procName c = Some (proc_name f)
     \<and> procSrc c = Some (proc_src f) \<and> retType c = type_of_info (rettype f) \<and> retset c = proc_retset f
     \<and> length (args c) = length (argtypes f)
     \<and> (\<forall>i < length (argtypes f). argName (args c ! i) = argnames f ! i
          \<and> argType (args c ! i) = type_of_info (argtypes f ! i)
          \<and> carries fm cat (argtypes f ! i) (argdata fcinfo ! i) (argData (args c ! i)))"

lemma create_call_run:
  assumes f: "sendable_proc f" and c: "call_ok fm cat fcinfo f"
  shows "\<exists>c. call_of fm cat fcinfo f c"
proof -
  let ?n = "length (argtypes f)"
  have n: "?n \<le> 100" "proc_nargs f = of_nat ?n" using f by (simp_all add: sendable_proc_def)
  have "\<forall>i \<in> {i. i < ?n}. \<exists>r. yields (call_argument fm fcinfo f i)
      \<lparr>argType = type_of_info (argtypes f ! i), argName = argnames f ! i, argData = r\<rparr>
    \<and> carries fm cat (argtypes f ! i) (argdata fcinfo ! i) r \<and> ok_object (type_of_info (argtypes f ! i)) r"
    using call_argument_run [OF f c] by blast
  from bchoice [OF this] obtain r where r: "\<forall>i < ?n. yields (call_argument fm fcinfo f i)
      \<lparr>argType = type_of_info (argtypes f ! i), argName = argnames f ! i, argData = r i\<rparr>"
    "\<forall>i < ?n. carries fm cat (argtypes f ! i) (argdata fcinfo ! i) (r i)
      \<and> ok_object (type_of_info (argtypes f ! i)) (r i)" by auto
  let ?arg = "\<lambda>i. \<lparr>argType = type_of_info (argtypes f ! i), argName = argnames f ! i, argData = r i\<rparr>"
  let ?c = "\<lparr>objectid = funcOid f, hasChanged = proc_hasChanged f, procName = Some (proc_name f),
      procSrc = Some (proc_src f), retType = type_of_info (rettype f), retset = proc_retset f,
      nargs = proc_nargs f, args = map ?arg [0..<?n]\<rparr>"
  have args: "mapM (call_argument fm fcinfo f) [0..<?n] w = Ok (map ?arg [0..<?n]) w" if "alloc_all w" for w
    by (rule mapM_run) (use r(1) that in \<open>simp add: yields_def\<close>)
  have ret: "sendable_type (rettype f)" using f by (simp add: sendable_proc_def types_of_def)
  have "int (size_mult 48 ?n) \<le> MaxAllocSize" "int 72 \<le> MaxAllocSize"
    using n(1) by (simp_all add: size_mult_def MaxAllocSize_def)
  note alloc = alloc_all_run [OF _ this(1)] alloc_all_run [OF _ this(2)]
  have size: "size_of_int (int ?n) = ?n" using n(1) by (simp add: size_of_int_nonneg INT_MAX_def)
  have "yields (pljvm_create_call fm fcinfo f) ?c"
    using args alloc sendable_type_of(3) [OF ret]
    by (simp add: yields_def pljvm_create_call_def fill_callreq_arguments_def n(2) nargs_count [OF n(1)] size returnM_run)
  moreover have "yields (pljvm_create_call fm fcinfo f) ?c \<Longrightarrow> call_of fm cat fcinfo f ?c"
  proof -
    assume made: "yields (pljvm_create_call fm fcinfo f) ?c"
    have types: "sendable_type (argtypes f ! i)" if "i < ?n" for i
      using f that by (simp add: sendable_proc_def types_of_def)
    have "ok_argument (?arg i)" if "i < ?n" for i
      using f that r(2) sendable_type_of(1) [OF types [OF that]] by (simp add: ok_argument_def sendable_proc_def)
    then have "ok_message (MsgCallreq ?c)"
      using f n(1) sendable_type_of(1) [OF ret]
      by (simp add: sendable_proc_def counts_def nargs_count MaxAllocSize_def)
    moreover have "message_depth (MsgCallreq ?c) \<le> 4"
      unfolding message_depth.simps depth_all_def
      by (rule foldr_max_bound) (use sendable_type_of(2) [OF ret] sendable_type_of(2) [OF types] in auto)
    ultimately show ?thesis using r(2) made by (simp add: call_of_def del: ok_message.simps message_depth.simps)
  qed
  ultimately show ?thesis by blast
qed

section \<open>From the cache to the call\<close>

text \<open>All descriptions of the cache can be sent; \<open>get_proc_info\<close> keeps it so.\<close>

definition sendable_cache :: "backend \<Rightarrow> bool" where
  "sendable_cache s \<longleftrightarrow> backend_inv s \<and> (\<forall>f \<in> set (entries (cache s)). sendable_proc f)"

lemma lru_find_mem: "lru_find oid l = Some g \<Longrightarrow> g \<in> set l"
  by (auto simp: lru_find_def find_Some_iff)

lemma set_lru_put: "set (lru_put f l) \<subseteq> insert f (set l)"
  by (auto simp: lru_put_def dest!: in_set_takeD)

lemma set_lru_touch: "set (lru_touch oid l) \<subseteq> set l"
  by (auto simp: lru_touch_def dest: lru_find_mem split: option.splits)

lemma proc_got_sendable:
  assumes got: "proc_got cat fcinfo row s p s'" and s: "sendable_cache s"
    and good: "good_catalog cat (result_desc fcinfo)" "good_proc_row row"
  shows "\<exists>f. procs (cache s') p = Some f \<and> sendable_proc f \<and> sendable_cache s'"
proof -
  obtain f where f: "procs (cache s') p = Some f" "entries (cache s') = lru_put f (entries (cache s))"
    and case_f: "case lru_find (fn_oid fcinfo) (entries (cache s)) of
                None \<Rightarrow> built cat fcinfo row f
              | Some g \<Rightarrow> if proc_current cat row g then f = g\<lparr>proc_hasChanged := 0\<rparr> else built cat fcinfo row f"
    and inv: "backend_inv s'"
    using got unfolding proc_got_def by blast
  have new: "sendable_proc f" if "built cat fcinfo row f"
    by (rule built_sendable [OF that good])
  have "sendable_proc f"
  proof (cases "lru_find (fn_oid fcinfo) (entries (cache s))")
    case None
    with case_f new show ?thesis by simp
  next
    case (Some g)
    then have g: "sendable_proc g" using s lru_find_mem by (simp add: sendable_cache_def)
    show ?thesis
    proof (cases "proc_current cat row g")
      case True
      with case_f Some have "f = g\<lparr>proc_hasChanged := 0\<rparr>" by simp
      with g show ?thesis by (simp add: sendable_proc_def types_of_def)
    next
      case False
      with case_f Some new show ?thesis by simp
    qed
  qed
  with f inv s set_lru_put [of f "entries (cache s)"] show ?thesis
    by (auto simp: sendable_cache_def)
qed

end
