(* ===== verification/Sql_Handler.thy ===== *)
theory Sql_Handler
  imports Call_Request
begin

text \<open>
  \<^verbatim>\<open>src/sqlhandler.c\<close>: the SQL statements an executor sends while it runs a function, and the result
  message made of their rows.
\<close>

section \<open>Operations\<close>

text \<open>
  \<open>SPI_exec\<close> answers from the script of the state. The functions the statement calls look up their
  descriptions in the same cache. A NULL statement is refused with an error code.
\<close>

definition spi_exec :: "sys_catalog \<Rightarrow> cstr \<Rightarrow> (backend, spi_table option) prog" where
  "spi_exec cat stmt = (\<lambda>s.
     if stmt = None then Ok None s
     else case spi s of
       [] \<Rightarrow> Blocked s
     | Spi_rows calls t # es \<Rightarrow>
         bindM (mapM (get_proc_info cat) calls) (\<lambda>_. returnM (Some t)) (s\<lparr>spi := es\<rparr>)
     | Spi_other # es \<Rightarrow> Ok None (s\<lparr>spi := es\<rparr>)
     | Spi_error msg # es \<Rightarrow> Elog (E_msg msg) (s\<lparr>spi := es\<rparr>))"

definition result_column :: "catalog \<Rightarrow> oid \<times> byte list \<Rightarrow> (world, plcTypeInfo \<times> plcType \<times> cstr) prog" where
  "result_column cat col =
     bindM (fill_type_info cat None (fst col)) (\<lambda>ti.
     bindM (copy_type_info ti) (\<lambda>t.
     bindM (strdup (snd col)) (\<lambda>nm.
     returnM (ti, t, Some nm))))"

definition result_cell :: "fmgr \<Rightarrow> plcTypeInfo \<times> datum option \<Rightarrow> (world, rawdata) prog" where
  "result_cell fm c =
     (case snd c of
        None \<Rightarrow> returnM (Rawdata True None)
      | Some d \<Rightarrow> bindM (out_datum fm (fst c) d) (\<lambda>v. returnM (Rawdata False (Some v))))"

definition result_row :: "fmgr \<Rightarrow> plcTypeInfo list \<Rightarrow> datum option list \<Rightarrow> (world, rawdata list) prog" where
  "result_row fm tis vals =
     bindM (plc_alloc (size_mult (length tis) 16)) (\<lambda>_.
     bindM (checkM OutOfBounds (length tis \<le> length vals)) (\<lambda>_.
     mapM (result_cell fm) (zip tis vals)))"

text \<open>
  \<open>create_sql_result\<close> frees the descriptions of the columns before it returns, but the iterator of an array
  still points to its description, and the caller sends the result later: what its \<open>next\<close> would
  read is gone. Values have no addresses here, so \<open>dangle\<close> only records this: it takes the objects from the iterators, and the
  first \<open>next\<close> is \<open>Stuck\<close>. That it is so is proved on blocks of memory, of the loop that frees the descriptions and of
  \<open>next\<close>, in \<open>Release_Props\<close> (\<open>released_columns_dangle\<close>).
\<close>

fun dangle :: "rawdata \<Rightarrow> rawdata" where
  "dangle (Rawdata isn v) = Rawdata isn (case v of
       Some (VIter m ds) \<Rightarrow> Some (VIter m [])
     | Some (VUdt ds) \<Rightarrow> Some (VUdt (map dangle ds))
     | _ \<Rightarrow> v)"

definition create_sql_result :: "fmgr \<Rightarrow> catalog \<Rightarrow> spi_table \<Rightarrow> (world, plcMsgResult) prog" where
  "create_sql_result fm cat tab =
     (let natts = length (sp_cols tab); processed = length (sp_rows tab) in
      bindM (plc_alloc 48) (\<lambda>_.
      bindM (plc_alloc (size_mult natts 24)) (\<lambda>_.
      bindM (plc_alloc (size_mult natts 8)) (\<lambda>_.
      bindM (plc_alloc (size_mult natts SIZEOF_plcTypeInfo)) (\<lambda>_.
      bindM (mapM (result_column cat) (sp_cols tab)) (\<lambda>columns.
      bindM (if processed = 0 then returnM []
             else
               bindM (plc_alloc (size_mult 8 processed)) (\<lambda>_.
               mapM (result_row fm (map fst columns)) (sp_rows tab))) (\<lambda>data.
      returnM \<lparr>rows = of_nat processed, cols = of_nat natts, types = map (\<lambda>c. fst (snd c)) columns,
        names = map (\<lambda>c. snd (snd c)) columns, rdata = map (map dangle) data,
        exception_callback = None\<rparr>)))))))"

text \<open>
  \<open>PG_TRY ... PG_CATCH ... PG_RE_THROW\<close>: an error raised by the handler itself takes the place of the first one. An error of
  level \<open>FATAL\<close> or \<open>PANIC\<close> ends the process, and no handler runs.
\<close>

definition is_fatal :: "elog \<Rightarrow> bool" where
  "is_fatal e = (case e of E_fatal _ \<Rightarrow> True | E_report l _ \<Rightarrow> 20 < l | _ \<Rightarrow> False)"

definition try_catch :: "('s, 'a) prog \<Rightarrow> ('s, unit) prog \<Rightarrow> ('s, 'a) prog" where
  "try_catch m catch = (\<lambda>s. case m s of
      Elog e t \<Rightarrow> if is_fatal e then Elog e t else bindM catch (\<lambda>_. elogM e) t
    | r \<Rightarrow> r)"

lemma try_Ok [simp]: "m s = Ok x t \<Longrightarrow> try_catch m catch s = Ok x t"
  by (simp add: try_catch_def)

lemma keeps_try:
  assumes "keeps I m J E" and "keeps E catch E' E'" and "\<And>s. E s \<Longrightarrow> E' s"
  shows "keeps I (try_catch m catch) J E'"
  unfolding keeps_def
proof (intro allI impI)
  fix s
  assume "I s"
  with assms(1) have m: "case m s of Ok x t \<Rightarrow> J t | Elog e t \<Rightarrow> E t | _ \<Rightarrow> True" by (simp add: keeps_def)
  show "case try_catch m catch s of Ok x t \<Rightarrow> J t | Elog e t \<Rightarrow> E' t | _ \<Rightarrow> True"
  proof (cases "m s")
    case (Elog e t)
    with m assms(2) have "case catch t of Ok x t \<Rightarrow> E' t | Elog e t \<Rightarrow> E' t | _ \<Rightarrow> True" by (simp add: keeps_def)
    with m assms(3) Elog show ?thesis
      by (auto simp: try_catch_def bindM_def elogM_def split: outcome.split)
  qed (use m in \<open>simp_all add: try_catch_def\<close>)
qed

text \<open>
  \<open>BeginInternalSubTransaction\<close>, \<open>ReleaseCurrentSubTransaction\<close> and \<open>RollbackAndReleaseCurrentSubTransaction\<close>: each may raise,
  and then it has opened or closed none.
\<close>

definition begin_subxact :: "(backend, unit) prog" where
  "begin_subxact = bindM raising_call (\<lambda>_ s. Ok () (s\<lparr>subxacts := subxacts s + 1\<rparr>))"

definition end_subxact :: "(backend, unit) prog" where
  "end_subxact = bindM raising_call (\<lambda>_ s. Ok () (s\<lparr>subxacts := subxacts s - 1\<rparr>))"

definition rollback_subxact :: "(backend, unit) prog" where
  "rollback_subxact = bindM raising_call (\<lambda>_ s. Ok () (s\<lparr>subxacts := subxacts s - 1\<rparr>))"

text \<open>
  The subtransaction is begun inside \<open>PG_TRY\<close>: when that raises, the handler rolls back a subtransaction all the same.
  \<open>SPI_freetuptable\<close> has no effect on this state.
\<close>

definition handle_sql_message :: "fmgr \<Rightarrow> sys_catalog \<Rightarrow> plcMsgSQL \<Rightarrow> (backend, plcMsgResult) prog" where
  "handle_sql_message fm cat msg =
     try_catch
       (bindM begin_subxact (\<lambda>_.
        bindM (spi_exec cat (statement msg)) (\<lambda>tab.
        bindM (case tab of
                 None \<Rightarrow> elogM (E_msg ''cannot handle non-select sql at the moment'')
               | Some tab \<Rightarrow> in_world (create_sql_result fm (tcat cat) tab)) (\<lambda>result.
        bindM end_subxact (\<lambda>_.
        returnM result)))))
       rollback_subxact"

end
