(* ===== verification/Call_Handler.thy ===== *)
theory Call_Handler
  imports Sql_Handler
begin

text \<open>
  \<^verbatim>\<open>src/pljvm.c\<close>: the language's call handler. It takes the description of the function, sends the call
  to the executor, answers the executor's requests until the result comes, and converts the
  result's rows.
\<close>

section \<open>The messages of the executor\<close>

definition ERROR :: int where "ERROR = 20"

text \<open>\<open>ereport\<close> with the level the executor asks for: from \<open>ERROR\<close> on it does not return.\<close>

definition pljvm_process_log :: "plcMsgLog \<Rightarrow> (backend, unit) prog" where
  "pljvm_process_log log = (\<lambda>s.
     if ERROR \<le> sint (level log) then Elog (E_report (sint (level log)) (lmessage log)) s
     else Ok () (s\<lparr>reports := reports s @ [(level log, lmessage log)]\<rparr>))"

definition pljvm_process_exception :: "plcMsgError \<Rightarrow> (backend, 'a) prog" where
  "pljvm_process_exception msg = elogM (E_client (emessage msg) (stacktrace msg))"

text \<open>The result of the send is not looked at. The result message is released as that of a sender.\<close>

definition pljvm_process_sql :: "fmgr \<Rightarrow> sys_catalog \<Rightarrow> plcMsgSQL \<Rightarrow> (backend, unit) prog" where
  "pljvm_process_sql fm cat msg =
     bindM (handle_sql_message fm cat msg) (\<lambda>res.
     bindM (in_world (pljvm_channel_send (MsgResult res))) (\<lambda>_.
     release_result True res))"

fun msg_code :: "plcMessage \<Rightarrow> i16" where
  "msg_code MsgPing = ucast MT_PING"
| "msg_code (MsgCallreq c) = ucast MT_CALLREQ"
| "msg_code (MsgResult r) = ucast MT_RESULT"
| "msg_code (MsgError e) = ucast MT_EXCEPTION"
| "msg_code (MsgLog l) = ucast MT_LOG"
| "msg_code (MsgSQL q) = ucast MT_SQL"
| "msg_code (MsgUnknown t) = t"

text \<open>The body of the loop: \<open>Some\<close> result ends it.\<close>

definition process_answer :: "fmgr \<Rightarrow> sys_catalog \<Rightarrow> (backend, plcMsgResult option) prog" where
  "process_answer fm cat =
     bindM (in_world pljvm_channel_receive) (\<lambda>(res, answer).
     if res < 0 then elogM (E_receiving res)
     else
       bindM (needM Uninit answer) (\<lambda>answer.
       case answer of
         MsgResult r \<Rightarrow> bindM (in_world (plc_alloc 16)) (\<lambda>_. returnM (Some r))
       | MsgError e \<Rightarrow> pljvm_process_exception e
       | MsgSQL q \<Rightarrow> bindM (pljvm_process_sql fm cat q) (\<lambda>_. returnM None)
       | MsgLog l \<Rightarrow> bindM (pljvm_process_log l) (\<lambda>_. returnM None)
       | _ \<Rightarrow> elogM (E_unhandled_message (msg_code answer))))"

text \<open>At most \<open>n\<close> turns; \<open>None\<close> when the loop would go on.\<close>

primrec answer_loop :: "nat \<Rightarrow> fmgr \<Rightarrow> sys_catalog \<Rightarrow> (backend, plcMsgResult option) prog" where
  "answer_loop 0 fm cat = returnM None"
| "answer_loop (Suc n) fm cat =
     bindM (process_answer fm cat) (\<lambda>r.
     case r of Some r \<Rightarrow> returnM (Some r) | None \<Rightarrow> answer_loop n fm cat)"

section \<open>The call\<close>

text \<open>\<open>plcProcResult\<close>: the result message and the next row.\<close>

record plcProcResult =
  resmsg :: plcMsgResult
  resrow :: int

datatype call_result =
    No_connection              \<comment> \<open>NULL\<close>
  | Result plcProcResult
  | Unfinished                 \<comment> \<open>the loop is not over after the given number of turns\<close>

definition pljvm_get_result :: "nat \<Rightarrow> fmgr \<Rightarrow> sys_catalog \<Rightarrow> call_info \<Rightarrow> procptr
    \<Rightarrow> (backend, call_result) prog" where
  "pljvm_get_result n fm cat fcinfo pinfo =
     bindM plcConnect (\<lambda>conn.
     if conn then
       bindM (in_cache (deref pinfo)) (\<lambda>f.
       bindM (in_world (pljvm_create_call fm fcinfo f)) (\<lambda>req.
       bindM (in_world (pljvm_channel_send (MsgCallreq req))) (\<lambda>_.
       bindM (release_callreq True req) (\<lambda>_.
       bindM (answer_loop n fm cat) (\<lambda>r.
       case r of
         None \<Rightarrow> returnM Unfinished
       | Some r \<Rightarrow>
           bindM plcDisconnect (\<lambda>_.
           returnM (Result \<lparr>resmsg = r, resrow = 0\<rparr>)))))))
     else returnM No_connection)"

text \<open>The value of a row: \<open>None\<close> is SQL NULL. A row of a result without columns is a NULL pointer.\<close>

definition pljvm_process_result :: "fmgr \<Rightarrow> catalog \<Rightarrow> procptr \<Rightarrow> plcProcResult
    \<Rightarrow> (backend, datum option) prog" where
  "pljvm_process_result fm cat pinfo presult =
     (let r = resmsg presult in
      if 1 < sint (cols r) then elogM (E_msg ''Functions returning multiple columns are not supported yet'')
      else if rows r = 0 then returnM None
      else if sint (rows r) \<le> resrow presult then elogM (E_msg ''Trying to access result row of the result set'')
      else
        bindM (needM OutOfBounds (nth_opt (rdata r) (nat (resrow presult)))) (\<lambda>row.
        case row of
          [] \<Rightarrow> stuckM NullDeref
        | Rawdata isn v # _ \<Rightarrow>
            if \<not> isn then
              bindM (in_cache (deref pinfo)) (\<lambda>f.
              bindM (in_world (in_datum fm cat (rettype f) v)) (\<lambda>d.
              returnM (Some d)))
            else returnM None))"

text \<open>
  \<open>pljvm_call_hook\<close>. \<open>srf\<close> is \<open>fn_extra\<close> and \<open>user_fctx\<close> of a set-returning function: \<open>None\<close> before its
  first call. After the last row, and after the row of a function that returns no set, the result message is released as that of
  a receiver. \<open>SRF_RETURN_DONE\<close> with the NULL \<open>funcctx\<close> of a function that does not return a set
  dereferences it.
\<close>

datatype hook_result =
    Value "datum option"                              \<comment> \<open>returned, with \<open>fcinfo->isnull\<close>\<close>
  | Row "datum option" plcProcResult                  \<comment> \<open>\<open>SRF_RETURN_NEXT\<close>\<close>
  | Done                                              \<comment> \<open>\<open>SRF_RETURN_DONE\<close>\<close>
  | Running                                           \<comment> \<open>the number of turns was not enough\<close>

definition return_row :: "fmgr \<Rightarrow> catalog \<Rightarrow> call_info \<Rightarrow> procptr \<Rightarrow> plcProcResult
    \<Rightarrow> (backend, hook_result) prog" where
  "return_row fm cat fcinfo pinfo presult =
     (if sint (rows (resmsg presult)) \<le> resrow presult then
        bindM (release_result False (resmsg presult)) (\<lambda>_.
        bindM (checkM NullDeref (fn_retset fcinfo)) (\<lambda>_. returnM Done))
      else
        bindM (pljvm_process_result fm cat pinfo presult) (\<lambda>result.
        if fn_retset fcinfo then returnM (Row result (presult\<lparr>resrow := resrow presult + 1\<rparr>))
        else bindM (release_result False (resmsg presult)) (\<lambda>_. returnM (Value result))))"

definition pljvm_call_hook :: "nat \<Rightarrow> fmgr \<Rightarrow> sys_catalog \<Rightarrow> call_info \<Rightarrow> plcProcResult option option
    \<Rightarrow> (backend, hook_result) prog" where
  "pljvm_call_hook n fm cat fcinfo srf =
     bindM (get_proc_info cat fcinfo) (\<lambda>pinfo.
     bindM (if fn_retset fcinfo \<and> srf \<noteq> None
            then returnM (case the srf of None \<Rightarrow> No_connection | Some r \<Rightarrow> Result r)
            else pljvm_get_result n fm cat fcinfo pinfo) (\<lambda>presult.
     case presult of
       No_connection \<Rightarrow> returnM (Value None)
     | Unfinished \<Rightarrow> returnM Running
     | Result presult \<Rightarrow> return_row fm (tcat cat) fcinfo pinfo presult))"

definition set_caller_context :: "nat \<Rightarrow> (backend, nat) prog" where
  "set_caller_context c = (\<lambda>s. Ok (caller_context s) (s\<lparr>caller_context := c\<rparr>))"

text \<open>
  \<open>pljvm_call_handler\<close>, in memory context \<open>ctx\<close>. The \<open>PG_CATCH\<close> of the code does nothing and throws again.
\<close>

definition pljvm_call_handler :: "nat \<Rightarrow> nat \<Rightarrow> fmgr \<Rightarrow> sys_catalog \<Rightarrow> call_info \<Rightarrow> plcProcResult option option
    \<Rightarrow> (backend, hook_result) prog" where
  "pljvm_call_handler ctx n fm cat fcinfo srf =
     (if call_trigger fcinfo then elogM (E_msg ''PL/Container does not support triggers'')
      else
        bindM (set_caller_context ctx) (\<lambda>oldMC.
        bindM (status_call ''SPI connect error'') (\<lambda>_.
        bindM (pljvm_call_hook n fm cat fcinfo srf) (\<lambda>datumreturn.
        bindM (status_call ''SPI finish error'') (\<lambda>_.
        bindM (set_caller_context oldMC) (\<lambda>_.
        returnM datumreturn))))))"

text \<open>The end of the handler.\<close>

abbreviation leave :: "nat \<Rightarrow> hook_result \<Rightarrow> (backend, hook_result) prog" where
  "leave c d \<equiv> bindM (status_call ''SPI finish error'') (\<lambda>_. bindM (set_caller_context c) (\<lambda>_. returnM d))"

lemma leave_run: "refusals s = [] \<Longrightarrow> leave c d s = Ok d (s\<lparr>caller_context := c\<rparr>)"
  by (simp add: bindM_def set_caller_context_def returnM_def)

end
