(* ===== verification/Call_Facts.thy ===== *)
theory Call_Facts
  imports Call_Handler
begin

text \<open>
  What the call handler does with the executor's messages, turn by turn, and what of the
  database side's state each of its parts can change.
\<close>

lemma in_world_Ok: "m (bw s) = Ok x w \<Longrightarrow> in_world m s = Ok x (s\<lparr>bw := w\<rparr>)"
  by (simp add: via_def)

section \<open>Releasing messages\<close>

text \<open>A cell that is released without going through a NULL pointer: it is empty, or nothing in it is NULL without being marked.\<close>

definition releasable :: "rawdata \<Rightarrow> bool" where
  "releasable d \<longleftrightarrow> rvalue d = None \<or> marked d"

lemma releasable_carries: "carries fm cat ti x r \<Longrightarrow> releasable r"
  by (auto simp: carries_def releasable_def converts_def split: option.splits)

lemma release_sent:
  assumes ok: "ok_object t d" and d: "releasable d"
  shows "release_data True t d = (returnM () :: ('s, unit) prog)"
proof (cases "rvalue d = None \<or> ty t \<noteq> PLC_DATA_UDT")
  case False
  then obtain isn ds where d': "d = Rawdata isn (Some (VUdt ds))" "\<not> isn"
    using ok by (cases d) (auto split: if_splits rvalue.splits)
  with ok d have t: "nat (sint (nSubTypes t)) = length ds" "length (subTypes t) = length ds" "\<forall>d \<in> set ds. marked d"
    by (auto simp: releasable_def)
  have "free_value (rvalue x) = (returnM () :: ('s, unit) prog)" if "x \<in> set ds" "\<not> isnull x" for x
    using marked_value [of x] t(3) that by (auto simp: free_value_def split: option.split)
  with t have "release_udt (Some (VUdt ds)) t True = (returnM () :: ('s, unit) prog)"
    by (auto simp: release_udt.simps dest: set_zip_rightD intro!: traverse_skip)
  with d' False show ?thesis by (simp add: release_data_def)
qed (auto simp: release_data_def)

lemma release_call_of:
  assumes "call_of fm cat fcinfo f c"
  shows "release_callreq True c = (returnM () :: ('s, unit) prog)"
proof -
  have n: "nat (sint (nargs c)) = length (args c)" and ok: "\<forall>a \<in> set (args c). ok_object (argType a) (argData a)"
    using assms by (auto simp: call_of_def counts_def ok_argument_def)
  have "releasable (argData a)" if "a \<in> set (args c)" for a
    using that assms releasable_carries by (force simp: call_of_def in_set_conv_nth)
  with n ok show ?thesis
    unfolding release_callreq_def by (intro traverse_skip) (auto intro: release_sent)
qed

lemma release_result_sent:
  assumes "ok_message (MsgResult r)" and "exception_callback r = None" and "\<forall>row \<in> set (rdata r). \<forall>d \<in> set row. releasable d"
  shows "release_result True r = (returnM () :: ('s, unit) prog)"
proof -
  have n: "nat (sint (rows r)) = length (rdata r)" "nat (sint (cols r)) = length (types r)"
    "\<forall>row \<in> set (rdata r). ok_row (types r) row"
    using assms(1,2) by (auto simp: counts_def)
  have "traverse (length (types r)) (zip (types r) row) (\<lambda>(t, d). release_data True t d) = (returnM () :: ('s, unit) prog)"
    if "row \<in> set (rdata r)" for row
    using n(3) assms(3) that
    by (intro traverse_skip) (auto simp: ok_row_def dest: set_zip_rightD intro!: release_sent)
  note each_row = this
  show ?thesis unfolding release_result_def n by (rule traverse_skip) (simp_all add: each_row)
qed

lemma release_result_got:
  assumes "ok_message (MsgResult r)" and "deliver_message (MsgResult r) = MsgResult r'"
    and "\<forall>row \<in> set (rdata r). \<forall>d \<in> set row. releasable d"
  shows "release_result False r' = (returnM () :: ('s, unit) prog)"
proof -
  have "sent_exception r = None" using assms(2) by (cases "sent_exception r") simp_all
  then have r: "r' = r\<lparr>rdata := map (map deliver) (rdata r), exception_callback := None\<rparr>" using assms(2) by simp
  show ?thesis
    unfolding r using assms(1,3) by (intro release_result_delivered [where rws = "rdata r"]) (auto simp: counts_def releasable_def)
qed

section \<open>Connecting\<close>

definition memory_good :: "world \<Rightarrow> bool" where
  "memory_good w \<longleftrightarrow> alloc_law w \<and> alloc_all w"

lemma conn_init_run:
  assumes "memory_good w"
  shows "\<exists>w'. plcConnInit s w = Ok () w' \<and> conn_inv w' \<and> alloc_all w' \<and> stack w' = stack w
    \<and> in_stream w' = avail (recvs w) \<and> out_stream w' = wire w \<and> sends w' = sends w \<and> sock (conn w') = s"
  using assms
  by (simp add: memory_good_def plcConnInit_def bindM_def plc_alloc_def alloc_all_def size_of_int_def conn_inv_def
      buf_inv_def alloc_law_def size_defs content_def out_stream_def in_stream_def)

lemma connect_run:
  assumes "connects s = Connected sck rs ss # cs" and "memory_good (bw s)" and "stack (bw s) = d"
    and "\<forall>e \<in> set ss. \<exists>n. e = SAccept (Suc n)"
  shows "\<exists>w. plcConnect s = Ok True (s\<lparr>connects := cs, open_socks := Suc (open_socks s), bw := w\<rparr>)
    \<and> healthy d w \<and> in_stream w = avail rs \<and> out_stream w = []"
proof -
  let ?w = "(bw s)\<lparr>recvs := rs, sends := ss, wire := []\<rparr>"
  have "memory_good ?w" using assms(2) by (simp add: memory_good_def alloc_law_def alloc_all_def)
  from conn_init_run [OF this, of sck] obtain w where "plcConnInit sck ?w = Ok () w" "conn_inv w" "alloc_all w"
    "stack w = d" "in_stream w = avail rs" "out_stream w = []" "sends w = ss"
    using assms(3) by auto
  then show ?thesis
    using assms(1,4) by (auto simp: plcConnect_def bindM_def via_def returnM_def healthy_def sends_good_def)
qed

section \<open>The turns of the loop\<close>

lemma answer_received:
  assumes "ok_message m" and "message_depth m \<le> d" and "healthy d (bw s)"
    and "in_stream (bw s) = enc_message m @ rest"
  shows "\<exists>w. in_world pljvm_channel_receive s = Ok (0, Some (deliver_message m)) (s\<lparr>bw := w\<rparr>)
    \<and> healthy d w \<and> in_stream w = rest \<and> out_stream w = out_stream (bw s)"
  using channel_receive_ok [OF assms] by (auto simp: via_def)

lemma turn_log:
  assumes "ok_message (MsgLog l)" and "healthy d (bw s)" and "in_stream (bw s) = enc_message (MsgLog l) @ rest"
    and "sint (level l) < ERROR"
  shows "\<exists>w. process_answer fm cat s = Ok None (s\<lparr>bw := w, reports := reports s @ [(level l, lmessage l)]\<rparr>)
    \<and> healthy d w \<and> in_stream w = rest \<and> out_stream w = out_stream (bw s)"
proof -
  obtain w where "in_world pljvm_channel_receive s = Ok (0, Some (MsgLog l)) (s\<lparr>bw := w\<rparr>)"
    "healthy d w" "in_stream w = rest" "out_stream w = out_stream (bw s)"
    using answer_received [OF assms(1) _ assms(2,3)] by auto
  moreover from this assms(4) have "pljvm_process_log l (s\<lparr>bw := w\<rparr>)
      = Ok () (s\<lparr>bw := w, reports := reports s @ [(level l, lmessage l)]\<rparr>)"
    by (simp add: pljvm_process_log_def)
  ultimately show ?thesis
    by (auto simp: process_answer_def returnM_run)
qed

lemma turn_result:
  assumes "ok_message (MsgResult r)" and "message_depth (MsgResult r) \<le> d" and "healthy d (bw s)"
    and "in_stream (bw s) = enc_message (MsgResult r) @ rest" and "deliver_message (MsgResult r) = MsgResult r'"
  shows "\<exists>w. process_answer fm cat s = Ok (Some r') (s\<lparr>bw := w\<rparr>)
    \<and> healthy d w \<and> in_stream w = rest \<and> out_stream w = out_stream (bw s)"
proof -
  obtain w where w: "in_world pljvm_channel_receive s = Ok (0, Some (MsgResult r')) (s\<lparr>bw := w\<rparr>)"
    "healthy d w" "in_stream w = rest" "out_stream w = out_stream (bw s)"
    using answer_received [OF assms(1-4)] assms(5) by auto
  then have "in_world (plc_alloc 16) (s\<lparr>bw := w\<rparr>) = Ok (replicate 16 (junk w)) (s\<lparr>bw := w\<rparr>)"
    using alloc_all_run [of w 16] by (simp add: via_def healthy_def MaxAllocSize_def)
  with w show ?thesis by (auto simp: process_answer_def returnM_def)
qed

lemma turn_error:
  assumes "ok_message m" and "message_depth m \<le> d" and "healthy d (bw s)"
    and "in_stream (bw s) = enc_message m @ rest" and "deliver_message m = MsgError e"
  shows "\<exists>w. process_answer fm cat s = Elog (E_client (emessage e) (stacktrace e)) (s\<lparr>bw := w\<rparr>)
    \<and> out_stream w = out_stream (bw s)"
  using answer_received [OF assms(1-4)] assms(5)
  by (auto simp: process_answer_def pljvm_process_exception_def elogM_def)

section \<open>The call\<close>

text \<open>What the call needs: a live description of the function, values for its arguments, memory, and server functions that work.\<close>

definition callable :: "fmgr \<Rightarrow> sys_catalog \<Rightarrow> call_info \<Rightarrow> procptr \<Rightarrow> plcProcInfo \<Rightarrow> backend \<Rightarrow> bool" where
  "callable fm cat fcinfo p f s \<longleftrightarrow> procs (cache s) p = Some f \<and> sendable_proc f
     \<and> call_ok fm (tcat cat) fcinfo f \<and> memory_good (bw s) \<and> refusals s = []"

definition executor :: "recv_ev list \<Rightarrow> send_ev list \<Rightarrow> byte list \<Rightarrow> connect_ev \<Rightarrow> bool" where
  "executor rs ss bs c \<longleftrightarrow> (\<exists>sck. c = Connected sck rs ss) \<and> (\<forall>e \<in> set ss. \<exists>n. e = SAccept (Suc n)) \<and> avail rs = bs"

lemma call_sent:
  assumes call: "callable fm cat fcinfo p f s" and ex: "connects s = c # cs" "executor rs ss bs c"
  shows "\<exists>req w. call_of fm (tcat cat) fcinfo f req \<and> healthy (stack (bw s)) w \<and> in_stream w = bs
    \<and> out_stream w = enc_message (MsgCallreq req) \<and> wire w = enc_message (MsgCallreq req)
    \<and> pljvm_get_result n fm cat fcinfo p s = bindM (answer_loop n fm cat) (\<lambda>r.
       case r of
         None \<Rightarrow> returnM Unfinished
       | Some r \<Rightarrow> bindM plcDisconnect (\<lambda>_. returnM (Result \<lparr>resmsg = r, resrow = 0\<rparr>)))
      (s\<lparr>connects := cs, open_socks := Suc (open_socks s), bw := w\<rparr>)"
proof -
  obtain sck where c: "connects s = Connected sck rs ss # cs" "\<forall>e \<in> set ss. \<exists>n. e = SAccept (Suc n)" "avail rs = bs"
    using ex by (auto simp: executor_def)
  have f: "procs (cache s) p = Some f" "sendable_proc f" "call_ok fm (tcat cat) fcinfo f" "memory_good (bw s)"
    using call by (simp_all add: callable_def)
  obtain w where w: "plcConnect s = Ok True (s\<lparr>connects := cs, open_socks := Suc (open_socks s), bw := w\<rparr>)"
    "healthy (stack (bw s)) w" "in_stream w = bs" "out_stream w = []"
    using connect_run [OF c(1) f(4) refl c(2)] c(3) by auto
  let ?s = "s\<lparr>connects := cs, open_socks := Suc (open_socks s), bw := w\<rparr>"
  have "alloc_all w" using w(2) by (simp add: healthy_def)
  with create_call_run [OF f(2,3)] obtain req where req: "pljvm_create_call fm fcinfo f w = Ok req w"
    "call_of fm (tcat cat) fcinfo f req" by (auto simp: call_of_def intro: yields_run)
  then have "ok_message (MsgCallreq req)" by (simp add: call_of_def del: ok_message.simps)
  from channel_send_ok [OF this w(2)] obtain w' where w': "pljvm_channel_send (MsgCallreq req) w = Ok 0 w'"
    "healthy (stack (bw s)) w'" "in_stream w' = bs" "out_stream w' = enc_message (MsgCallreq req)" "wire w' = enc_message (MsgCallreq req)"
    using w(3,4) by auto
  have free: "release_callreq True req = (returnM () :: (backend, unit) prog)" by (rule release_call_of [OF req(2)])
  have steps: "in_cache (deref p) ?s = Ok f ?s" "in_world (pljvm_create_call fm fcinfo f) ?s = Ok req ?s"
    "in_world (pljvm_channel_send (MsgCallreq req)) ?s = Ok 0 (?s\<lparr>bw := w'\<rparr>)"
    using f(1) req(1) w'(1) by (simp_all add: via_def deref_def del: pljvm_channel_send.simps)
  have "pljvm_get_result n fm cat fcinfo p s = bindM (answer_loop n fm cat) (\<lambda>r.
       case r of
         None \<Rightarrow> returnM Unfinished
       | Some r \<Rightarrow> bindM plcDisconnect (\<lambda>_. returnM (Result \<lparr>resmsg = r, resrow = 0\<rparr>)))
      (s\<lparr>connects := cs, open_socks := Suc (open_socks s), bw := w'\<rparr>)"
    using w(1) steps free by (simp add: pljvm_get_result_def del: pljvm_channel_send.simps)
  with req(2) w'(2-5) show ?thesis by blast
qed

end
