(* ===== verification/Sql_Facts.thy ===== *)
theory Sql_Facts
  imports Call_Facts
begin

text \<open>
  What \<open>create_sql_result\<close> makes of the rows of a statement, and the executor's requests of a whole call.
\<close>

lemma mapM_Ok_from: "mapM f xs s = Ok ys s' \<Longrightarrow> y \<in> set ys \<Longrightarrow> \<exists>x \<in> set xs. \<exists>t t'. f x t = Ok y t'"
proof (induction xs arbitrary: s ys)
  case (Cons x xs)
  then obtain z t zs where z: "f x s = Ok z t" "mapM f xs t = Ok zs s'" "ys = z # zs"
    by (auto simp: bindM_Ok_iff)
  show ?case
  proof (cases "y = z")
    case True
    with z(1) show ?thesis by auto
  next
    case False
    with Cons.IH [OF z(2)] Cons.prems(2) z(3) show ?thesis by auto
  qed
qed simp

section \<open>Values without arrays\<close>

fun flat_info :: "plcTypeInfo \<Rightarrow> bool" where
  "flat_info (TypeInfo f subs) \<longleftrightarrow> outfunc f \<noteq> Some As_array \<and> (\<forall>s \<in> set subs. flat_info s)"

fun no_iter :: "rawdata \<Rightarrow> bool" where
  "no_iter (Rawdata isn v) = (case v of
       Some (VIter m ds) \<Rightarrow> False
     | Some (VUdt ds) \<Rightarrow> \<forall>d \<in> set ds. no_iter d
     | _ \<Rightarrow> True)"

lemma dangle_none: "no_iter r \<Longrightarrow> dangle r = r"
proof (induction r rule: dangle.induct)
  case (1 isn v)
  then show ?case by (auto split: option.splits rvalue.splits intro!: map_idI)
qed

lemma out_no_iter:
  "out_datum fm ti d w = Ok v w' \<Longrightarrow> flat_info ti \<Longrightarrow> no_iter (Rawdata False (Some v))"
proof (induction ti arbitrary: d w v w')
  case (TypeInfo f subs)
  then obtain out where out: "outfunc f = Some out" "out \<noteq> As_array"
    by (cases "outfunc f") (auto simp: out_datum.simps stuckM_def)
  show ?case
  proof (cases "out = As_udt")
    case True
    then have run: "plc_datum_as_udt (\<lambda>t d. out_datum fm t d) subs d w = Ok v w'"
      using TypeInfo.prems(1) out(1) by (simp add: out_datum.simps)
    then obtain vs where "d = DTuple vs" by (cases d) (simp_all add: plc_datum_as_udt_def stuckM_def)
    with run obtain ds w1 w2 where ds: "v = VUdt ds" "mapM (\<lambda>(t, v). case v of
                       None \<Rightarrow> returnM (Rawdata True None)
                     | Some d \<Rightarrow> bindM (out_datum fm t d) (\<lambda>x. returnM (Rawdata False (Some x))))
                  (filter (\<lambda>(t, v). \<not> attisdropped (info t)) (zip subs (vs @ replicate (length subs) None))) w1 = Ok ds w2"
      by (auto simp: plc_datum_as_udt_def bindM_Ok_iff)
    have "no_iter r" if "r \<in> set ds" for r
    proof -
      from mapM_Ok_from [OF ds(2) that] obtain t x u u' where "t \<in> set subs"
        "(case x of None \<Rightarrow> returnM (Rawdata True None)
          | Some d \<Rightarrow> bindM (out_datum fm t d) (\<lambda>x. returnM (Rawdata False (Some x)))) u = Ok r u'"
        by (auto dest: set_zip_leftD)
      with TypeInfo.IH [of t] TypeInfo.prems(2) show ?thesis
        by (cases x) (auto simp: bindM_Ok_iff simp del: no_iter.simps(1), simp_all)
    qed
    with ds(1) show ?thesis by simp
  next
    case False
    with out TypeInfo.prems(1) show ?thesis
      by (cases out; cases d) (auto simp: out_datum.simps scalar_conversions bindM_Ok_iff stuckM_def split: option.splits)
  qed
qed

section \<open>The result of a statement\<close>

abbreviation fills :: "catalog \<Rightarrow> oid \<Rightarrow> plcTypeInfo \<Rightarrow> bool" where
  "fills cat oid ti \<equiv> (\<forall>w. alloc_all w \<longrightarrow> fill_type_info cat None oid w = Ok ti w)"

text \<open>A table whose columns have described types without arrays and whose values are of these types.\<close>

definition table_ok :: "fmgr \<Rightarrow> catalog \<Rightarrow> plcTypeInfo list \<Rightarrow> spi_table \<Rightarrow> bool" where
  "table_ok fm cat tis tab \<longleftrightarrow>
     list_all2 (\<lambda>col ti. fills cat (fst col) ti \<and> good_name (snd col) \<and> flat_info ti \<and> sendable_type ti) (sp_cols tab) tis
     \<and> length tis \<le> 1664 \<and> int (length (sp_rows tab)) * 8 \<le> MaxAllocSize
     \<and> (\<forall>row \<in> set (sp_rows tab). length row = length tis
          \<and> (\<forall>j < length tis. \<forall>d. row ! j = Some d \<longrightarrow> datum_ok fm cat (tis ! j) d))"

text \<open>The result message of a table: its size, the columns' types and names, and cells that carry the values.\<close>

definition carries_row :: "fmgr \<Rightarrow> catalog \<Rightarrow> plcTypeInfo list \<Rightarrow> datum option list \<Rightarrow> rawdata list \<Rightarrow> bool" where
  "carries_row fm cat tis row ds \<longleftrightarrow> length ds = length tis \<and> (\<forall>j < length tis. carries fm cat (tis ! j) (row ! j) (ds ! j))"

definition result_of :: "fmgr \<Rightarrow> catalog \<Rightarrow> plcTypeInfo list \<Rightarrow> spi_table \<Rightarrow> plcMsgResult \<Rightarrow> bool" where
  "result_of fm cat tis tab r \<longleftrightarrow> ok_message (MsgResult r) \<and> sint (rows r) = int (length (sp_rows tab))
     \<and> sint (cols r) = int (length tis) \<and> types r = map type_of_info tis
     \<and> names r = map (\<lambda>c. Some (snd c)) (sp_cols tab) \<and> exception_callback r = None
     \<and> list_all2 (carries_row fm cat tis) (sp_rows tab) (rdata r)"

lemma result_of_released:
  assumes "result_of fm cat tis tab r"
  shows "release_result True r = (returnM () :: ('s, unit) prog)"
proof -
  have "releasable d" if "row \<in> set (rdata r)" "d \<in> set row" for row d
  proof -
    have "list_all2 (carries_row fm cat tis) (sp_rows tab) (rdata r)" using assms by (simp add: result_of_def)
    with that(1) obtain vals where "carries_row fm cat tis vals row" by (metis in_set_conv_nth list_all2_conv_all_nth)
    with that(2) show ?thesis by (auto simp: carries_row_def in_set_conv_nth intro: releasable_carries)
  qed
  with assms show ?thesis by (intro release_result_sent) (simp_all add: result_of_def del: ok_message.simps)
qed

lemma cell_run:
  assumes ti: "sendable_type ti" "flat_info ti" and d: "\<forall>d. x = Some d \<longrightarrow> datum_ok fm cat ti d" and w: "alloc_all w"
  shows "\<exists>r. result_cell fm (ti, x) w = Ok r w \<and> carries fm cat ti x r \<and> ok_object (type_of_info ti) r \<and> dangle r = r"
proof (cases x)
  case None
  then show ?thesis by (simp add: result_cell_def carries_def returnM_run)
next
  case (Some d)
  with out_converts_run [of ti fm cat d w] ti w d obtain v where v: "out_datum fm ti d w = Ok v w" "converts fm cat ti d v"
    by (auto simp: sendable_type_def)
  then have "ok_object (type_of_info ti) (Rawdata False (Some v))" "dangle (Rawdata False (Some v)) = Rawdata False (Some v)"
    using dangle_none [OF out_no_iter [OF v(1) ti(2)]] by (simp_all add: converts_def)
  with v Some show ?thesis by (simp add: result_cell_def carries_def returnM_run)
qed

lemma row_run:
  assumes tis: "\<forall>ti \<in> set tis. sendable_type ti \<and> flat_info ti" "length tis \<le> 1664" and len: "length row = length tis"
    and d: "\<forall>j < length tis. \<forall>d. row ! j = Some d \<longrightarrow> datum_ok fm cat (tis ! j) d" and w: "alloc_all w"
  shows "\<exists>ds. result_row fm tis row w = Ok ds w \<and> carries_row fm cat tis row ds \<and> ok_row (map type_of_info tis) ds
    \<and> map dangle ds = ds"
proof -
  let ?P = "\<lambda>c r. carries fm cat (fst c) (snd c) r \<and> ok_object (type_of_info (fst c)) r \<and> dangle r = r"
  have "\<forall>c \<in> set (zip tis row). \<exists>r. result_cell fm c w = Ok r w \<and> ?P c r"
    using cell_run tis(1) d w len by (auto simp: in_set_zip)
  from mapM_exists [where f = "result_cell fm" and P = ?P, OF this] obtain ds where ds: "mapM (result_cell fm) (zip tis row) w = Ok ds w"
    "list_all2 ?P (zip tis row) ds" by blast
  then have lens: "length ds = length tis" using len by (auto dest: list_all2_lengthD)
  have each: "?P (tis ! j, row ! j) (ds ! j)" if "j < length tis" for j
    using list_all2_nthD [OF ds(2), of j] that len by simp
  have "int (size_mult (length tis) 16) \<le> MaxAllocSize" using tis(2) by (simp add: size_mult_def MaxAllocSize_def)
  then have "result_row fm tis row w = Ok ds w"
    using ds(1) len alloc_all_run [OF w] by (simp add: result_row_def)
  moreover have "map dangle ds = ds" using each lens by (intro nth_equalityI) auto
  ultimately show ?thesis using each lens by (auto simp: carries_row_def ok_row_def in_set_zip)
qed

lemma column_run:
  assumes "fills cat (fst col) ti" and "good_name (snd col)" and "sendable_type ti" and "alloc_all w"
  shows "result_column cat col w = Ok (ti, type_of_info ti, Some (snd col)) w"
  using assms sendable_type_of(3) [of ti w] strdup_run [of w "snd col"]
  by (simp add: result_column_def returnM_run)

lemma create_sql_run:
  assumes tab: "table_ok fm cat tis tab" and w: "alloc_all w"
  shows "\<exists>r. create_sql_result fm cat tab w = Ok r w \<and> result_of fm cat tis tab r"
proof -
  have cols: "list_all2 (\<lambda>col ti. fills cat (fst col) ti \<and> good_name (snd col) \<and> flat_info ti \<and> sendable_type ti) (sp_cols tab) tis"
    and small: "length tis \<le> 1664" "int (length (sp_rows tab)) * 8 \<le> MaxAllocSize"
    and rows: "\<forall>row \<in> set (sp_rows tab). length row = length tis
          \<and> (\<forall>j < length tis. \<forall>d. row ! j = Some d \<longrightarrow> datum_ok fm cat (tis ! j) d)"
    using tab by (simp_all add: table_ok_def)
  have len: "length (sp_cols tab) = length tis" using cols by (rule list_all2_lengthD)
  have tis: "\<forall>ti \<in> set tis. sendable_type ti \<and> flat_info ti"
    using cols by (auto simp: list_all2_conv_all_nth in_set_conv_nth)
  let ?col = "\<lambda>c. (snd c, type_of_info (snd c), Some (snd (fst c)))"
  have "mapM (result_column cat) (map fst (zip (sp_cols tab) tis)) w = Ok (map ?col (zip (sp_cols tab) tis)) w"
    unfolding mapM_map using cols w
    by (intro mapM_run) (auto simp: list_all2_iff intro!: column_run)
  then have run: "mapM (result_column cat) (sp_cols tab) w = Ok (map ?col (zip (sp_cols tab) tis)) w"
    using len by simp
  have "map fst (map ?col (zip (sp_cols tab) tis)) = tis"
    "map (\<lambda>c. fst (snd c)) (map ?col (zip (sp_cols tab) tis)) = map type_of_info tis"
    "map (\<lambda>c. snd (snd c)) (map ?col (zip (sp_cols tab) tis)) = map (\<lambda>c. Some (snd c)) (sp_cols tab)"
    using len by (auto intro!: nth_equalityI)
  with run obtain cs where columns: "mapM (result_column cat) (sp_cols tab) w = Ok cs w" "map fst cs = tis"
    "map (\<lambda>c. fst (snd c)) cs = map type_of_info tis" "map (\<lambda>c. snd (snd c)) cs = map (\<lambda>c. Some (snd c)) (sp_cols tab)"
    by blast
  let ?Q = "\<lambda>row ds. carries_row fm cat tis row ds \<and> ok_row (map type_of_info tis) ds \<and> map dangle ds = ds"
  have "\<forall>row \<in> set (sp_rows tab). \<exists>ds. result_row fm tis row w = Ok ds w \<and> ?Q row ds"
    using row_run [OF tis small(1)] rows w by blast
  from mapM_exists [where f = "result_row fm tis" and P = ?Q, OF this] obtain data where data: "mapM (result_row fm tis) (sp_rows tab) w = Ok data w"
    "list_all2 ?Q (sp_rows tab) data" by blast
  then have dat: "list_all2 (carries_row fm cat tis) (sp_rows tab) data" "\<forall>ds \<in> set data. ok_row (map type_of_info tis) ds"
    "map (map dangle) data = data" "length data = length (sp_rows tab)"
    by (auto simp: list_all2_conv_all_nth in_set_conv_nth intro!: nth_equalityI)
  let ?r = "\<lparr>rows = of_nat (length (sp_rows tab)), cols = of_nat (length tis), types = map type_of_info tis,
      names = map (\<lambda>c. Some (snd c)) (sp_cols tab), rdata = data, exception_callback = None\<rparr>"
  have alloc: "plc_alloc n w = Ok (replicate n (junk w)) w" if "int n \<le> MaxAllocSize" for n
    by (rule alloc_all_run [OF w that])
  have sizes: "int (size_mult (length tis) k) \<le> MaxAllocSize" if "k \<le> 88" for k
  proof -
    have "length tis * k \<le> 1664 * 88" by (rule mult_le_mono [OF small(1) that])
    moreover have "length tis * k mod 2 ^ 64 \<le> length tis * k" by (rule mod_less_eq_dividend)
    ultimately show ?thesis unfolding size_mult_def MaxAllocSize_def by linarith
  qed
  have "int (size_mult 8 (length (sp_rows tab))) \<le> MaxAllocSize"
    using small(2) by (simp add: size_mult_def MaxAllocSize_def)
  note alloc_rows = alloc [OF this]
  have rowdata: "(if length (sp_rows tab) = 0 then returnM []
             else
               bindM (plc_alloc (size_mult 8 (length (sp_rows tab)))) (\<lambda>_.
               mapM (result_row fm tis) (sp_rows tab))) w = Ok data w"
    using data alloc_rows by (auto simp: returnM_run)
  have "create_sql_result fm cat tab w = Ok ?r w"
    using columns rowdata dat(3) alloc sizes [of 24] sizes [of 8] sizes [of 88] len
    by (auto simp: create_sql_result_def Let_def returnM_run SIZEOF_plcTypeInfo_def MaxAllocSize_def)
  moreover have "result_of fm cat tis tab ?r"
  proof -
    have "int (length (sp_rows tab)) \<le> 2147483647" "length tis \<le> 2147483647"
      using small by (simp_all add: MaxAllocSize_def)
    then have counts: "counts (of_nat (length (sp_rows tab))) (length data) 8" "counts (of_nat (length tis)) (length tis) 24"
      using small dat(4) by (simp_all add: counts_def sint_of_nat_small MaxAllocSize_def)
    have "\<forall>c \<in> set (zip (map type_of_info tis) (map (\<lambda>c. Some (snd c)) (sp_cols tab))). ok_column c"
      using cols by (auto simp: list_all2_conv_all_nth in_set_zip ok_column_def sendable_type_of(1) good_name_ok)
    then show ?thesis
      using counts dat len by (simp add: result_of_def counts_def sent_exception_def)
  qed
  ultimately show ?thesis by blast
qed

end
