(* ===== verification/Dialogue.thy ===== *)
theory Dialogue
  imports Sql_Facts
begin

text \<open>
  The executor's requests of one call as a state machine: what was reported, which statements are still to be
  run, and which replies were sent. The loop of \<open>pljvm_get_result\<close> refines it.
\<close>

section \<open>The abstract dialogue\<close>

record dialogue =
  told :: "(i32 \<times> cstr) list"
  script :: "spi_ev list"
  replies :: "plcMessage list"

text \<open>
  One request: a log message is reported; a statement takes the next answer of the SPI and is
  replied to with the result message of its rows.
\<close>

inductive turn :: "fmgr \<Rightarrow> catalog \<Rightarrow> dialogue \<Rightarrow> plcMessage \<Rightarrow> dialogue \<Rightarrow> bool" for fm cat where
  told_log: "sint (level l) < ERROR \<Longrightarrow>
     turn fm cat d (MsgLog l) (d\<lparr>told := told d @ [(level l, lmessage l)]\<rparr>)"
| ran_query: "script d = Spi_rows [] tab # es \<Longrightarrow> table_ok fm cat tis tab \<Longrightarrow> result_of fm cat tis tab r \<Longrightarrow>
     turn fm cat d (MsgSQL q) (d\<lparr>script := es, replies := replies d @ [MsgResult r]\<rparr>)"

inductive_cases query_turnE: "turn fm cat d (MsgSQL q) d'"
inductive_cases log_turnE: "turn fm cat d (MsgLog l) d'"

inductive turns :: "fmgr \<Rightarrow> catalog \<Rightarrow> dialogue \<Rightarrow> plcMessage list \<Rightarrow> dialogue \<Rightarrow> bool" for fm cat where
  turns_nil: "turns fm cat d [] d"
| turns_step: "turn fm cat d m d1 \<Longrightarrow> turns fm cat d1 ms d' \<Longrightarrow> turns fm cat d (m # ms) d'"

inductive_simps turns_simps: "turns fm cat d [] d'" "turns fm cat d (m # ms) d'"

text \<open>A reply per statement, in order, and nothing is taken from the script otherwise.\<close>

definition is_query :: "plcMessage \<Rightarrow> bool" where
  "is_query m = (case m of MsgSQL q \<Rightarrow> True | _ \<Rightarrow> False)"

lemma turn_counts:
  assumes "turn fm cat d m d'"
  shows "length (replies d') = length (replies d) + (if is_query m then 1 else 0)"
    and "script d = take (if is_query m then 1 else 0) (script d) @ script d'"
  using assms by (auto simp: is_query_def elim: turn.cases)

lemma turns_counts:
  assumes "turns fm cat d ms d'"
  shows "length (replies d') = length (replies d) + length (filter is_query ms)"
    and "script d' = drop (length (filter is_query ms)) (script d)"
  using assms
proof (induction rule: turns.induct)
  case (turns_step d m d1 ms d')
  {
    case 1
    show ?case using turns_step.IH(1) turn_counts(1) [OF turns_step.hyps(1)] by simp
  next
    case 2
    have "script d1 = drop (if is_query m then 1 else 0) (script d)"
      using turn_counts(2) [OF turns_step.hyps(1)] by (metis append_take_drop_id same_append_eq)
    then show ?case using turns_step.IH(2) by simp
  }
qed simp_all

section \<open>The loop refines the dialogue\<close>

text \<open>Requests the state can answer: well-formed, and each statement has a table of the kind \<open>table_ok\<close> describes.\<close>

fun answerable :: "fmgr \<Rightarrow> catalog \<Rightarrow> spi_ev list \<Rightarrow> plcMessage list \<Rightarrow> bool" where
  "answerable fm cat es [] \<longleftrightarrow> True"
| "answerable fm cat es (MsgLog l # ms) \<longleftrightarrow> ok_message (MsgLog l) \<and> sint (level l) < ERROR \<and> answerable fm cat es ms"
| "answerable fm cat es (MsgSQL q # ms) \<longleftrightarrow> ok_message (MsgSQL q) \<and> statement q \<noteq> None
     \<and> (\<exists>tab es'. es = Spi_rows [] tab # es' \<and> (\<exists>tis. table_ok fm cat tis tab) \<and> answerable fm cat es' ms)"
| "answerable fm cat es (m # ms) \<longleftrightarrow> False"

lemma handle_sql_run:
  assumes "statement q \<noteq> None" and "spi s = Spi_rows [] tab # es" and "table_ok fm (tcat cat) tis tab" and "alloc_all (bw s)"
    and "refusals s = []"
  shows "\<exists>r. handle_sql_message fm cat q s = Ok r (s\<lparr>spi := es\<rparr>) \<and> result_of fm (tcat cat) tis tab r"
proof -
  obtain r where r: "create_sql_result fm (tcat cat) tab (bw s) = Ok r (bw s)" "result_of fm (tcat cat) tis tab r"
    using create_sql_run [OF assms(3,4)] by blast
  let ?s = "s\<lparr>subxacts := subxacts s + 1\<rparr>"
  have "spi_exec cat (statement q) ?s = Ok (Some tab) (?s\<lparr>spi := es\<rparr>)"
    using assms(1,2) by (simp add: spi_exec_def returnM_run)
  moreover have "in_world (create_sql_result fm (tcat cat) tab) (?s\<lparr>spi := es\<rparr>) = Ok r (?s\<lparr>spi := es\<rparr>)"
    using r(1) by (simp add: via_def)
  moreover have "begin_subxact s = Ok () ?s" "end_subxact (?s\<lparr>spi := es\<rparr>) = Ok () (s\<lparr>spi := es\<rparr>)"
    using assms(5) by (simp_all add: begin_subxact_def end_subxact_def bindM_def)
  ultimately have "handle_sql_message fm cat q s = Ok r (s\<lparr>spi := es\<rparr>)"
    unfolding handle_sql_message_def by (intro try_Ok) (simp add: bindM_def returnM_run)
  with r(2) show ?thesis by blast
qed

abbreviation dialogue_of :: "backend \<Rightarrow> plcMessage list \<Rightarrow> dialogue" where
  "dialogue_of s ms \<equiv> \<lparr>told = reports s, script = spi s, replies = ms\<rparr>"

lemma turn_refines:
  assumes ans: "answerable fm (tcat cat) (spi s) (m # ms)" and w: "healthy n (bw s)"
    and ins: "in_stream (bw s) = enc_message m @ rest"
    and out: "out_stream (bw s) = sent @ concat (map enc_message rs)" and server: "refusals s = []"
  shows "\<exists>d w. turn fm (tcat cat) (dialogue_of s rs) m d
    \<and> process_answer fm cat s = Ok None (s\<lparr>bw := w, reports := told d, spi := script d\<rparr>)
    \<and> answerable fm (tcat cat) (script d) ms \<and> healthy n w \<and> in_stream w = rest
    \<and> out_stream w = sent @ concat (map enc_message (replies d))"
proof (cases m)
  case (MsgLog l)
  with ans have l: "ok_message (MsgLog l)" "sint (level l) < ERROR" "answerable fm (tcat cat) (spi s) ms" by simp_all
  with turn_log [of l n s rest fm cat] w ins MsgLog obtain w where
    "process_answer fm cat s = Ok None (s\<lparr>bw := w, reports := reports s @ [(level l, lmessage l)]\<rparr>)"
    "healthy n w" "in_stream w = rest" "out_stream w = out_stream (bw s)"
    by (auto simp del: ok_message.simps enc_message.simps)
  moreover have "turn fm (tcat cat) (dialogue_of s rs) (MsgLog l)
      \<lparr>told = reports s @ [(level l, lmessage l)], script = spi s, replies = rs\<rparr>"
    using turn.told_log [OF l(2), of fm "tcat cat" "dialogue_of s rs"] by simp
  ultimately show ?thesis using l(3) out MsgLog by (intro exI conjI) auto
next
  case (MsgSQL q)
  with ans obtain tab tis es where q: "ok_message (MsgSQL q)" "statement q \<noteq> None" "spi s = Spi_rows [] tab # es"
    "table_ok fm (tcat cat) tis tab" "answerable fm (tcat cat) es ms"
    by auto
  obtain w where w: "in_world pljvm_channel_receive s = Ok (0, Some (MsgSQL q)) (s\<lparr>bw := w\<rparr>)"
    "healthy n w" "in_stream w = rest" "out_stream w = out_stream (bw s)"
    using answer_received [OF q(1) _ w, of rest] ins MsgSQL by auto
  have "alloc_all (bw (s\<lparr>bw := w\<rparr>))" using w(2) by (simp add: healthy_def)
  with handle_sql_run [OF q(2) _ q(4), of "s\<lparr>bw := w\<rparr>" es] q(3) server obtain r where
    r: "handle_sql_message fm cat q (s\<lparr>bw := w\<rparr>) = Ok r (s\<lparr>bw := w, spi := es\<rparr>)" "result_of fm (tcat cat) tis tab r" by auto
  then have "ok_message (MsgResult r)" by (simp add: result_of_def del: ok_message.simps)
  from channel_send_ok [OF this w(2)] obtain w' where w': "pljvm_channel_send (MsgResult r) w = Ok 0 w'" "healthy n w'"
    "in_stream w' = rest" "out_stream w' = out_stream (bw s) @ enc_message (MsgResult r)"
    using w(3,4) by auto
  have "in_world (pljvm_channel_send (MsgResult r)) (s\<lparr>bw := w, spi := es\<rparr>) = Ok 0 (s\<lparr>bw := w', spi := es\<rparr>)"
    using w'(1) by (simp add: via_def del: pljvm_channel_send.simps)
  moreover have free: "release_result True r = (returnM () :: (backend, unit) prog)" by (rule result_of_released [OF r(2)])
  ultimately have "process_answer fm cat s = Ok None (s\<lparr>bw := w', spi := es\<rparr>)"
    using w(1) r(1) free by (simp add: process_answer_def pljvm_process_sql_def returnM_run del: pljvm_channel_send.simps)
  moreover have "turn fm (tcat cat) (dialogue_of s rs) (MsgSQL q) \<lparr>told = reports s, script = es, replies = rs @ [MsgResult r]\<rparr>"
    using turn.ran_query [of "dialogue_of s rs", OF _ q(4) r(2), of es q] q(3) by simp
  ultimately show ?thesis
    using w'(2-4) q(5) out MsgSQL
    by (intro exI [of _ "\<lparr>told = reports s, script = es, replies = rs @ [MsgResult r]\<rparr>"] exI [of _ w']) simp
qed (use ans in simp_all)

lemma loop_refines:
  assumes "answerable fm (tcat cat) (spi s) ms" and "healthy n (bw s)"
    and "in_stream (bw s) = concat (map enc_message ms) @ rest"
    and "out_stream (bw s) = sent @ concat (map enc_message rs)" and "refusals s = []"
  shows "\<exists>d w. turns fm (tcat cat) (dialogue_of s rs) ms d
    \<and> answer_loop (length ms + k) fm cat s = answer_loop k fm cat (s\<lparr>bw := w, reports := told d, spi := script d\<rparr>)
    \<and> healthy n w \<and> in_stream w = rest \<and> out_stream w = sent @ concat (map enc_message (replies d))"
  using assms
proof (induction ms arbitrary: s rs)
  case Nil
  then show ?case by (intro exI [of _ "dialogue_of s rs"] exI [of _ "bw s"]) (simp add: turns_simps)
next
  case (Cons m ms)
  obtain d w where d: "turn fm (tcat cat) (dialogue_of s rs) m d"
    "process_answer fm cat s = Ok None (s\<lparr>bw := w, reports := told d, spi := script d\<rparr>)"
    "answerable fm (tcat cat) (script d) ms" "healthy n w" "in_stream w = concat (map enc_message ms) @ rest"
    "out_stream w = sent @ concat (map enc_message (replies d))"
    using turn_refines [OF Cons.prems(1,2) _ Cons.prems(4,5), of "concat (map enc_message ms) @ rest"] Cons.prems(3)
    by auto
  let ?s = "s\<lparr>bw := w, reports := told d, spi := script d\<rparr>"
  obtain d' w' where d': "turns fm (tcat cat) (dialogue_of ?s (replies d)) ms d'"
    "answer_loop (length ms + k) fm cat ?s = answer_loop k fm cat (?s\<lparr>bw := w', reports := told d', spi := script d'\<rparr>)"
    "healthy n w'" "in_stream w' = rest" "out_stream w' = sent @ concat (map enc_message (replies d'))"
    using Cons.IH [of ?s "replies d"] d(3-6) Cons.prems(5) by auto
  have "dialogue_of ?s (replies d) = d" by (cases d) simp
  from d'(1) [unfolded this] have "turns fm (tcat cat) (dialogue_of s rs) (m # ms) d'" by (rule turns_step [OF d(1)])
  moreover have "answer_loop (length (m # ms) + k) fm cat s
      = answer_loop k fm cat (s\<lparr>bw := w', reports := told d', spi := script d'\<rparr>)"
    using d(2) d'(2) by simp
  ultimately show ?case using d'(3-5) by blast
qed

end
