(* ===== verification/Call_Props.thy ===== *)
theory Call_Props
  imports Dialogue Backend_Props Protocol_Props
begin

text \<open>
  The properties of a call: what is sent to the executor, what its answers do, and what the
  caller gets.
\<close>

lemma result_delivered:
  "sent_exception r = None \<Longrightarrow>
   deliver_message (MsgResult r) = MsgResult (r\<lparr>rdata := map (map deliver) (rdata r), exception_callback := None\<rparr>)"
  by simp

abbreviation received :: "plcMsgResult \<Rightarrow> plcMsgResult" where
  "received r \<equiv> r\<lparr>rdata := map (map deliver) (rdata r), exception_callback := None\<rparr>"

lemma bindM_eq: "m s = m' s' \<Longrightarrow> bindM m f s = bindM m' f s'"
  by (simp add: bindM_def)

text \<open>The call up to the last message of the executor: its requests were answered.\<close>

lemma requests_answered:
  assumes call: "callable fm cat fcinfo p f s" and c: "connects s = c # cs"
    and ex: "executor rs ss (concat (map enc_message ms) @ bs) c"
    and ms: "answerable fm (tcat cat) (spi s) ms" "length ms < n"
  shows "\<exists>req d k w. call_of fm (tcat cat) fcinfo f req \<and> turns fm (tcat cat) (dialogue_of s [MsgCallreq req]) ms d
    \<and> healthy (stack (bw s)) w \<and> in_stream w = bs \<and> out_stream w = concat (map enc_message (replies d))
    \<and> pljvm_get_result n fm cat fcinfo p s = bindM (answer_loop (Suc k) fm cat) (\<lambda>r.
       case r of
         None \<Rightarrow> returnM Unfinished
       | Some r \<Rightarrow> bindM plcDisconnect (\<lambda>_. returnM (Result \<lparr>resmsg = r, resrow = 0\<rparr>)))
      (s\<lparr>connects := cs, open_socks := Suc (open_socks s), bw := w, reports := told d, spi := script d\<rparr>)"
proof -
  obtain k where n: "n = length ms + Suc k" using ms(2) less_iff_Suc_add [of "length ms" n] by auto
  obtain req w where w: "call_of fm (tcat cat) fcinfo f req" "healthy (stack (bw s)) w"
    "in_stream w = concat (map enc_message ms) @ bs" "out_stream w = enc_message (MsgCallreq req)"
    and run: "pljvm_get_result n fm cat fcinfo p s = bindM (answer_loop n fm cat) (\<lambda>r.
       case r of
         None \<Rightarrow> returnM Unfinished
       | Some r \<Rightarrow> bindM plcDisconnect (\<lambda>_. returnM (Result \<lparr>resmsg = r, resrow = 0\<rparr>)))
      (s\<lparr>connects := cs, open_socks := Suc (open_socks s), bw := w\<rparr>)"
    using call_sent [OF call c ex] by blast
  let ?s = "s\<lparr>connects := cs, open_socks := Suc (open_socks s), bw := w\<rparr>"
  obtain d w' where d: "turns fm (tcat cat) (dialogue_of ?s [MsgCallreq req]) ms d"
    "answer_loop (length ms + Suc k) fm cat ?s = answer_loop (Suc k) fm cat (?s\<lparr>bw := w', reports := told d, spi := script d\<rparr>)"
    "healthy (stack (bw s)) w'" "in_stream w' = bs" "out_stream w' = concat (map enc_message (replies d))"
    using loop_refines [where s = ?s and sent = "[]" and rs = "[MsgCallreq req]" and k = "Suc k" and cat = cat and ms = ms
        and fm = fm and n = "stack (bw s)" and rest = bs] ms(1) w(2-4) call
    by (auto simp: callable_def simp del: enc_message.simps answer_loop.simps)
  then have "pljvm_get_result n fm cat fcinfo p s = bindM (answer_loop (Suc k) fm cat) (\<lambda>r.
       case r of
         None \<Rightarrow> returnM Unfinished
       | Some r \<Rightarrow> bindM plcDisconnect (\<lambda>_. returnM (Result \<lparr>resmsg = r, resrow = 0\<rparr>)))
      (s\<lparr>connects := cs, open_socks := Suc (open_socks s), bw := w', reports := told d, spi := script d\<rparr>)"
    unfolding run by (intro bindM_eq) (simp add: n del: answer_loop.simps add_Suc_right)
  with w(1) d show ?thesis by (auto simp del: answer_loop.simps)
qed

lemma get_result_run:
  assumes call: "callable fm cat fcinfo p f s" and c: "connects s = c # cs"
    and ex: "executor rs ss (concat (map enc_message ms) @ enc_message (MsgResult r)) c"
    and ms: "answerable fm (tcat cat) (spi s) ms" "length ms < n"
    and r: "ok_message (MsgResult r)" "message_depth (MsgResult r) \<le> stack (bw s)" "sent_exception r = None"
  shows "\<exists>req d w. call_of fm (tcat cat) fcinfo f req \<and> turns fm (tcat cat) (dialogue_of s [MsgCallreq req]) ms d
    \<and> out_stream w = concat (map enc_message (replies d)) \<and> memory_good w
    \<and> pljvm_get_result n fm cat fcinfo p s = Ok (Result \<lparr>resmsg = received r, resrow = 0\<rparr>)
       (s\<lparr>connects := cs, bw := w, reports := told d, spi := script d\<rparr>)"
proof -
  obtain req d k w where w: "call_of fm (tcat cat) fcinfo f req" "turns fm (tcat cat) (dialogue_of s [MsgCallreq req]) ms d"
    "healthy (stack (bw s)) w" "in_stream w = enc_message (MsgResult r)" "out_stream w = concat (map enc_message (replies d))"
    and run: "pljvm_get_result n fm cat fcinfo p s = bindM (answer_loop (Suc k) fm cat) (\<lambda>r.
       case r of
         None \<Rightarrow> returnM Unfinished
       | Some r \<Rightarrow> bindM plcDisconnect (\<lambda>_. returnM (Result \<lparr>resmsg = r, resrow = 0\<rparr>)))
      (s\<lparr>connects := cs, open_socks := Suc (open_socks s), bw := w, reports := told d, spi := script d\<rparr>)"
    using requests_answered [OF call c ex ms] by blast
  let ?s = "s\<lparr>connects := cs, open_socks := Suc (open_socks s), bw := w, reports := told d, spi := script d\<rparr>"
  obtain w2 where w2: "process_answer fm cat ?s = Ok (Some (received r)) (?s\<lparr>bw := w2\<rparr>)"
    "healthy (stack (bw s)) w2" "out_stream w2 = concat (map enc_message (replies d))"
    using turn_result [OF r(1,2), of ?s "[]" "received r" fm cat] w(3-5) result_delivered [OF r(3)]
    by (auto simp del: ok_message.simps enc_message.simps message_depth.simps deliver_message.simps)
  have "pljvm_get_result n fm cat fcinfo p s = Ok (Result \<lparr>resmsg = received r, resrow = 0\<rparr>)
       (s\<lparr>connects := cs, bw := w2, reports := told d, spi := script d\<rparr>)"
    using w2(1) by (simp add: run plcDisconnect_def returnM_run)
  with w(1,2) w2(2,3) show ?thesis by (auto simp: healthy_def memory_good_def conn_inv_def)
qed

text \<open>A call of a function whose description is cached and current, when the functions of the server do not fail.\<close>

definition cached_call :: "fmgr \<Rightarrow> sys_catalog \<Rightarrow> call_info \<Rightarrow> plcProcInfo \<Rightarrow> backend \<Rightarrow> bool" where
  "cached_call fm cat fcinfo g s \<longleftrightarrow> backend_inv s \<and> (\<exists>p. procs (cache s) p = Some g) \<and> funcOid g = fn_oid fcinfo
     \<and> (\<exists>row. pg_proc cat (fn_oid fcinfo) = Some row \<and> proc_current (tcat cat) row g)
     \<and> sendable_proc g \<and> call_ok fm (tcat cat) fcinfo g \<and> memory_good (bw s) \<and> refusals s = []"

definition unchanged :: "plcProcInfo \<Rightarrow> plcProcInfo" where
  "unchanged g = g\<lparr>proc_hasChanged := 0\<rparr>"

lemma unchanged_simps [simp]:
  "rettype (unchanged g) = rettype g" "argtypes (unchanged g) = argtypes g" "funcOid (unchanged g) = funcOid g"
  by (simp_all add: unchanged_def)

lemma cached_call_run:
  assumes "cached_call fm cat fcinfo g s"
  shows "\<exists>p c. get_proc_info cat fcinfo s = Ok p (s\<lparr>cache := c\<rparr>)
    \<and> callable fm cat fcinfo p (unchanged g) (s\<lparr>cache := c\<rparr>)
    \<and> cached_call fm cat fcinfo (unchanged g) (s\<lparr>cache := c\<rparr>)"
proof -
  obtain p row where g: "procs (cache s) p = Some g" "pg_proc cat (fn_oid fcinfo) = Some row" "proc_current (tcat cat) row g"
    and rest: "backend_inv s" "funcOid g = fn_oid fcinfo" "sendable_proc g" "call_ok fm (tcat cat) fcinfo g" "memory_good (bw s)"
    "refusals s = []"
    using assms by (auto simp: cached_call_def)
  obtain c where c: "get_proc_info cat fcinfo s = Ok p (s\<lparr>cache := c\<rparr>)" "procs c p = Some (unchanged g)"
    "backend_inv (s\<lparr>cache := c\<rparr>)"
    using get_proc_info_reuse [OF rest(1) g(2,1) rest(2) g(3)] by (auto simp: unchanged_def)
  have "sendable_proc (unchanged g)" "call_ok fm (tcat cat) fcinfo (unchanged g)" "proc_current (tcat cat) row (unchanged g)"
    using rest(3,4) g(3) by (simp_all add: unchanged_def sendable_proc_def types_of_def call_ok_def proc_current_def)
  with c g(2) rest(2,5,6) show ?thesis by (auto simp: callable_def cached_call_def)
qed

text \<open>The handler around a call that is not a trigger and not a later call of a set-returning function.\<close>

lemma handler_run:
  assumes "\<not> call_trigger fcinfo" and "get_proc_info cat fcinfo (s\<lparr>caller_context := ctx\<rparr>) = Ok p s1" and "refusals s = []"
  shows "pljvm_call_handler ctx n fm cat fcinfo None s =
    bindM (pljvm_get_result n fm cat fcinfo p) (\<lambda>presult.
    bindM (case presult of
        No_connection \<Rightarrow> returnM (Value None)
      | Unfinished \<Rightarrow> returnM Running
      | Result presult \<Rightarrow> return_row fm (tcat cat) fcinfo p presult) (leave (caller_context s))) s1"
  using assms by (simp add: pljvm_call_handler_def pljvm_call_hook_def set_caller_context_def [of ctx] bindM_assoc bindM_def
      split: outcome.split)

text \<open>A result of one column, one row.\<close>

lemma single_value:
  assumes "ok_message (MsgResult r)" and "rdata r = [[Rawdata isn v]]"
  shows "sint (rows r) = 1" "sint (cols r) = 1"
  using assms by (auto simp: counts_def ok_row_def)

lemma return_single:
  assumes r: "rdata r = [[x]]" "sint (rows r) = 1" "sint (cols r) = 1"
    and p: "procs (cache s) p = Some f" and x: "deliver x = Rawdata False v"
    and w: "in_datum fm cat (rettype f) v (bw s) = Ok d (bw s)" and srf: "\<not> fn_retset fcinfo"
    and free: "release_result False (received r) = (returnM () :: (backend, unit) prog)"
  shows "return_row fm cat fcinfo p \<lparr>resmsg = received r, resrow = 0\<rparr> s = Ok (Value (Some d)) s"
proof -
  have "rows r \<noteq> 0" using r(2) by auto
  moreover have "in_cache (deref p) s = Ok f s" using p by (simp add: via_def deref_def)
  moreover have "in_world (in_datum fm cat (rettype f) v) s = Ok d s" using w by (simp add: via_def)
  ultimately have "pljvm_process_result fm cat p \<lparr>resmsg = received r, resrow = 0\<rparr> s = Ok (Some d) s"
    using r x by (simp add: pljvm_process_result_def Let_def nth_opt_def returnM_run)
  with r(2) srf free show ?thesis by (simp add: return_row_def returnM_run)
qed

section \<open>Calls\<close>

text \<open>A call from the request to the value.\<close>

lemma call_value:
  assumes cached: "cached_call fm cat fcinfo g s"
    and kind: "\<not> call_trigger fcinfo" "\<not> fn_retset fcinfo"
    and con: "connects s = c # cs" "executor rs ss (concat (map enc_message ms) @ enc_message (MsgResult r)) c"
    and ms: "answerable fm (tcat cat) (spi s) ms" "length ms < n"
    and r: "ok_message (MsgResult r)" "message_depth (MsgResult r) \<le> stack (bw s)" "sent_exception r = None"
    and v: "rdata r = [[Rawdata False (Some v)]]" "converts fm (tcat cat) (rettype g) x v"
  shows "\<exists>req d s'. pljvm_call_handler ctx n fm cat fcinfo None s = Ok (Value (Some x)) s'
    \<and> call_of fm (tcat cat) fcinfo (unchanged g) req
    \<and> turns fm (tcat cat) (dialogue_of s [MsgCallreq req]) ms d
    \<and> out_stream (bw s') = concat (map enc_message (replies d)) \<and> reports s' = told d \<and> spi s' = script d
    \<and> open_socks s' = open_socks s \<and> subxacts s' = subxacts s \<and> caller_context s' = caller_context s"
proof -
  let ?s = "s\<lparr>caller_context := ctx\<rparr>"
  have server: "refusals s = []" using cached by (simp add: cached_call_def)
  have "cached_call fm cat fcinfo g ?s" using cached by (simp add: cached_call_def backend_inv_def)
  from cached_call_run [OF this] obtain p ca where p: "get_proc_info cat fcinfo ?s = Ok p (?s\<lparr>cache := ca\<rparr>)"
    "callable fm cat fcinfo p (unchanged g) (?s\<lparr>cache := ca\<rparr>)" by blast
  let ?s1 = "?s\<lparr>cache := ca\<rparr>"
  obtain req d w where w: "call_of fm (tcat cat) fcinfo (unchanged g) req"
    "turns fm (tcat cat) (dialogue_of s [MsgCallreq req]) ms d" "out_stream w = concat (map enc_message (replies d))"
    "memory_good w" "pljvm_get_result n fm cat fcinfo p ?s1 = Ok (Result \<lparr>resmsg = received r, resrow = 0\<rparr>)
       (?s1\<lparr>connects := cs, bw := w, reports := told d, spi := script d\<rparr>)"
    using get_result_run [OF p(2) _ con(2) _ ms(2) r(1) _ r(3), of cs] con(1) ms(1) r(2)
    by (auto simp del: ok_message.simps enc_message.simps message_depth.simps)
  let ?s2 = "?s1\<lparr>connects := cs, bw := w, reports := told d, spi := script d\<rparr>"
  have "in_datum fm (tcat cat) (rettype g) (rvalue (deliver (Rawdata False (Some v)))) w = Ok x w"
    using v(2) w(4) by (simp add: converts_def memory_good_def)
  moreover have "release_result False (received r) = (returnM () :: (backend, unit) prog)"
    using v by (intro release_result_got [OF r(1) result_delivered [OF r(3)]]) (simp add: releasable_def converts_def)
  ultimately have "return_row fm (tcat cat) fcinfo p \<lparr>resmsg = received r, resrow = 0\<rparr> ?s2 = Ok (Value (Some x)) ?s2"
    using single_value [OF r(1) v(1)] v(1) p(2) kind(2)
    by (intro return_single [where f = "unchanged g" and x = "Rawdata False (Some v)"]) (auto simp: callable_def)
  with w(5) have "pljvm_call_handler ctx n fm cat fcinfo None s
      = Ok (Value (Some x)) (?s2\<lparr>caller_context := caller_context s\<rparr>)"
    using server by (simp add: handler_run [OF kind(1) p(1)] set_caller_context_def returnM_run)
  with w(1-3) show ?thesis by (intro exI [of _ req] exI [of _ d] exI) auto
qed

text \<open>
  C3: a call of a scalar function whose description is cached and current sends one call, with that description,
  \<open>hasChanged\<close> 0 and the arguments; the executor's requests are answered as the abstract dialogue says: log messages are
  reported, statements run and replied to in order. When its result is one row with the value a datum of the return
  type converts to, the caller gets that datum; the connection is closed, no subtransaction is left open and
  \<open>pl_container_caller_context\<close> is as before.
\<close>

theorem call_returns_value:
  assumes cached: "cached_call fm cat fcinfo g s"
    and kind: "\<not> call_trigger fcinfo" "\<not> fn_retset fcinfo"
    and con: "connects s = c # cs" "executor rs ss (concat (map enc_message ms) @ enc_message (MsgResult r)) c"
    and ms: "answerable fm (tcat cat) (spi s) ms" "length ms < n"
    and r: "ok_message (MsgResult r)" "message_depth (MsgResult r) \<le> stack (bw s)" "sent_exception r = None"
    and v: "rdata r = [[Rawdata False (Some v)]]" "converts fm (tcat cat) (rettype g) x v"
  shows "\<exists>req d s'. pljvm_call_handler ctx n fm cat fcinfo None s = Ok (Value (Some x)) s'
    \<and> call_of fm (tcat cat) fcinfo (unchanged g) req
    \<and> turns fm (tcat cat) (dialogue_of s [MsgCallreq req]) ms d
    \<and> out_stream (bw s') = concat (map enc_message (replies d)) \<and> reports s' = told d \<and> spi s' = script d
    \<and> open_socks s' = open_socks s \<and> subxacts s' = subxacts s \<and> caller_context s' = caller_context s"
  by (rule call_value [OF assms])

text \<open>Example: a cached function \<open>int4 -> int4\<close>, called with 7.\<close>

definition ex_int4 :: plcTypeInfo where
  "ex_int4 = TypeInfo (base_fields ex_cat 23 (ex_type_row 43 0 98) False) []"

definition ex_fm :: fmgr where
  "ex_fm = \<lparr>fm_output = (\<lambda>_ _ _ _. None), fm_input = (\<lambda>_ _ _ _. None), fm_numeric_float8 = (\<lambda>_. None),
     fm_float8_numeric = (\<lambda>_. None), fm_md_array = (\<lambda>_ _ _. None), fm_heap_tuple = (\<lambda>_ _. None)\<rparr>"

definition ex_cached :: plcProcInfo where
  "ex_cached = \<lparr>funcOid = 100, fn_xmin = 900, fn_tid = (3, 4), proc_name = [102], proc_src = [120],
     proc_hasChanged = 1, rettype = ex_int4, proc_retset = 0, proc_nargs = 1,
     argnames = [None], argtypes = [ex_int4]\<rparr>"

definition ex_call_int4 :: call_info where
  "ex_call_int4 = ex_call_info\<lparr>argdata := [Some (DInt4 7)]\<rparr>"

definition ex_server_of :: "plcProcInfo \<Rightarrow> connect_ev list \<Rightarrow> backend" where
  "ex_server_of f cs = ex_backend\<lparr>cache := \<lparr>slots = packed [7], initialized = True, procs = [7 \<mapsto> f]\<rparr>,
     next_proc := 8, connects := cs\<rparr>"

abbreviation ex_server :: "connect_ev list \<Rightarrow> backend" where
  "ex_server \<equiv> ex_server_of ex_cached"

definition ex_result :: "rawdata list list \<Rightarrow> plcMsgResult" where
  "ex_result data = \<lparr>rows = of_nat (length data), cols = 1, types = [PlcType PLC_DATA_INT4 0 None []], names = [None],
     rdata = data, exception_callback = None\<rparr>"

definition ex_byte_result :: plcMsgResult where
  "ex_byte_result = \<lparr>rows = 1, cols = 1, types = [PlcType PLC_DATA_INT1 0 None []], names = [None],
     rdata = [[Rawdata False (Some (VInt1 1))]], exception_callback = None\<rparr>"

definition ex_answer :: "plcMessage list \<Rightarrow> connect_ev" where
  "ex_answer ms = Connected 9 [RData (concat (map enc_message ms))] []"

lemma ex_int4_facts [simp]: "sendable_type ex_int4" "info_current ex_cat ex_int4" "outfunc (info ex_int4) = Some As_int4"
  "type_of_info ex_int4 = PlcType PLC_DATA_INT4 0 None []" "datum_ok fm cat ex_int4 (DInt4 i)"
  by (simp_all add: ex_int4_def sendable_type_def base_fields_def ex_cat_def io_of_oid_def INT4OID_def BOOLOID_def INT2OID_def
      scalar_types_def io_match_def io_table_def datum_ok.simps)

lemma ex_int4_converts [simp]: "converts fm cat ex_int4 (DInt4 i) (VInt4 i)"
  by (simp add: converts_def in_datum.simps ex_int4_def base_fields_def ex_cat_def io_of_oid_def INT4OID_def BOOLOID_def
      INT2OID_def plc_datum_from_int4_def need_value_def returnM_run)

lemma ex_server_facts [simp]:
  "backend_inv (ex_server_of f cs)" "procs (cache (ex_server_of f cs)) = [7 \<mapsto> f]" "connects (ex_server_of f cs) = cs"
  "bw (ex_server_of f cs) = world_of 4 [] []" "refusals (ex_server_of f cs) = []" "memory_good (world_of 4 [] [])"
proof -
  have "ptrs (cache (ex_server_of f cs)) = [7]" by (rule ptrs_packed) (simp add: ex_server_of_def)
  then show "backend_inv (ex_server_of f cs)"
    by (simp add: backend_inv_def cache_inv_def entries_def ex_server_of_def packed_def PLC_FUNCTION_CACHE_SIZE_def)
  show "memory_good (world_of 4 [] [])"
    using world_of_inv(1) [of 4 "[]" "[]"] by (simp add: memory_good_def conn_inv_def del: world_of_inv(1))
qed (simp_all add: ex_server_of_def ex_backend_def)

lemma ex_cached_of:
  assumes "sendable_type t" and "info_current ex_cat t"
  shows "cached_call fm ex_sys ex_call_int4 (ex_cached\<lparr>rettype := t\<rparr>) (ex_server_of (ex_cached\<lparr>rettype := t\<rparr>) cs)"
  using assms
  by (auto simp: cached_call_def ex_cached_def ex_call_int4_def ex_call_info_def proc_current_def types_of_def ex_proc_row_def
      ex_sys_def sendable_proc_def ok_cstring_def MAX_CHUNK_def call_ok_def)

lemma ex_cached_call [simp]: "cached_call fm ex_sys ex_call_int4 ex_cached (ex_server cs)"
proof -
  have "ex_cached\<lparr>rettype := ex_int4\<rparr> = ex_cached" by (simp add: ex_cached_def)
  with ex_cached_of [OF ex_int4_facts(1,2), of fm cs] show ?thesis by simp
qed

lemma ex_call_scalar [simp]: "\<not> call_trigger ex_call_int4" "\<not> fn_retset ex_call_int4"
  by (simp_all add: ex_call_int4_def ex_call_info_def)

lemma ex_result_ok [simp]:
  "ok_message (MsgResult (ex_result [[Rawdata False (Some (VInt4 i))]]))"
  "message_depth (MsgResult (ex_result data)) = 1" "sent_exception (ex_result data) = None"
  "ok_message (MsgResult (ex_result []))"
  by (simp_all add: ex_result_def counts_def MaxAllocSize_def ok_column_def ok_row_def ok_cstring_def dt_ok_def dt_of_code_def
      sent_exception_def depth_all_def)

lemma ex_executor [simp]: "executor [RData (concat (map enc_message ms))] [] (concat (map enc_message ms)) (ex_answer ms)"
  by (simp add: executor_def ex_answer_def)

text \<open>The executor logs, runs a statement, whose rows it gets, and answers 7.\<close>

definition ex_table :: spi_table where
  "ex_table = \<lparr>sp_cols = [(23, [97])], sp_rows = [[Some (DInt4 5)], [None]]\<rparr>"

definition ex_query :: plcMessage where
  "ex_query = MsgSQL \<lparr>sqltype = SQL_TYPE_STATEMENT, statement = Some [83]\<rparr>"

lemma ex_fills: "fills ex_cat 23 ex_int4"
proof -
  have row: "pg_type ex_cat 23 = Some (ex_type_row 43 0 98)" by (simp add: ex_cat_def)
  show ?thesis
    unfolding fill_type_info_def fill_type_info_inner.simps [of ex_cat None 23] row option.case
    by (simp add: ex_type_row_def row_desc_def RECORDOID_def TYPTYPE_COMPOSITE_def returnM_run ex_int4_def)
qed

lemma ex_table_ok: "table_ok fm ex_cat [ex_int4] ex_table"
proof -
  have "flat_info ex_int4" using ex_int4_facts(3) by (simp add: ex_int4_def)
  then show ?thesis
    using ex_fills by (auto simp: table_ok_def ex_table_def good_name_def MaxAllocSize_def)
qed

lemma ex_answerable: "answerable fm ex_cat [Spi_rows [] ex_table] [ex_log, ex_query]"
  using ex_table_ok by (auto simp: ex_log_def ex_query_def ok_cstring_def MAX_CHUNK_def ERROR_def)

lemma call_returns_value_witness:
  "\<exists>(d :: dialogue) s'. pljvm_call_handler 3 3 ex_fm ex_sys ex_call_int4 None
      (ex_server [ex_answer [ex_log, ex_query, MsgResult (ex_result [[Rawdata False (Some (VInt4 7))]])]]
         \<lparr>spi := [Spi_rows [] ex_table]\<rparr>)
      = Ok (Value (Some (DInt4 7))) s' \<and> out_stream (bw s') = concat (map enc_message (replies d))
      \<and> length (replies d) = 2 \<and> spi s' = []"
proof -
  let ?r = "ex_result [[Rawdata False (Some (VInt4 7))]]"
  let ?c = "ex_answer [ex_log, ex_query, MsgResult ?r]"
  let ?s = "ex_server [?c]\<lparr>spi := [Spi_rows [] ex_table]\<rparr>"
  have ex: "executor [RData (concat (map enc_message [ex_log, ex_query, MsgResult ?r]))] []
      (concat (map enc_message [ex_log, ex_query]) @ enc_message (MsgResult ?r)) ?c"
    using ex_executor [of "[ex_log, ex_query, MsgResult ?r]"] by simp
  have cached: "cached_call ex_fm ex_sys ex_call_int4 ex_cached ?s"
    using ex_cached_call [of ex_fm "[?c]"] by (simp add: cached_call_def backend_inv_def)
  have con: "connects ?s = ?c # []" by simp
  have ans: "answerable ex_fm (tcat ex_sys) (spi ?s) [ex_log, ex_query]" using ex_answerable by simp
  have depth: "message_depth (MsgResult ?r) \<le> stack (bw ?s)" by (simp del: message_depth.simps)
  have v: "rdata ?r = [[Rawdata False (Some (VInt4 7))]]" "converts ex_fm (tcat ex_sys) (rettype ex_cached) (DInt4 7) (VInt4 7)"
    by (simp_all add: ex_result_def ex_cached_def)
  obtain req d s' where run: "pljvm_call_handler 3 3 ex_fm ex_sys ex_call_int4 None ?s = Ok (Value (Some (DInt4 7))) s'"
    "turns ex_fm ex_cat (dialogue_of ?s [MsgCallreq req]) [ex_log, ex_query] d"
    "out_stream (bw s') = concat (map enc_message (replies d))" "spi s' = script d"
    using call_returns_value [OF cached ex_call_scalar con ex ans _ ex_result_ok(1) depth ex_result_ok(3) v, of 3 3] by auto
  have "length (replies d) = 2" "script d = []"
    using turns_counts [OF run(2)] by (simp_all add: is_query_def ex_log_def ex_query_def)
  with run(1,3,4) show ?thesis by (intro exI [of _ d] exI [of _ s']) simp
qed

section \<open>Errors and their cost\<close>

lemma get_result_error:
  assumes call: "callable fm cat fcinfo p f s" and c: "connects s = c # cs"
    and ex: "executor rs ss (concat (map enc_message ms) @ enc_message m) c"
    and ms: "answerable fm (tcat cat) (spi s) ms" "length ms < n"
    and m: "ok_message m" "message_depth m \<le> stack (bw s)" "deliver_message m = MsgError e"
  shows "\<exists>req d w. turns fm (tcat cat) (dialogue_of s [MsgCallreq req]) ms d
    \<and> pljvm_get_result n fm cat fcinfo p s = Elog (E_client (emessage e) (stacktrace e))
       (s\<lparr>connects := cs, open_socks := Suc (open_socks s), bw := w, reports := told d, spi := script d\<rparr>)"
proof -
  obtain req d k w where w: "turns fm (tcat cat) (dialogue_of s [MsgCallreq req]) ms d"
    "healthy (stack (bw s)) w" "in_stream w = enc_message m"
    and run: "pljvm_get_result n fm cat fcinfo p s = bindM (answer_loop (Suc k) fm cat) (\<lambda>r.
       case r of
         None \<Rightarrow> returnM Unfinished
       | Some r \<Rightarrow> bindM plcDisconnect (\<lambda>_. returnM (Result \<lparr>resmsg = r, resrow = 0\<rparr>)))
      (s\<lparr>connects := cs, open_socks := Suc (open_socks s), bw := w, reports := told d, spi := script d\<rparr>)"
    using requests_answered [OF call c ex ms] by blast
  let ?s = "s\<lparr>connects := cs, open_socks := Suc (open_socks s), bw := w, reports := told d, spi := script d\<rparr>"
  obtain w2 where "process_answer fm cat ?s = Elog (E_client (emessage e) (stacktrace e)) (?s\<lparr>bw := w2\<rparr>)"
    using turn_error [OF m(1,2), of ?s "[]" e fm cat] w(2,3) m(3) by auto
  then have "pljvm_get_result n fm cat fcinfo p s = Elog (E_client (emessage e) (stacktrace e))
       (s\<lparr>connects := cs, open_socks := Suc (open_socks s), bw := w2, reports := told d, spi := script d\<rparr>)"
    by (simp add: run)
  with w(1) show ?thesis by blast
qed

text \<open>
  C35: an exception of the executor, alone or in place of a result, is raised with its message and stack trace after the
  requests before it were answered; the call is over, but its socket stays open and
  \<open>pl_container_caller_context\<close> stays that of the failed call.
\<close>

theorem call_raises_exception:
  assumes cached: "cached_call fm cat fcinfo g s" and kind: "\<not> call_trigger fcinfo"
    and con: "connects s = c # cs" "executor rs ss (concat (map enc_message ms) @ enc_message m) c"
    and ms: "answerable fm (tcat cat) (spi s) ms" "length ms < n"
    and m: "ok_message m" "message_depth m \<le> stack (bw s)" "deliver_message m = MsgError e"
  shows "\<exists>req d s'. pljvm_call_handler ctx n fm cat fcinfo None s = Elog (E_client (emessage e) (stacktrace e)) s'
    \<and> turns fm (tcat cat) (dialogue_of s [MsgCallreq req]) ms d \<and> reports s' = told d \<and> spi s' = script d
    \<and> open_socks s' = Suc (open_socks s) \<and> caller_context s' = ctx"
proof -
  let ?s = "s\<lparr>caller_context := ctx\<rparr>"
  have server: "refusals s = []" using cached by (simp add: cached_call_def)
  have "cached_call fm cat fcinfo g ?s" using cached by (simp add: cached_call_def backend_inv_def)
  from cached_call_run [OF this] obtain p ca where p: "get_proc_info cat fcinfo ?s = Ok p (?s\<lparr>cache := ca\<rparr>)"
    "callable fm cat fcinfo p (unchanged g) (?s\<lparr>cache := ca\<rparr>)" by blast
  obtain req d w where "turns fm (tcat cat) (dialogue_of s [MsgCallreq req]) ms d"
    "pljvm_get_result n fm cat fcinfo p (?s\<lparr>cache := ca\<rparr>) = Elog (E_client (emessage e) (stacktrace e))
       (?s\<lparr>cache := ca, connects := cs, open_socks := Suc (open_socks s), bw := w, reports := told d, spi := script d\<rparr>)"
    using get_result_error [OF p(2) _ con(2) _ ms(2) m(1) _ m(3), of cs] con(1) ms(1) m(2) by auto
  then show ?thesis
    by (intro exI [of _ req] exI [of _ d] exI [of _ "?s\<lparr>cache := ca, connects := cs, open_socks := Suc (open_socks s),
        bw := w, reports := told d, spi := script d\<rparr>"]) (simp add: handler_run [OF kind p(1) server])
qed

lemma call_raises_exception_witness:
  "\<exists>s'. pljvm_call_handler 3 1 ex_fm ex_sys ex_call_int4 None
      (ex_server [ex_answer [MsgError \<lparr>emessage = Some [66], stacktrace = None\<rparr>]])
      = Elog (E_client (Some [66]) None) s' \<and> open_socks s' = 1"
proof -
  let ?e = "\<lparr>emessage = Some [66], stacktrace = None\<rparr>"
  let ?c = "ex_answer [MsgError ?e]"
  have ex: "executor [RData (concat (map enc_message [MsgError ?e]))] [] (concat (map enc_message []) @ enc_message (MsgError ?e)) ?c"
    using ex_executor [of "[MsgError ?e]"] by simp
  have m: "answerable ex_fm (tcat ex_sys) (spi (ex_server [?c])) []" "length ([] :: plcMessage list) < 1" "ok_message (MsgError ?e)"
    "deliver_message (MsgError ?e) = MsgError ?e"
    "message_depth (MsgError ?e) \<le> stack (bw (ex_server [?c]))" "open_socks (ex_server [?c]) = 0"
    by (simp_all add: ok_error_def ok_cstring_def MAX_CHUNK_def ex_server_of_def ex_backend_def)
  from call_raises_exception [OF ex_cached_call ex_call_scalar(1) ex_server_facts(3) ex m(1,2,3,5,4), of 3] m(6)
  show ?thesis by auto
qed

text \<open>
  When the executor does not accept the connection a scalar function returns SQL NULL and no error; the socket that
  could not connect stays open.
\<close>

lemma call_refused_is_null:
  assumes cached: "cached_call fm cat fcinfo g s" and kind: "\<not> call_trigger fcinfo" and con: "connects s = Refused # cs"
  shows "\<exists>s'. pljvm_call_handler ctx n fm cat fcinfo None s = Ok (Value None) s'
    \<and> open_socks s' = Suc (open_socks s) \<and> caller_context s' = caller_context s"
proof -
  let ?s = "s\<lparr>caller_context := ctx\<rparr>"
  have server: "refusals s = []" using cached by (simp add: cached_call_def)
  have "cached_call fm cat fcinfo g ?s" using cached by (simp add: cached_call_def backend_inv_def)
  from cached_call_run [OF this] obtain p ca where p: "get_proc_info cat fcinfo ?s = Ok p (?s\<lparr>cache := ca\<rparr>)" by blast
  have "pljvm_get_result n fm cat fcinfo p (?s\<lparr>cache := ca\<rparr>)
      = Ok No_connection (?s\<lparr>cache := ca, connects := cs, open_socks := Suc (open_socks s)\<rparr>)"
    using con by (simp add: pljvm_get_result_def plcConnect_def bindM_def returnM_run)
  then show ?thesis using server by (simp add: handler_run [OF kind p] set_caller_context_def returnM_run)
qed

lemma call_refused_is_null_witness:
  "\<exists>s'. pljvm_call_handler 3 1 ex_fm ex_sys ex_call_int4 None (ex_server [Refused]) = Ok (Value None) s'"
  using call_refused_is_null [OF ex_cached_call ex_call_scalar(1) ex_server_facts(3), of 3 1 ex_fm] by blast

lemma handler_result:
  assumes cached: "cached_call fm cat fcinfo g s" and kind: "\<not> call_trigger fcinfo"
    and con: "connects s = c # cs" "executor rs ss (enc_message (MsgResult r)) c" and n: "0 < n"
    and r: "ok_message (MsgResult r)" "message_depth (MsgResult r) \<le> stack (bw s)" "sent_exception r = None"
  shows "\<exists>p s1. procs (cache s1) p = Some (unchanged g) \<and> pljvm_call_handler ctx n fm cat fcinfo None s
    = bindM (return_row fm (tcat cat) fcinfo p \<lparr>resmsg = received r, resrow = 0\<rparr>) (leave (caller_context s)) s1"
proof -
  let ?s = "s\<lparr>caller_context := ctx\<rparr>"
  have server: "refusals s = []" using cached by (simp add: cached_call_def)
  have "cached_call fm cat fcinfo g ?s" using cached by (simp add: cached_call_def backend_inv_def)
  from cached_call_run [OF this] obtain p ca where p: "get_proc_info cat fcinfo ?s = Ok p (?s\<lparr>cache := ca\<rparr>)"
    "callable fm cat fcinfo p (unchanged g) (?s\<lparr>cache := ca\<rparr>)" by blast
  have ex: "executor rs ss (concat (map enc_message []) @ enc_message (MsgResult r)) c" using con(2) by simp
  obtain w where w: "pljvm_get_result n fm cat fcinfo p (?s\<lparr>cache := ca\<rparr>) = Ok (Result \<lparr>resmsg = received r, resrow = 0\<rparr>)
       (?s\<lparr>cache := ca, connects := cs, bw := w\<rparr>)"
    using get_result_run [OF p(2) _ ex _ _ r(1) _ r(3), of cs n] con(1) n r(2)
    by (auto simp: turns_simps simp del: ok_message.simps enc_message.simps message_depth.simps)
  then show ?thesis
    using p(2) by (intro exI [of _ p] exI [of _ "?s\<lparr>cache := ca, connects := cs, bw := w\<rparr>"])
      (simp add: handler_run [OF kind p(1) server] callable_def)
qed

text \<open>
  C36: a scalar function whose executor answers a result without rows makes the backend dereference the NULL
  \<open>funcctx\<close>: only a set-returning function has one.
\<close>

theorem scalar_without_rows:
  assumes "cached_call fm cat fcinfo g s" and "\<not> call_trigger fcinfo" and kind: "\<not> fn_retset fcinfo"
    and "connects s = c # cs" and "executor rs ss (enc_message (MsgResult r)) c" and "0 < n"
    and "ok_message (MsgResult r)" and "message_depth (MsgResult r) \<le> stack (bw s)" and "sent_exception r = None"
    and "rdata r = []"
  shows "pljvm_call_handler ctx n fm cat fcinfo None s = Stuck NullDeref"
proof -
  have "sint (rows r) = 0" using assms(7,10) by (simp add: counts_def)
  then have "return_row fm (tcat cat) fcinfo p \<lparr>resmsg = received r, resrow = 0\<rparr> s1 = Stuck NullDeref" for p s1
    using kind by (simp add: return_row_def release_result_def checkM_def stuckM_def)
  with handler_result [OF assms(1,2,4-9), of ctx] show ?thesis by fastforce
qed

lemma scalar_without_rows_witness:
  "pljvm_call_handler 3 1 ex_fm ex_sys ex_call_int4 None (ex_server [ex_answer [MsgResult (ex_result [])]]) = Stuck NullDeref"
proof -
  let ?c = "ex_answer [MsgResult (ex_result [])]"
  have ex: "executor [RData (concat (map enc_message [MsgResult (ex_result [])]))] [] (enc_message (MsgResult (ex_result []))) ?c"
    using ex_executor [of "[MsgResult (ex_result [])]"] by simp
  have depth: "message_depth (MsgResult (ex_result [])) \<le> stack (bw (ex_server [?c]))" by (simp del: message_depth.simps)
  show ?thesis
    by (rule scalar_without_rows [OF ex_cached_call ex_call_scalar ex_server_facts(3) ex _ ex_result_ok(4) depth ex_result_ok(3)])
      (simp_all add: ex_result_def)
qed

text \<open>
  C37: nothing compares the type of the executor's result with the function's: an \<open>int8\<close> function whose executor answers a value of
  one byte reads eight.
\<close>

theorem result_type_unchecked:
  assumes "cached_call fm cat fcinfo g s" and "\<not> call_trigger fcinfo"
    and "connects s = c # cs" and "executor rs ss (enc_message (MsgResult r)) c" and "0 < n"
    and r: "ok_message (MsgResult r)" and "message_depth (MsgResult r) \<le> stack (bw s)" and "sent_exception r = None"
    and v: "rdata r = [[Rawdata False (Some (VInt1 b))]]" and g: "infunc (info (rettype g)) = Some From_int8"
  shows "pljvm_call_handler ctx n fm cat fcinfo None s = Stuck BadShape"
proof -
  have "return_row fm (tcat cat) fcinfo p \<lparr>resmsg = received r, resrow = 0\<rparr> s1 = Stuck BadShape"
    if "procs (cache s1) p = Some (unchanged g)" for p s1
  proof -
    note rc = single_value [OF r v]
    have "rows r \<noteq> 0" using rc(1) by auto
    moreover have "in_cache (deref p) s1 = Ok (unchanged g) s1" using that by (simp add: via_def deref_def)
    moreover have "in_world (in_datum fm (tcat cat) (rettype g) (Some (VInt1 b))) s1 = Stuck BadShape"
      using g by (cases "rettype g")
        (simp add: via_def in_datum.simps plc_datum_from_int8_def need_value_def stuckM_def)
    ultimately show ?thesis
      using rc v by (simp add: return_row_def pljvm_process_result_def Let_def nth_opt_def)
  qed
  with handler_result [OF assms(1-8), of ctx] show ?thesis by fastforce
qed

definition ex_int8 :: plcTypeInfo where
  "ex_int8 = TypeInfo (base_fields ex_cat 20 (ex_type_row 43 0 98) False) []"

lemma ex_int8_facts [simp]: "sendable_type ex_int8" "info_current ex_cat ex_int8" "infunc (info ex_int8) = Some From_int8"
  by (simp_all add: ex_int8_def sendable_type_def base_fields_def ex_cat_def io_of_oid_def INT4OID_def BOOLOID_def INT2OID_def
      INT8OID_def scalar_types_def io_match_def io_table_def)

lemma result_type_unchecked_witness:
  "pljvm_call_handler 3 1 ex_fm ex_sys ex_call_int4 None
     (ex_server_of (ex_cached\<lparr>rettype := ex_int8\<rparr>) [ex_answer [MsgResult ex_byte_result]]) = Stuck BadShape"
proof -
  let ?c = "ex_answer [MsgResult ex_byte_result]"
  have ex: "executor [RData (concat (map enc_message [MsgResult ex_byte_result]))] [] (enc_message (MsgResult ex_byte_result)) ?c"
    using ex_executor [of "[MsgResult ex_byte_result]"] by simp
  have r: "ok_message (MsgResult ex_byte_result)" "sent_exception ex_byte_result = None"
    "message_depth (MsgResult ex_byte_result) = 1" "rdata ex_byte_result = [[Rawdata False (Some (VInt1 1))]]"
    by (simp_all add: ex_byte_result_def counts_def MaxAllocSize_def ok_column_def ok_row_def ok_cstring_def dt_ok_def
        dt_of_code_def sent_exception_def depth_all_def)
  have cached: "cached_call ex_fm ex_sys ex_call_int4 (ex_cached\<lparr>rettype := ex_int8\<rparr>)
      (ex_server_of (ex_cached\<lparr>rettype := ex_int8\<rparr>) [?c])"
    by (rule ex_cached_of) simp_all
  show ?thesis
    by (rule result_type_unchecked [OF cached ex_call_scalar(1) ex_server_facts(3) ex _ r(1) _ r(2,4)]) (use r(3) in simp_all)
qed

end
