(* ===== verification/Datum_Props.thy ===== *)
theory Datum_Props
  imports Call_Props
begin

text \<open>
  The properties of the conversions between a \<open>Datum\<close> and the values of a message.
\<close>

section \<open>There and back\<close>

text \<open>
  C9: a datum of a type that \<open>fill_type_info\<close> describes is converted to a value, the value is sent, and where it is
  received, whatever follows it in the stream, it is converted back to the datum.
\<close>

theorem datum_roundtrip:
  assumes "sendable_type ti" and "datum_ok fm cat ti d" and "alloc_all w" and "healthy 0 ws"
  shows "\<exists>v bs ws'. out_datum fm ti d w = Ok v w
    \<and> send_raw_object (type_of_info ti) (Rawdata False (Some v)) ws = Ok 0 ws' \<and> out_stream ws' = out_stream ws @ bs
    \<and> (\<forall>wr rest. healthy 0 wr \<longrightarrow> in_stream wr = bs @ rest \<longrightarrow>
        (\<exists>r wr'. receive_raw_object (type_of_info ti) wr = Ok (0, Some r) wr' \<and> in_stream wr' = rest
           \<and> in_datum fm cat ti (rvalue r) wr' = Ok d wr'))"
proof -
  from assms(1) have "wf_info ti" "io_info ti" "named_info ti" "\<not> attisdropped (info ti)"
    by (simp_all add: sendable_type_def)
  from out_converts_run [OF this assms(2,3)] obtain v where v: "out_datum fm ti d w = Ok v w" "converts fm cat ti d v"
    by blast
  then have ok: "ok_object (type_of_info ti) (Rawdata False (Some v))" by (simp add: converts_def)
  have ws: "conn_inv ws" "sends_good ws" "alloc_all ws" using assms(4) by (simp_all add: healthy_def)
  have wr: "conn_inv wr" "alloc_all wr" "0 \<le> stack wr" if "healthy 0 wr" for wr
    using that by (simp_all add: healthy_def)
  obtain ws' where sent: "send_raw_object (type_of_info ti) (Rawdata False (Some v)) ws = Ok 0 ws'"
    "out_stream ws' = out_stream ws @ enc_object (type_of_info ti) (Rawdata False (Some v))"
    using puts_Ok [OF w_object.put_ok [OF ok] ws] by blast
  have got: "\<exists>r wr'. receive_raw_object (type_of_info ti) wr = Ok (0, Some r) wr' \<and> in_stream wr' = rest
           \<and> in_datum fm cat ti (rvalue r) wr' = Ok d wr'"
    if "healthy 0 wr" "in_stream wr = enc_object (type_of_info ti) (Rawdata False (Some v)) @ rest" for wr rest
  proof -
    note wr = that wr [OF that(1)]
    obtain wr' where "receive_raw_object (type_of_info ti) wr = Ok (0, Some (deliver (Rawdata False (Some v)))) wr'"
      "alloc_all wr'" "in_stream wr' = rest"
      using w_object.transfer [OF ok ws wr(3-5), of rest] wr
      by (auto dest!: in_kept_facts)
    with v(2) show ?thesis by (auto simp: converts_def)
  qed
  from v(1) sent got show ?thesis by blast
qed

text \<open>Example: \<open>int4[]\<close>, the array \<open>{1, NULL, 2}\<close>.\<close>

definition ex_int4_array :: plcTypeInfo where
  "ex_int4_array = TypeInfo ((base_fields ex_cat 1007 (ex_type_row F_ARRAY_OUT 23 98) False)
     \<lparr>datatype_of := PLC_DATA_ARRAY, outfunc := Some As_array, infunc := Some From_array\<rparr>) [ex_int4]"

definition ex_fm_array :: fmgr where
  "ex_fm_array = ex_fm\<lparr>fm_md_array := (\<lambda>_ ds items. Some (DArray ds (Some [5]) (List.map_filter id items)))\<rparr>"

definition ex_array_datum :: datum where
  "ex_array_datum = DArray [3] (Some [5]) [DInt4 1, DInt4 2]"

lemma datum_ok_array:
  assumes "outfunc f = Some As_array" and "fits_array ds bm n" and "array_items (present bm) 0 n es = Some items"
    and "\<forall>sub \<in> set subs. \<forall>x. Some x \<in> set items \<longrightarrow> datum_ok fm cat sub x"
    and "\<forall>sub \<in> set subs. fm_md_array fm (typeOid (info sub)) ds items = Some (DArray ds bm es)"
  shows "datum_ok fm cat (TypeInfo f subs) (DArray ds bm es)"
  using assms by (simp add: datum_ok.simps) blast

lemma ex_items: "array_items (present (Some [5])) 0 3 [DInt4 1, DInt4 2] = Some [Some (DInt4 1), None, Some (DInt4 2)]"
  by (simp add: numeral_3_eq_3 present_def bit_Suc)

lemma ex_array_facts: "sendable_type ex_int4_array" "datum_ok ex_fm_array ex_cat ex_int4_array ex_array_datum"
proof -
  have "info_depth ex_int4 = 1" "datatype_of (info ex_int4) = PLC_DATA_INT4"
    by (simp_all add: ex_int4_def base_fields_def ex_cat_def io_of_oid_def INT4OID_def BOOLOID_def INT2OID_def)
  then show "sendable_type ex_int4_array"
    using ex_int4_facts(1)
    by (simp add: ex_int4_array_def sendable_type_def base_fields_def ex_cat_def io_of_oid_def io_match_def io_table_def
        scalar_types_def)
  have "fits_array [3] (Some [5]) 3"
    by (simp add: fits_array_def MaxAllocSize_def in_int_def INT_MAX_def)
  moreover have "fm_md_array ex_fm_array (typeOid (info ex_int4)) [3] [Some (DInt4 1), None, Some (DInt4 2)]
      = Some (DArray [3] (Some [5]) [DInt4 1, DInt4 2])"
    by (simp add: ex_fm_array_def List.map_filter_def)
  ultimately show "datum_ok ex_fm_array ex_cat ex_int4_array ex_array_datum"
    unfolding ex_int4_array_def ex_array_datum_def
    by (intro datum_ok_array [OF _ _ ex_items]) simp_all
qed

lemma datum_roundtrip_witness:
  "\<exists>v bs ws'. out_datum ex_fm_array ex_int4_array ex_array_datum (world_of 0 [] []) = Ok v (world_of 0 [] [])
    \<and> out_stream ws' = bs"
  using datum_roundtrip [OF ex_array_facts, of "world_of 0 [] []" "world_of 0 [] []"]
  by (auto simp: healthy_def)

section \<open>Arrays\<close>

text \<open>
  C31: \<open>size\<close> calls of \<open>plc_backend_array_next\<close> on a fresh iterator yield the items of the array in order: NULL where
  the null bitmap has a 0, and the stored elements, each converted once, in the other places.
\<close>

theorem array_iterator:
  assumes "array_items (present bm) 0 n es = Some items" and "\<forall>bs. bm = Some bs \<longrightarrow> n \<le> 8 * length bs"
    and "\<forall>d. Some d \<in> set items \<longrightarrow> out d w = Ok (g d) w" and "alloc_all w"
  shows "array_objects out n \<lparr>bitmap = bm, bitmask = 1, elems = es\<rparr> w = Ok (map (to_raw g) items) w"
proof -
  have "\<lparr>bitmap = bm, bitmask = 1, elems = es\<rparr> = pos_at bm 0 es" by (cases bm) (simp_all add: pos_at_def)
  with array_objects_run [of bm 0 n es items out w g] assms show ?thesis by simp
qed

lemma array_iterator_witness:
  "array_objects plc_datum_as_int4 3 \<lparr>bitmap = Some [5], bitmask = 1, elems = [DInt4 1, DInt4 2]\<rparr> (world_of 0 [] [])
    = Ok [Rawdata False (Some (VInt4 1)), Rawdata True None, Rawdata False (Some (VInt4 2))] (world_of 0 [] [])"
proof -
  have "plc_datum_as_int4 (DInt4 i) (world_of 0 [] []) = Ok (VInt4 i) (world_of 0 [] [])" for i
    using alloc_all_run [of "world_of 0 [] []" 4] by (simp add: plc_datum_as_int4_def returnM_run MaxAllocSize_def)
  then show ?thesis
    using array_iterator [OF ex_items, where out = plc_datum_as_int4 and w = "world_of 0 [] []"
        and g = "\<lambda>d. case d of DInt4 i \<Rightarrow> VInt4 i"]
    by (auto simp: to_raw_def)
qed

section \<open>Dropped columns\<close>

lemma mapM_Ok_each:
  assumes "mapM f xs s = Ok ys s'" and "i < length xs"
  shows "\<exists>t t'. f (xs ! i) t = Ok (ys ! i) t'"
  using assms
proof (induction xs arbitrary: s ys i)
  case (Cons x xs)
  then obtain y t ys' where "f x s = Ok y t" "mapM f xs t = Ok ys' s'" "ys = y # ys'"
    by (auto simp: bindM_Ok_iff)
  with Cons.IH [of t ys' "i - 1"] Cons.prems(2) show ?case by (cases i) auto
qed simp

lemma mapM_Ok_length: "mapM f xs s = Ok ys s' \<Longrightarrow> length ys = length xs"
  by (induction xs arbitrary: s ys) (auto simp: bindM_Ok_iff)

lemma from_udt_Ok:
  assumes "plc_datum_from_udt fm cat f infn subs v w = Ok d w'"
  shows "\<exists>ds vals w1 w2 desc. mapM (udt_attribute infn subs ds) [0..<length subs] w1 = Ok vals w2
    \<and> rowtype_tupdesc cat (typeOid f) (typmod f) = Some desc \<and> None \<notin> set (take (length (td_attrs desc)) vals)"
proof -
  obtain x w0 where x: "v = Some x" "(case x of
       VUdt ds \<Rightarrow>
         bindM (plc_alloc (size_mult 8 (length subs))) (\<lambda>_.
         bindM (plc_alloc (size_mult 1 (length subs))) (\<lambda>_.
         bindM (mapM (udt_attribute infn subs ds) [0..<length subs]) (\<lambda>vals.
         case rowtype_tupdesc cat (typeOid f) (typmod f) of
           None \<Rightarrow> elogM (E_msg ''type is not composite'')
         | Some desc \<Rightarrow> heap_form_tuple fm desc vals)))
     | _ \<Rightarrow> stuckM BadShape) w0 = Ok d w'"
    using assms by (cases v) (auto simp: plc_datum_from_udt_def need_value_def bindM_Ok_iff needM_def stuckM_def)
  then obtain ds where ds: "x = VUdt ds" by (cases x) (simp_all add: stuckM_def)
  from x(2) obtain vals w1 w2 where "mapM (udt_attribute infn subs ds) [0..<length subs] w1 = Ok vals w2"
    "(case rowtype_tupdesc cat (typeOid f) (typmod f) of
           None \<Rightarrow> elogM (E_msg ''type is not composite'')
         | Some desc \<Rightarrow> heap_form_tuple fm desc vals) w2 = Ok d w'"
    unfolding ds bindM_Ok_iff rvalue.case by blast
  moreover from this(2) obtain desc where "rowtype_tupdesc cat (typeOid f) (typmod f) = Some desc"
    "heap_form_tuple fm desc vals w2 = Ok d w'"
    by (cases "rowtype_tupdesc cat (typeOid f) (typmod f)") (auto simp: elogM_def)
  moreover from this(2) have "None \<notin> set (take (length (td_attrs desc)) vals)"
    by (auto simp: heap_form_tuple_def bindM_Ok_iff checkM_def stuckM_def split: if_splits)
  ultimately show ?thesis by blast
qed

text \<open>
  C34: no value becomes a row of a type that has a dropped column, whatever the server's functions do: its entry of
  \<open>values\<close> and \<open>nulls\<close> is never written, and \<open>heap_form_tuple\<close> reads it, since a row type keeps the attributes it had when it was
  described. \<open>plc_datum_as_udt\<close> leaves the column out.
\<close>

theorem dropped_column_unset:
  assumes "infunc f = Some From_udt \<or> infunc f = Some From_udt_ptr" and "t \<in> set subs" and "attisdropped (info t)"
    and kept: "\<And>desc. rowtype_tupdesc cat (typeOid f) (typmod f) = Some desc \<Longrightarrow> length subs \<le> length (td_attrs desc)"
  shows "in_datum fm cat (TypeInfo f subs) v w \<noteq> Ok d w'"
proof
  assume "in_datum fm cat (TypeInfo f subs) v w = Ok d w'"
  with assms(1) have run: "plc_datum_from_udt fm cat f (\<lambda>t x. in_datum fm cat t x) subs v w = Ok d w'"
    by (auto simp: in_datum.simps)
  from from_udt_Ok [OF run] obtain ds vals w1 w2 desc where
    vals: "mapM (udt_attribute (\<lambda>t x. in_datum fm cat t x) subs ds) [0..<length subs] w1 = Ok vals w2"
    and desc: "rowtype_tupdesc cat (typeOid f) (typmod f) = Some desc" "None \<notin> set (take (length (td_attrs desc)) vals)"
    by blast
  have len: "length vals = length subs" using mapM_Ok_length [OF vals] by simp
  with desc kept [OF desc(1)] have set: "None \<notin> set vals" by simp
  obtain i where i: "i < length subs" "subs ! i = t" using assms(2) by (auto simp: in_set_conv_nth)
  with mapM_Ok_each [OF vals, of i] assms(3) have "vals ! i = None" by (auto simp: udt_attribute_def returnM_def)
  with set i(1) len show False by (metis nth_mem)
qed

text \<open>Example: the composite type of the example catalogs, whose second column is dropped.\<close>

lemma dropped_column_unset_witness:
  "in_datum ex_fm ex_cat (TypeInfo ((info ex_int4)\<lparr>infunc := Some From_udt, typeOid := 5000\<rparr>)
       [ex_int4, TypeInfo (zero_fields\<lparr>attisdropped := True\<rparr>) [], ex_int4])
     (Some (VUdt [Rawdata False (Some (VInt4 7)), Rawdata True None])) (world_of 0 [] [])
   \<noteq> Ok (DTuple [Some (DInt4 7), None, None]) (world_of 0 [] [])"
  by (rule dropped_column_unset [where t = "TypeInfo (zero_fields\<lparr>attisdropped := True\<rparr>) []"])
    (auto simp: ex_cat_def ex_desc_def)

section \<open>Added columns\<close>

text \<open>
  C27: when a column was added to a row type after the function's description was filled, a row that has a value for every
  column the description knows is not converted: \<open>heap_form_tuple\<close> reads the entries of all columns, past the end of
  \<open>values\<close> and \<open>nulls\<close>.
\<close>

theorem added_column_overread:
  assumes f: "infunc f = Some From_udt \<or> infunc f = Some From_udt_ptr"
    and subs: "\<forall>t \<in> set subs. \<not> attisdropped (info t)" "length subs \<le> 1664"
    and row: "length vs = length subs" "length ds = length subs" "\<forall>i < length subs. carries fm cat (subs ! i) (vs ! i) (ds ! i)"
    and desc: "rowtype_tupdesc cat (typeOid f) (typmod f) = Some desc" "length subs < length (td_attrs desc)" and w: "alloc_all w"
  shows "in_datum fm cat (TypeInfo f subs) (Some (VUdt (map deliver ds))) w = Stuck OutOfBounds"
proof -
  have "udt_attribute (in_datum fm cat) subs (map deliver ds) i w = Ok (Some (vs ! i)) w" if i: "i < length subs" for i
  proof -
    have "not_dropped (take i subs) = i" using not_dropped_all [OF subs(1), of i] i by simp
    moreover have "carries fm cat (subs ! i) (vs ! i) (ds ! i)" using row(3) i by blast
    ultimately show ?thesis
      using i subs(1) row(2) w
      by (cases "vs ! i") (auto simp: udt_attribute_def Let_def carries_def converts_def returnM_run simp del: deliver.simps
          split: rawdata.split bool.split, simp_all)
  qed
  then have "mapM (udt_attribute (in_datum fm cat) subs (map deliver ds)) [0..<length subs] w
      = Ok (map (\<lambda>i. Some (vs ! i)) [0..<length subs]) w"
    by (intro mapM_run) simp
  moreover have "int (size_mult 8 (length subs)) \<le> MaxAllocSize" "int (size_mult 1 (length subs)) \<le> MaxAllocSize"
    using subs(2) by (simp_all add: size_mult_def MaxAllocSize_def)
  note alloc_all_run [OF w this(1)] alloc_all_run [OF w this(2)]
  ultimately have "plc_datum_from_udt fm cat f (in_datum fm cat) subs (Some (VUdt (map deliver ds))) w = Stuck OutOfBounds"
    using desc by (auto simp: plc_datum_from_udt_def heap_form_tuple_def need_value_def returnM_run checkM_def stuckM_def)
  with f show ?thesis by (auto simp: in_datum.simps)
qed

text \<open>Example: the example's row type, described when it had one column.\<close>

lemma added_column_overread_witness:
  "in_datum ex_fm ex_cat (TypeInfo ((info ex_int4)\<lparr>infunc := Some From_udt, typeOid := 5000\<rparr>) [ex_int4])
     (Some (VUdt (map deliver [Rawdata False (Some (VInt4 7))]))) (world_of 0 [] []) = Stuck OutOfBounds"
  by (rule added_column_overread [where vs = "[Some (DInt4 7)]" and desc = ex_desc])
    (use ex_int4_facts(1) in \<open>auto simp: ex_cat_def ex_desc_def carries_def sendable_type_def\<close>)

end
