(* ===== verification/Srf_Props.thy ===== *)
theory Srf_Props
  imports Call_Props
begin

text \<open>
  Set-returning functions: PostgreSQL calls the handler again and again, with the state the first call
  left in \<open>funcctx\<close>, until it is done.
\<close>

section \<open>The calls of a set-returning function\<close>

text \<open>What the caller collects in at most \<open>k\<close> calls, and whether the function was done.\<close>

primrec fetch_rows :: "nat \<Rightarrow> nat \<Rightarrow> nat \<Rightarrow> fmgr \<Rightarrow> sys_catalog \<Rightarrow> call_info \<Rightarrow> plcProcResult option option
    \<Rightarrow> (backend, datum option list \<times> bool) prog" where
  "fetch_rows 0 ctx n fm cat fcinfo srf = returnM ([], False)"
| "fetch_rows (Suc k) ctx n fm cat fcinfo srf =
     bindM (pljvm_call_handler ctx n fm cat fcinfo srf) (\<lambda>h.
     case h of
       Row x presult \<Rightarrow>
         bindM (fetch_rows k ctx n fm cat fcinfo (Some (Some presult))) (\<lambda>(xs, done).
         returnM (x # xs, done))
     | Done \<Rightarrow> returnM ([], True)
     | _ \<Rightarrow> returnM ([], False))"

text \<open>The result of one column whose rows carry the given values.\<close>

definition rows_carry :: "fmgr \<Rightarrow> catalog \<Rightarrow> plcTypeInfo \<Rightarrow> datum option list \<Rightarrow> plcMsgResult \<Rightarrow> bool" where
  "rows_carry fm cat ti xs r \<longleftrightarrow> ok_message (MsgResult r) \<and>
     list_all2 (\<lambda>x ds. \<exists>d. ds = [d] \<and> carries fm cat ti x d) xs (rdata r)"

lemma rows_carry_counts:
  assumes "rows_carry fm cat ti xs r"
  shows "sint (rows r) = int (length xs)" "i < length xs \<Longrightarrow> sint (cols r) = 1"
proof -
  have len: "length (rdata r) = length xs" using assms by (auto simp: rows_carry_def dest: list_all2_lengthD)
  then show "sint (rows r) = int (length xs)" using assms by (simp add: rows_carry_def counts_def)
  assume "i < length xs"
  with len have "rdata r ! i \<in> set (rdata r)" "length (rdata r ! i) = 1"
    using assms by (auto simp: rows_carry_def dest: list_all2_nthD)
  then show "sint (cols r) = 1" using assms by (auto simp: rows_carry_def ok_row_def counts_def)
qed

lemma rows_carry_released:
  assumes "rows_carry fm cat ti xs r" and "sent_exception r = None"
  shows "release_result False (received r) = (returnM () :: ('s, unit) prog)"
proof -
  have r: "ok_message (MsgResult r)" "list_all2 (\<lambda>x ds. \<exists>d. ds = [d] \<and> carries fm cat ti x d) xs (rdata r)"
    using assms(1) by (simp_all only: rows_carry_def)
  have "releasable d" if "row \<in> set (rdata r)" "d \<in> set row" for row d
  proof -
    from that(1) obtain i where "i < length (rdata r)" "row = rdata r ! i" by (auto simp: in_set_conv_nth)
    with list_all2_nthD2 [OF r(2), of i] obtain e where "row = [e]" "carries fm cat ti (xs ! i) e" by auto
    with that(2) show ?thesis by (auto intro: releasable_carries)
  qed
  then show ?thesis by (intro release_result_got [OF r(1) result_delivered [OF assms(2)]]) blast
qed

lemma return_row_at:
  assumes r: "rows_carry fm cat (rettype f) xs r" and i: "i < length xs" and p: "procs (cache s) p = Some f"
    and w: "alloc_all (bw s)" and srf: "fn_retset fcinfo"
  shows "return_row fm cat fcinfo p \<lparr>resmsg = received r, resrow = int i\<rparr> s
    = Ok (Row (xs ! i) \<lparr>resmsg = received r, resrow = int (Suc i)\<rparr>) s"
proof -
  have vals: "list_all2 (\<lambda>x ds. \<exists>d. ds = [d] \<and> carries fm cat (rettype f) x d) xs (rdata r)"
    using r by (simp only: rows_carry_def)
  obtain d where d: "rdata r ! i = [d]" "carries fm cat (rettype f) (xs ! i) d" "length (rdata r) = length xs"
    using list_all2_nthD [OF vals i] list_all2_lengthD [OF vals] by auto
  note n = rows_carry_counts [OF r]
  have "rows r \<noteq> 0" using n(1) i by auto
  moreover have f: "in_cache (deref p) s = Ok f s" using p by (simp add: via_def deref_def)
  ultimately have "pljvm_process_result fm cat p \<lparr>resmsg = received r, resrow = int i\<rparr> s = Ok (xs ! i) s"
  proof (cases "xs ! i")
    case None
    with d \<open>rows r \<noteq> 0\<close> n i show ?thesis
      by (simp add: pljvm_process_result_def Let_def nth_opt_def returnM_run carries_def)
  next
    case (Some x)
    then obtain v where v: "d = Rawdata False (Some v)" "converts fm cat (rettype f) x v"
      using d(2) by (auto simp: carries_def)
    then have "in_world (in_datum fm cat (rettype f) (rvalue (deliver (Rawdata False (Some v))))) s = Ok x s"
      using w by (simp add: via_def converts_def)
    with Some v(1) d \<open>rows r \<noteq> 0\<close> n i f show ?thesis
      by (simp add: pljvm_process_result_def Let_def nth_opt_def returnM_run)
  qed
  with n(1) i srf show ?thesis by (simp add: return_row_def returnM_run)
qed

lemma return_row_end:
  assumes "rows_carry fm cat ti xs r" and "fn_retset fcinfo" and "sent_exception r = None"
  shows "return_row fm cat fcinfo p \<lparr>resmsg = received r, resrow = int (length xs)\<rparr> s = Ok Done s"
proof -
  have "release_result False (received r) = (returnM () :: (backend, unit) prog)" by (rule rows_carry_released [OF assms(1,3)])
  with rows_carry_counts(1) [OF assms(1)] assms(2) show ?thesis by (simp add: return_row_def returnM_run)
qed

text \<open>The handler in a call after the first.\<close>

lemma handler_next:
  assumes cached: "cached_call fm cat fcinfo g s" and kind: "\<not> call_trigger fcinfo" "fn_retset fcinfo"
  shows "\<exists>p s1. procs (cache s1) p = Some (unchanged g) \<and> memory_good (bw s1) \<and> refusals s1 = [] \<and> bw s1 = bw s \<and> connects s1 = connects s
    \<and> cached_call fm cat fcinfo (unchanged g) (s1\<lparr>caller_context := caller_context s\<rparr>)
    \<and> pljvm_call_handler ctx n fm cat fcinfo (Some (Some pr)) s
      = bindM (return_row fm (tcat cat) fcinfo p pr) (leave (caller_context s)) s1"
proof -
  let ?s = "s\<lparr>caller_context := ctx\<rparr>"
  have server: "refusals s = []" using cached by (simp add: cached_call_def)
  have "cached_call fm cat fcinfo g ?s" using cached by (simp add: cached_call_def backend_inv_def)
  from cached_call_run [OF this] obtain p ca where p: "get_proc_info cat fcinfo ?s = Ok p (?s\<lparr>cache := ca\<rparr>)"
    "callable fm cat fcinfo p (unchanged g) (?s\<lparr>cache := ca\<rparr>)" "cached_call fm cat fcinfo (unchanged g) (?s\<lparr>cache := ca\<rparr>)"
    by blast
  have "pljvm_call_handler ctx n fm cat fcinfo (Some (Some pr)) s
      = bindM (return_row fm (tcat cat) fcinfo p pr) (leave (caller_context s)) (?s\<lparr>cache := ca\<rparr>)"
    using kind p(1) server
    by (simp add: pljvm_call_handler_def pljvm_call_hook_def set_caller_context_def [of ctx] bindM_assoc)
  moreover have "cached_call fm cat fcinfo (unchanged g) (?s\<lparr>cache := ca, caller_context := caller_context s\<rparr>)"
    using p(3) by (simp add: cached_call_def backend_inv_def)
  ultimately show ?thesis
    using p(2) server by (intro exI [of _ p] exI [of _ "?s\<lparr>cache := ca\<rparr>"]) (simp add: callable_def)
qed

lemma unchanged_idem [simp]: "unchanged (unchanged g) = unchanged g"
  by (simp add: unchanged_def)

lemma fetch_rest:
  assumes "cached_call fm cat fcinfo g s" and kind: "\<not> call_trigger fcinfo" "fn_retset fcinfo"
    and r: "rows_carry fm (tcat cat) (rettype g) xs r" and "i \<le> length xs" and "length xs - i < k"
    and e: "sent_exception r = None"
  shows "\<exists>s'. fetch_rows k ctx n fm cat fcinfo (Some (Some \<lparr>resmsg = received r, resrow = int i\<rparr>)) s = Ok (drop i xs, True) s'
    \<and> bw s' = bw s \<and> connects s' = connects s"
  using assms(1,4-6)
proof (induction k arbitrary: i s g)
  case (Suc k)
  obtain p s1 where s1: "procs (cache s1) p = Some (unchanged g)" "memory_good (bw s1)" "refusals s1 = []" "bw s1 = bw s" "connects s1 = connects s"
    "cached_call fm cat fcinfo (unchanged g) (s1\<lparr>caller_context := caller_context s\<rparr>)"
    and run: "pljvm_call_handler ctx n fm cat fcinfo (Some (Some \<lparr>resmsg = received r, resrow = int i\<rparr>)) s
      = bindM (return_row fm (tcat cat) fcinfo p \<lparr>resmsg = received r, resrow = int i\<rparr>)
          (leave (caller_context s)) s1"
    using handler_next [OF Suc.prems(1) kind, of ctx n "\<lparr>resmsg = received r, resrow = int i\<rparr>"] by blast
  let ?s = "s1\<lparr>caller_context := caller_context s\<rparr>"
  show ?case
  proof (cases "i = length xs")
    case True
    then have "pljvm_call_handler ctx n fm cat fcinfo (Some (Some \<lparr>resmsg = received r, resrow = int i\<rparr>)) s = Ok Done ?s"
      unfolding run using return_row_end [OF Suc.prems(2) kind(2) e, of p s1] True s1(3) by (simp add: set_caller_context_def returnM_run)
    with True s1 show ?thesis by (auto simp: returnM_run)
  next
    case False
    then have i: "i < length xs" using Suc.prems(3) by simp
    have "pljvm_call_handler ctx n fm cat fcinfo (Some (Some \<lparr>resmsg = received r, resrow = int i\<rparr>)) s
        = Ok (Row (xs ! i) \<lparr>resmsg = received r, resrow = int (Suc i)\<rparr>) ?s"
      using return_row_at [OF _ i s1(1) _ kind(2), of fm "tcat cat" r] Suc.prems(2) s1(2)
      unfolding run using s1(3) by (simp add: set_caller_context_def returnM_run memory_good_def)
    moreover have "length xs - Suc i < k" using Suc.prems(4) i by arith
    then obtain s' where "fetch_rows k ctx n fm cat fcinfo (Some (Some \<lparr>resmsg = received r, resrow = int (Suc i)\<rparr>)) ?s
        = Ok (drop (Suc i) xs, True) s'" "bw s' = bw s" "connects s' = connects s"
      using Suc.IH [OF s1(6), of "Suc i"] Suc.prems(2) i s1(4,5) by auto
    ultimately show ?thesis by (simp add: returnM_run Cons_nth_drop_Suc [OF i])
  qed
qed simp

text \<open>
  C5: calling a set-returning function until it is done yields the rows of the executor's result, in order, NULLs included;
  only the first call connects and sends anything, and the call after the last row says that it is done.
\<close>

theorem srf_rows:
  assumes cached: "cached_call fm cat fcinfo g s" and kind: "\<not> call_trigger fcinfo" "fn_retset fcinfo"
    and con: "connects s = c # cs" "executor rs ss (concat (map enc_message ms) @ enc_message (MsgResult r)) c"
    and ms: "answerable fm (tcat cat) (spi s) ms" "length ms < n"
    and r: "rows_carry fm (tcat cat) (rettype g) xs r" "message_depth (MsgResult r) \<le> stack (bw s)" "sent_exception r = None"
  shows "\<exists>req d s'. fetch_rows (Suc (length xs)) ctx n fm cat fcinfo None s = Ok (xs, True) s'
    \<and> turns fm (tcat cat) (dialogue_of s [MsgCallreq req]) ms d
    \<and> out_stream (bw s') = concat (map enc_message (replies d)) \<and> connects s' = cs"
proof -
  let ?s = "s\<lparr>caller_context := ctx\<rparr>"
  have server: "refusals s = []" using cached by (simp add: cached_call_def)
  have "cached_call fm cat fcinfo g ?s" using cached by (simp add: cached_call_def backend_inv_def)
  from cached_call_run [OF this] obtain p ca where p: "get_proc_info cat fcinfo ?s = Ok p (?s\<lparr>cache := ca\<rparr>)"
    "callable fm cat fcinfo p (unchanged g) (?s\<lparr>cache := ca\<rparr>)" "cached_call fm cat fcinfo (unchanged g) (?s\<lparr>cache := ca\<rparr>)"
    by blast
  have ok: "ok_message (MsgResult r)" using r(1) by (simp add: rows_carry_def del: ok_message.simps)
  obtain req d w where w: "turns fm (tcat cat) (dialogue_of s [MsgCallreq req]) ms d" "out_stream w = concat (map enc_message (replies d))"
    "memory_good w" "pljvm_get_result n fm cat fcinfo p (?s\<lparr>cache := ca\<rparr>) = Ok (Result \<lparr>resmsg = received r, resrow = 0\<rparr>)
       (?s\<lparr>cache := ca, connects := cs, bw := w, reports := told d, spi := script d\<rparr>)"
    using get_result_run [OF p(2) _ con(2) _ ms(2) ok _ r(3), of cs] con(1) ms(1) r(2)
    by (auto simp del: ok_message.simps enc_message.simps message_depth.simps)
  let ?s2 = "?s\<lparr>cache := ca, connects := cs, bw := w, reports := told d, spi := script d\<rparr>"
  let ?s3 = "?s2\<lparr>caller_context := caller_context s\<rparr>"
  have run: "pljvm_call_handler ctx n fm cat fcinfo None s
    = bindM (return_row fm (tcat cat) fcinfo p \<lparr>resmsg = received r, resrow = int 0\<rparr>)
        (leave (caller_context s)) ?s2"
    using w(4) by (simp add: handler_run [OF kind(1) p(1) server])
  have procs: "procs (cache ?s2) p = Some (unchanged g)" using p(2) by (simp add: callable_def)
  have "cached_call fm cat fcinfo (unchanged g) ?s3"
    using p(3) w(3) by (simp add: cached_call_def backend_inv_def)
  note rest = fetch_rest [OF this kind, of xs r 1 "length xs" ctx n, OF _ _ _ r(3)]
  show ?thesis
  proof (cases xs)
    case Nil
    then have "fetch_rows (Suc (length xs)) ctx n fm cat fcinfo None s = Ok (xs, True) ?s3"
      using return_row_end [OF r(1) kind(2) r(3), of p ?s2] server by (simp add: run set_caller_context_def returnM_run)
    with w(1,2) show ?thesis by (intro exI [of _ req] exI [of _ d] exI [of _ ?s3]) simp
  next
    case (Cons x xs')
    then have "pljvm_call_handler ctx n fm cat fcinfo None s = Ok (Row x \<lparr>resmsg = received r, resrow = int 1\<rparr>) ?s3"
      using return_row_at [OF _ _ procs _ kind(2), of fm "tcat cat" xs r 0] r(1) w(3) server
      by (simp add: run set_caller_context_def returnM_run memory_good_def)
    moreover obtain s' where "fetch_rows (length xs) ctx n fm cat fcinfo (Some (Some \<lparr>resmsg = received r, resrow = int 1\<rparr>)) ?s3
        = Ok (drop 1 xs, True) s'" "bw s' = w" "connects s' = cs"
      using rest r(1) Cons by auto
    ultimately show ?thesis
      using w(1,2) Cons by (intro exI [of _ req] exI [of _ d] exI [of _ s']) (simp add: returnM_run)
  qed
qed

text \<open>Example: the function \<open>int4 -> int4\<close> as a set-returning one, answered with the rows 4 and NULL.\<close>

definition ex_call_set :: call_info where
  "ex_call_set = ex_call_int4\<lparr>fn_retset := True\<rparr>"

lemma ex_cached_set: "cached_call fm ex_sys ex_call_set ex_cached (ex_server cs)"
  using ex_cached_call [of fm cs] by (simp add: cached_call_def ex_call_set_def call_ok_def)

lemma srf_rows_witness:
  "\<exists>s'. fetch_rows 3 1 1 ex_fm ex_sys ex_call_set None
      (ex_server [ex_answer [MsgResult (ex_result [[Rawdata False (Some (VInt4 4))], [Rawdata True None]])]])
    = Ok ([Some (DInt4 4), None], True) s' \<and> connects s' = []"
proof -
  let ?r = "ex_result [[Rawdata False (Some (VInt4 4))], [Rawdata True None]]"
  let ?c = "ex_answer [MsgResult ?r]"
  have ex: "executor [RData (concat (map enc_message [MsgResult ?r]))] [] (concat (map enc_message []) @ enc_message (MsgResult ?r)) ?c"
    using ex_executor [of "[MsgResult ?r]"] by simp
  have call: "\<not> call_trigger ex_call_set" "fn_retset ex_call_set"
    using ex_call_scalar by (simp_all add: ex_call_set_def)
  have r: "rows_carry ex_fm (tcat ex_sys) (rettype ex_cached) [Some (DInt4 4), None] ?r"
    by (simp add: rows_carry_def carries_def ex_result_def ex_cached_def counts_def MaxAllocSize_def ok_column_def ok_row_def
        ok_cstring_def dt_ok_def dt_of_code_def sent_exception_def)
  have depth: "message_depth (MsgResult ?r) \<le> stack (bw (ex_server [?c]))" by (simp del: message_depth.simps)
  have ans: "answerable ex_fm (tcat ex_sys) (spi (ex_server [?c])) []" "length ([] :: plcMessage list) < 1" by simp_all
  from srf_rows [OF ex_cached_set call ex_server_facts(3) ex ans r depth ex_result_ok(3), of 1] show ?thesis
    by (auto simp: numeral_3_eq_3)
qed

end
