(* ===== verification/Input_Bound.thy ===== *)
theory Input_Bound
  imports Channel Conn_Stream
begin

text \<open>
  How much input is still to come: what the buffer holds and what the socket will deliver. No operation of the channel
  makes it more, well-formed data or not, and taking the type of a message makes it less.
\<close>

section \<open>The bytes still to come\<close>

fun arriving :: "recv_ev list \<Rightarrow> nat" where
  "arriving [] = 0"
| "arriving (RData bs # es) = length bs + arriving es"
| "arriving (RFail e # es) = arriving es"

text \<open>What is in the input buffer and what the socket will still deliver.\<close>

definition pending :: "world \<Rightarrow> int" where
  "pending w = pEnd (buf PLC_INPUT_BUFFER w) - pStart (buf PLC_INPUT_BUFFER w) + int (arriving (recvs w))"

definition upto :: "int \<Rightarrow> world \<Rightarrow> bool" where
  "upto k w \<longleftrightarrow> pending w \<le> k"

lemma recv_arriving: "kernel_recv n es = Some ((sz, err, bs), es') \<Longrightarrow> int (arriving es') + max 0 sz \<le> int (arriving es)"
  by (cases "(n, es)" rule: kernel_recv.cases) (auto split: if_splits)

lemma socket_recv_upto:
  "case plcSocketRecv n w of
     Ok (sz, bs) w' \<Rightarrow> buf PLC_INPUT_BUFFER w' = buf PLC_INPUT_BUFFER w \<and> int (arriving (recvs w')) + max 0 sz \<le> int (arriving (recvs w))
   | Elog e w' \<Rightarrow> buf PLC_INPUT_BUFFER w' = buf PLC_INPUT_BUFFER w \<and> arriving (recvs w') \<le> arriving (recvs w)
   | _ \<Rightarrow> True"
proof (induction n w rule: plcSocketRecv.induct)
  case (1 n w)
  show ?case
  proof (cases "kernel_recv n (recvs w)")
    case None
    then show ?thesis by (subst plcSocketRecv.simps) simp
  next
    case (Some r)
    obtain sz err bs es where r: "r = ((sz, err, bs), es)" by (metis prod.exhaust)
    note Some = Some [unfolded r] and IH = 1 [OF Some [unfolded r], OF refl refl refl]
    from recv_arriving [OF Some] IH Some show ?thesis
      by (subst plcSocketRecv.simps) (auto split: outcome.splits prod.splits)
  qed
qed

lemma fill_upto: "keeps (upto k) (receive_loop_fill n) (upto k) (upto k)"
  unfolding keeps_def
proof (intro allI impI)
  fix w
  assume "upto k w"
  then show "case receive_loop_fill n w of Ok x t \<Rightarrow> upto k t | Elog e t \<Rightarrow> upto k t | _ \<Rightarrow> True"
  proof (induction n w rule: receive_loop_fill.induct)
    case (1 n w)
    let ?b = "buf PLC_INPUT_BUFFER w"
    show ?case
    proof (cases "0 < n")
      case False
      with 1(2) show ?thesis by (subst receive_loop_fill.simps) simp
    next
      case True
      note recv = socket_recv_upto [where n = "size_of_int (bufSize ?b - pEnd ?b)" and w = w]
      show ?thesis
      proof (cases "plcSocketRecv (size_of_int (bufSize ?b - pEnd ?b)) w")
        case (Ok r u)
        obtain sz bs where r: "r = (sz, bs)" by (cases r)
        note Ok = Ok [unfolded r] and IH = 1(1) [OF True refl Ok [unfolded r] refl]
        from recv Ok 1(2) IH True show ?thesis
          by (subst receive_loop_fill.simps) (auto simp: Let_def upto_def pending_def split: option.splits)
      next
        case (Elog e u)
        with recv 1(2) True show ?thesis
          by (subst receive_loop_fill.simps) (auto simp: Let_def upto_def pending_def)
      qed (subst receive_loop_fill.simps, simp add: Let_def True)+
    qed
  qed
qed

lemma reset_upto [keeps_intros]: "keeps (upto k) (plcBufferMaybeReset bt) (upto k) (upto k)"
  by (auto simp: keeps_def plcBufferMaybeReset_def bindM_def get_buf_def put_buf_def needM_def checkM_def returnM_def stuckM_def
      Let_def upto_def pending_def split: option.splits)

lemma reallocate_upto [keeps_intros]: "keeps (upto k) (reallocate bt n) (upto k) (upto k)"
  by (auto simp: keeps_def reallocate_def bindM_def get_buf_def put_buf_def needM_def plc_alloc_def returnM_def stuckM_def
      upto_def pending_def split: option.splits)

lemma get_buf_upto [keeps_intros]: "keeps (upto k) (get_buf bt) (upto k) (upto k)"
  by (simp add: keeps_def get_buf_def)

lemma alloc_upto [keeps_intros]: "keeps (upto k) (plc_alloc n) (upto k) (upto k)"
  by (simp add: keeps_def plc_alloc_def)

lemma resize_upto [keeps_intros]: "keeps (upto k) (plcBufferMaybeResize bt n) (upto k) (upto k)"
  unfolding plcBufferMaybeResize_def by (intro keeps_intros)

lemma receive_upto [keeps_intros]: "keeps (upto k) (plcBufferReceive n) (upto k) (upto k)"
  unfolding plcBufferReceive_def by (intro keeps_intros fill_upto)

lemma read_upto [keeps_intros]: "keeps (upto k) (plcBufferRead n) (upto k) (upto k)"
proof -
  have take: "keeps (upto k)
      (bindM (get_buf PLC_INPUT_BUFFER) (\<lambda>b.
       bindM (needM OutOfBounds (mem_read (bdata b) (pStart b) (int n))) (\<lambda>bs.
       bindM (put_buf PLC_INPUT_BUFFER (b\<lparr>pStart := pStart b + int n\<rparr>)) (\<lambda>_.
       returnM (res, Some bs))))) (upto k) (upto k)" for res :: int
    by (auto simp: keeps_def bindM_def get_buf_def put_buf_def needM_def returnM_def stuckM_def upto_def pending_def split: option.splits)
  show ?thesis unfolding plcBufferRead_def by (intro keeps_bind_same [OF receive_upto] keeps_if take keeps_return)
qed

text \<open>What the output side does leaves the input alone.\<close>

lemma set_out_upto [simp]: "upto k (set_buf PLC_OUTPUT_BUFFER b w) = upto k w"
  by (simp add: upto_def pending_def)

lemma flush_upto: "keeps (upto k) flush_loop (upto k) (upto k)"
  unfolding keeps_def
proof (intro allI impI)
  fix w
  assume "upto k w"
  then show "case flush_loop w of Ok x t \<Rightarrow> upto k t | Elog e t \<Rightarrow> upto k t | _ \<Rightarrow> True"
  proof (induction w rule: flush_loop.induct)
    case (1 w)
    let ?b = "buf PLC_OUTPUT_BUFFER w"
    show ?case
    proof (cases "pStart ?b < pEnd ?b")
      case True
      show ?thesis
      proof (cases "mem_read (bdata ?b) (pStart ?b) (pEnd ?b - pStart ?b)")
        case None
        with True show ?thesis by (subst flush_loop.simps) (simp add: Let_def)
      next
        case (Some bs)
        have sent: "case plcSocketSend bs w of Ok x t \<Rightarrow> upto k t | Elog e t \<Rightarrow> upto k t | _ \<Rightarrow> True"
          using 1(2) by (auto simp: plcSocketSend_def Let_def upto_def pending_def split: prod.splits)
        with 1(1) [OF refl True Some] Some True show ?thesis
          by (subst flush_loop.simps) (auto simp: Let_def split: outcome.splits)
      qed
    next
      case False
      with 1(2) show ?thesis by (subst flush_loop.simps) (simp add: Let_def)
    qed
  qed
qed

lemma maybe_flush_upto [keeps_intros]: "keeps (upto k) (plcBufferMaybeFlush force) (upto k) (upto k)"
  unfolding plcBufferMaybeFlush_def by (intro keeps_intros flush_upto)

lemma append_upto [keeps_intros]: "keeps (upto k) (plcBufferAppend bs n) (upto k) (upto k)"
proof -
  have "keeps (upto k) (put_buf PLC_OUTPUT_BUFFER b) (upto k) (upto k)" for b
    by (simp add: keeps_def put_buf_def)
  then show ?thesis unfolding plcBufferAppend_def by (intro keeps_intros)
qed

section \<open>Releasing\<close>

text \<open>A release changes nothing of the state.\<close>

lemma keeps_rvalue [keeps_intros]:
  assumes "\<And>x. keeps I (f1 x) J E" "\<And>x. keeps I (f2 x) J E" "\<And>x. keeps I (f3 x) J E" "\<And>x. keeps I (f4 x) J E"
    "\<And>x. keeps I (f5 x) J E" "\<And>x. keeps I (f6 x) J E" "\<And>x. keeps I (f7 x) J E" "\<And>x. keeps I (f8 x) J E"
    "\<And>m xs. v = VIter m xs \<Longrightarrow> keeps I (f9 m xs) J E" "\<And>m xs. v = VArray m xs \<Longrightarrow> keeps I (f10 m xs) J E"
    "\<And>xs. v = VUdt xs \<Longrightarrow> keeps I (f11 xs) J E"
  shows "keeps I (case v of VInt1 x \<Rightarrow> f1 x | VInt2 x \<Rightarrow> f2 x | VInt4 x \<Rightarrow> f3 x | VInt8 x \<Rightarrow> f4 x | VFloat4 x \<Rightarrow> f5 x
    | VFloat8 x \<Rightarrow> f6 x | VText x \<Rightarrow> f7 x | VBytea x \<Rightarrow> f8 x | VIter m xs \<Rightarrow> f9 m xs | VArray m xs \<Rightarrow> f10 m xs | VUdt xs \<Rightarrow> f11 xs) J E"
  using assms by (cases v) simp_all

lemma keeps_free_value [keeps_intros]: "keeps I (free_value v) I E"
  unfolding free_value_def by (intro keeps_intros)

lemma keeps_release_value [keeps_intros]:
  "keeps I (release_udt v t b) I E" "keeps I (release_array v t b) I E"
proof (induction v t b and v t b rule: release_udt_release_array.induct)
  case (1 udt type isSender)
  show ?case unfolding release_udt.simps by (intro keeps_intros; rule 1; simp)
next
  case (2 arr type isSender)
  show ?case unfolding release_array.simps by (intro keeps_intros; rule 2; simp)
qed

lemma keeps_release [keeps_intros]:
  "keeps I (release_data b t d) I E" "keeps I (release_item t d) I E"
  "keeps I (release_result b r) I E" "keeps I (release_callreq b c) I E"
  unfolding release_result_def release_callreq_def release_data_def release_item_def by (intro keeps_intros)+

section \<open>Messages\<close>

lemmas channel_ops = message_start_def message_end_def send_char_def send_int16_def send_int32_def send_uint32_def send_int64_def
  send_float4_def send_float8_def send_bytea_def plcBufferFlush_def receive_message_type_def receive_char_def receive_int16_def
  receive_int32_def receive_uint32_def receive_int64_def receive_float4_def receive_float8_def receive_raw_def

lemma send_cstring_upto [keeps_intros]: "keeps (upto k) (send_cstring s) (upto k) (upto k)"
  unfolding send_cstring_def channel_ops Let_def by (intro keeps_intros)

lemma keeps_datatype [keeps_intros]:
  assumes "keeps I m1 J E" "keeps I m2 J E" "keeps I m3 J E" "keeps I m4 J E" "keeps I m5 J E" "keeps I m6 J E"
    "keeps I m7 J E" "dt = PLC_DATA_ARRAY \<Longrightarrow> keeps I m8 J E" "dt = PLC_DATA_UDT \<Longrightarrow> keeps I m9 J E" "keeps I m10 J E"
    "keeps I m11 J E" "\<And>i. keeps I (f i) J E"
  shows "keeps I (case dt of PLC_DATA_INT1 \<Rightarrow> m1 | PLC_DATA_INT2 \<Rightarrow> m2 | PLC_DATA_INT4 \<Rightarrow> m3 | PLC_DATA_INT8 \<Rightarrow> m4
    | PLC_DATA_FLOAT4 \<Rightarrow> m5 | PLC_DATA_FLOAT8 \<Rightarrow> m6 | PLC_DATA_TEXT \<Rightarrow> m7 | PLC_DATA_ARRAY \<Rightarrow> m8 | PLC_DATA_UDT \<Rightarrow> m9
    | PLC_DATA_BYTEA \<Rightarrow> m10 | PLC_DATA_INVALID \<Rightarrow> m11 | PLC_DATA_OTHER i \<Rightarrow> f i) J E"
  using assms by (cases dt) simp_all

lemma send_upto:
  "keeps (upto k) (send_raw_object t r) (upto k) (upto k)"
  "keeps (upto k) (send_raw_array_iter t m rs) (upto k) (upto k)"
  "keeps (upto k) (send_udt t rs) (upto k) (upto k)"
proof (induction t r and t m rs and t rs rule: send_raw_object_send_raw_array_iter_send_udt.induct)
  case (1 type isn val)
  then show ?case
    unfolding send_raw_object.simps channel_ops Let_def
    by (intro keeps_intros)
next
  case (2 type meta objs)
  then show ?case
    unfolding send_raw_array_iter.simps channel_ops by (intro keeps_intros)
next
  case (3 type ds)
  then show ?case
    unfolding send_udt.simps by (intro keeps_each0) auto
qed

lemma send_type_upto [keeps_intros]: "keeps (upto k) (send_type t) (upto k) (upto k)"
proof (induction t rule: send_type.induct)
  case (1 t n nm subs)
  then show ?case
    unfolding send_type.simps channel_ops by (intro keeps_intros) auto
qed

lemma send_part_upto [keeps_intros]:
  "keeps (upto k) (send_argument a) (upto k) (upto k)" "keeps (upto k) (send_column c) (upto k) (upto k)"
  "keeps (upto k) (send_row r ds) (upto k) (upto k)"
  unfolding send_argument_def send_column_def send_row_def by (intro keeps_intros send_upto)+

lemma send_body_upto:
  "keeps (upto k) send_ping (upto k) (upto k)" "keeps (upto k) (send_call c) (upto k) (upto k)"
  "keeps (upto k) (send_exception e) (upto k) (upto k)" "keeps (upto k) (send_result r) (upto k) (upto k)"
  "keeps (upto k) (send_log l) (upto k) (upto k)" "keeps (upto k) (send_sql q) (upto k) (upto k)"
  unfolding send_ping_def send_call_def send_exception_def send_result_def send_log_def send_sql_def channel_ops
  by (intro keeps_intros)+

lemma channel_send_upto [keeps_intros]: "keeps (upto k) (pljvm_channel_send m) (upto k) (upto k)"
  by (cases m) (simp_all add: send_body_upto keeps_elog)

section \<open>Receiving\<close>

lemma keeps_or_res [keeps_intros]: "keeps I m I E \<Longrightarrow> keeps I (or_res res m) I E"
  unfolding or_res_def by (intro keeps_intros)

lemma keeps_store [keeps_intros]: "keeps I m I E \<Longrightarrow> keeps I (store f m) I E"
  unfolding store_def by (intro keeps_intros)

lemma receive_cstring_upto [keeps_intros]: "keeps (upto k) receive_cstring (upto k) (upto k)"
  unfolding receive_cstring_def channel_ops by (intro keeps_intros)

lemma receive_bytea_upto [keeps_intros]: "keeps (upto k) receive_bytea (upto k) (upto k)"
  unfolding receive_bytea_def channel_ops by (intro keeps_intros)

lemma receive_dims_upto [keeps_intros]: "keeps (upto k) (receive_dims n res prd) (upto k) (upto k)"
proof (induction n arbitrary: res prd)
  case (Suc n)
  then show ?case unfolding receive_dims.simps channel_ops by (intro keeps_intros)
qed (simp add: keeps_return)

lemma type_length_upto [keeps_intros]: "keeps (upto k) (plc_get_type_length dt) (upto k) (upto k)"
  by (cases dt) (simp_all add: keeps_return keeps_elog)

lemma fill_array_upto: "(\<And>n. keeps (upto k) (cell n) (upto k) (upto k)) \<Longrightarrow> keeps (upto k) (fill_array cell res m prd) (upto k) (upto k)"
  unfolding fill_array_def by (intro keeps_intros)

lemma receive_upto_values:
  "keeps (upto k) (receive_raw_object t) (upto k) (upto k)"
  "keeps (upto k) (receive_array t) (upto k) (upto k)"
  "keeps (upto k) (receive_cell n t) (upto k) (upto k)"
  "keeps (upto k) (receive_udt t) (upto k) (upto k)"
proof (induction t and t and n t and t rule: receive_raw_object_receive_array_receive_cell_receive_udt.induct)
  case (1 type)
  then show ?case unfolding receive_raw_object.simps channel_ops by (intro keeps_intros)
next
  case (2 type)
  then show ?case
    unfolding receive_array.simps plc_alloc_array_def channel_ops by (intro keeps_intros fill_array_upto)
next
  case (3 entrylen type)
  then show ?case unfolding receive_cell.simps channel_ops by (intro keeps_intros)
next
  case (4 type)
  then show ?case unfolding receive_udt.simps plc_alloc_udt_def by (intro keeps_intros)
qed

lemma receive_type_upto [keeps_intros]: "keeps (upto k) receive_type (upto k) (upto k)"
proof -
  have "keeps (upto k) (receive_type_d d) (upto k) (upto k)" for d
  proof (induction d)
    case (Suc d)
    then show ?case unfolding receive_type_d.simps channel_ops Let_def by (intro keeps_intros)
  qed (simp add: keeps_stuck)
  then show ?thesis by (simp add: keeps_def receive_type_def)
qed

lemmas receive_ops = receive_argument_def receive_exception_def receive_column_def receive_row_def receive_log_def
  receive_sql_statement_def receive_ping_def receive_call_def receive_sql_def receive_result_def

lemma receive_body_upto [keeps_intros]:
  "keeps (upto k) receive_ping (upto k) (upto k)" "keeps (upto k) receive_call (upto k) (upto k)"
  "keeps (upto k) receive_result (upto k) (upto k)" "keeps (upto k) receive_exception (upto k) (upto k)"
  "keeps (upto k) receive_log (upto k) (upto k)" "keeps (upto k) receive_sql (upto k) (upto k)"
  unfolding receive_ops channel_ops by (intro keeps_intros receive_upto_values)+

section \<open>Every message takes a byte\<close>

definition buffered :: "world \<Rightarrow> int" where
  "buffered w = pEnd (buf PLC_INPUT_BUFFER w) - pStart (buf PLC_INPUT_BUFFER w)"

lemma fill_buffered: "receive_loop_fill n w = Ok r w' \<Longrightarrow> r = -1 \<or> r = 0 \<and> buffered w + n \<le> buffered w'"
proof (induction n w rule: receive_loop_fill.induct)
  case (1 n w)
  let ?b = "buf PLC_INPUT_BUFFER w"
  note body = receive_loop_fill.simps [of n w, symmetric, THEN trans, OF 1(2)]
  show ?case
  proof (cases "0 < n")
    case True
    note recv = socket_recv_upto [where n = "size_of_int (bufSize ?b - pEnd ?b)" and w = w]
    show ?thesis
    proof (cases "plcSocketRecv (size_of_int (bufSize ?b - pEnd ?b)) w")
      case (Ok r u)
      obtain sz bs where r: "r = (sz, bs)" by (cases r)
      note Ok = Ok [unfolded r] and IH = 1(1) [OF True refl Ok [unfolded r] refl]
      from recv Ok body IH True show ?thesis
        by (auto simp: Let_def buffered_def split: option.splits if_splits)
    qed (use body True in \<open>simp_all add: Let_def\<close>)
  next
    case False
    with body show ?thesis by simp
  qed
qed

lemma receive_buffered:
  assumes "plcBufferReceive n w = Ok r w'"
  shows "r < 0 \<or> r = 0 \<and> int_of_size n \<le> buffered w'"
  using assms unfolding plcBufferReceive_def
  by (auto simp: bindM_Ok_iff get_buf_def buffered_def split: if_splits dest!: fill_buffered)

lemma buffered_pending: "buffered w \<le> pending w"
  by (simp add: buffered_def pending_def)

lemma message_type_takes:
  assumes "receive_message_type w = Ok (res, c) w'" and "0 \<le> res"
  shows "1 \<le> pending w \<and> pending w' \<le> pending w - 1"
proof -
  have le: "pending u \<le> pending w" if "plcBufferReceive n w = Ok r u" for n r u w
    using keepsD(1) [OF receive_upto _ that, of "pending w"] by (simp add: upto_def)
  obtain r u where u: "plcBufferReceive 1 w = Ok r u" "r = 0"
    "bindM (plcBufferRead 1) (\<lambda>(res, bs). returnM (res, case bs of Some bs \<Rightarrow> hd bs | None \<Rightarrow> 64)) u = Ok (res, c) w'"
    using assms receive_buffered [of 1 w] unfolding receive_message_type_def bindM_Ok_iff [of "plcBufferReceive 1"]
    by (fastforce split: if_splits)
  then obtain bs where "plcBufferRead 1 u = Ok (res, bs) w'" by (auto simp: bindM_Ok_iff)
  then obtain r' v where v: "plcBufferReceive 1 u = Ok r' v" "r' = 0 \<longrightarrow> pending w' = pending v - 1" "r' = 0 \<or> res = r'"
    by (auto simp: plcBufferRead_def bindM_Ok_iff get_buf_def put_buf_def needM_def stuckM_def pending_def
        split: if_splits option.splits)
  with receive_buffered [OF v(1)] receive_buffered [OF u(1)] assms(2)
  have "pending w' = pending v - 1" "1 \<le> buffered u" using u(2) by auto
  with le [OF u(1)] keepsD(1) [OF receive_upto _ v(1), of "pending u"] buffered_pending [of u] show ?thesis
    by (simp add: upto_def)
qed

end
