(* ===== verification/Backend_Life.thy ===== *)
theory Backend_Life
  imports Call_Handler Backend_Props Input_Bound
begin

text \<open>
  The database side across calls: the states it can reach by calling functions, whatever the executors answer, whatever
  is raised, and what holds in all of them.
\<close>

section \<open>What the parts keep\<close>

text \<open>
  The cache and its memory are consistent, and \<open>P\<close> holds of the number of open subtransactions and the script of the server's
  functions. \<open>safe\<close> says nothing of these.
\<close>

definition live :: "(int \<Rightarrow> elog option list \<Rightarrow> bool) \<Rightarrow> backend \<Rightarrow> bool" where
  "live P s \<longleftrightarrow> backend_inv s \<and> P (subxacts s) (refusals s)"

abbreviation safe :: "backend \<Rightarrow> bool" where
  "safe \<equiv> live (\<lambda>_ _. True)"

lemma live_update [simp]:
  "live P (s\<lparr>bw := w\<rparr>) = live P s" "live P (s\<lparr>connects := cs\<rparr>) = live P s" "live P (s\<lparr>open_socks := k\<rparr>) = live P s"
  "live P (s\<lparr>reports := rs\<rparr>) = live P s" "live P (s\<lparr>spi := es\<rparr>) = live P s" "live P (s\<lparr>caller_context := c\<rparr>) = live P s"
  by (simp_all add: live_def backend_inv_def)

lemma live_world [keeps_intros]: "keeps (live P) (in_world m) (live P) (live P)"
  by (auto simp: keeps_def via_def split: outcome.splits)

lemma live_deref [keeps_intros]: "keeps (live P) (in_cache (deref p)) (live P) (live P)"
  by (auto simp: keeps_def via_def deref_def split: option.splits)

lemma live_proc [keeps_intros]: "keeps (live P) (get_proc_info cat fcinfo) (live P) (live P)"
  unfolding keeps_def
proof (intro allI impI)
  fix s
  assume s: "live P s"
  show "case get_proc_info cat fcinfo s of Ok x t \<Rightarrow> live P t | Elog e t \<Rightarrow> live P t | _ \<Rightarrow> True"
  proof (cases "pg_proc cat (fn_oid fcinfo)")
    case None
    with s show ?thesis by (simp add: get_proc_info_def elogM_def)
  next
    case (Some row)
    have got: "live P t" if "proc_got (tcat cat) fcinfo row s p t" for p t
    proof -
      from that have t: "t = s\<lparr>cache := cache t, next_proc := next_proc t\<rparr>" "backend_inv t" by (simp_all add: proc_got_def)
      from arg_cong [OF t(1), of subxacts] arg_cong [OF t(1), of refusals] t(2) s show ?thesis by (simp add: live_def)
    qed
    have raised: "live P t" if "proc_raised (fn_oid fcinfo) s t" for t
    proof -
      from that have t: "t = s\<lparr>cache := cache t, next_proc := next_proc t, unfinished := unfinished t\<rparr>" "backend_inv t"
        by (simp_all add: proc_raised_def)
      from arg_cong [OF t(1), of subxacts] arg_cong [OF t(1), of refusals] t(2) s show ?thesis by (simp add: live_def)
    qed
    have "ensures (get_proc_info cat fcinfo s) (proc_got (tcat cat) fcinfo row s) (\<lambda>e. proc_raised (fn_oid fcinfo) s) (\<lambda>t. False)"
      using s by (intro get_proc_info_spec [OF _ Some]) (simp add: live_def)
    then show ?thesis using got raised by (cases "get_proc_info cat fcinfo s") simp_all
  qed
qed

lemma live_connect [keeps_intros]: "keeps (live P) plcConnect (live P) (live P)"
proof -
  have "keeps (live P) (bindM (in_world (plcConnInit sck)) (\<lambda>_. returnM True)) (live P) (live P)" for sck
    by (intro keeps_intros)
  then show ?thesis
    by (auto simp: keeps_def plcConnect_def split: list.splits connect_ev.splits outcome.splits)
qed

lemma live_disconnect [keeps_intros]: "keeps (live P) plcDisconnect (live P) (live P)"
  by (simp add: keeps_def plcDisconnect_def)

lemma live_context [keeps_intros]: "keeps (live P) (set_caller_context c) (live P) (live P)"
  by (simp add: keeps_def set_caller_context_def)

lemma live_spi [keeps_intros]: "keeps (live P) (spi_exec cat stmt) (live P) (live P)"
proof -
  have "keeps (live P) (bindM (mapM (get_proc_info cat) calls) (\<lambda>_. returnM (Some t))) (live P) (live P)" for calls and t :: spi_table
    by (intro keeps_intros)
  then show ?thesis
    by (auto simp: keeps_def spi_exec_def split: list.splits spi_ev.splits outcome.splits)
qed

lemma safe_call: "keeps safe server_call safe safe"
  by (auto simp: keeps_def server_call_def live_def backend_inv_def split: list.split)

lemma safe_status [keeps_intros]: "keeps safe (status_call msg) safe safe"
  unfolding status_call_def by (intro keeps_bind_same [OF safe_call] keeps_intros)

section \<open>Subtransactions\<close>

lemma raising_run:
  "raising_call s = (case refusals s of
      [] \<Rightarrow> Ok () s | None # rs \<Rightarrow> Ok () (s\<lparr>refusals := rs\<rparr>) | Some e # rs \<Rightarrow> Elog e (s\<lparr>refusals := rs\<rparr>))"
  by (auto simp: raising_call_def server_call_def bindM_def returnM_def elogM_def split: list.split option.split)

lemmas subxact_defs = begin_subxact_def end_subxact_def rollback_subxact_def

text \<open>
  From the states after the \<open>BeginInternalSubTransaction\<close> of \<open>s\<close>: \<open>at k s\<close> when \<open>k\<close> subtransactions are open, and only later
  entries of the script are left.
\<close>

definition after_begin :: "int \<Rightarrow> backend \<Rightarrow> backend \<Rightarrow> bool" where
  "after_begin k s \<equiv> live (\<lambda>n rs. n = k \<and> set rs \<subseteq> set (tl (refusals s)))"

definition begins :: "backend \<Rightarrow> bool" where
  "begins s \<longleftrightarrow> (\<forall>e rs. refusals s \<noteq> Some e # rs)"

lemma begin_run:
  assumes "backend_inv s"
  shows "if begins s then \<exists>t. begin_subxact s = Ok () t \<and> after_begin (subxacts s + 1) s t
    else \<exists>e t. begin_subxact s = Elog e t \<and> after_begin (subxacts s) s t"
  using assms
  by (auto simp: begins_def begin_subxact_def raising_run bindM_def after_begin_def live_def backend_inv_def
      split: list.splits option.splits)

lemma after_end: "keeps (after_begin (k + 1) s) end_subxact (after_begin k s) (after_begin (k + 1) s)"
  by (auto simp: keeps_def end_subxact_def raising_run bindM_def after_begin_def live_def backend_inv_def
      split: list.splits option.splits)

lemma sql_body:
  "keeps (after_begin (k + 1) s) (bindM (spi_exec cat stmt) (\<lambda>tab.
        bindM (case tab of
                 None \<Rightarrow> elogM (E_msg ''cannot handle non-select sql at the moment'')
               | Some tab \<Rightarrow> in_world (create_sql_result fm (tcat cat) tab)) (\<lambda>result.
        bindM end_subxact (\<lambda>_.
        returnM result)))) (after_begin k s) (after_begin (k + 1) s)"
  using after_end unfolding after_begin_def by (intro keeps_intros keeps_bind [OF after_end [unfolded after_begin_def]])

text \<open>What \<open>PG_CATCH\<close> makes of an error raised in \<open>t\<close>: the count, and the error it ends with.\<close>

lemma rollback_run:
  assumes "after_begin k s t" and "(if is_fatal e then Elog e t else bindM rollback_subxact (\<lambda>_. elogM e) t) = Elog e' t'"
  shows "backend_inv t' \<and> (subxacts t' = k - 1 \<and> \<not> is_fatal e'
    \<or> subxacts t' = k \<and> (is_fatal e' \<or> Some e' \<in> set (tl (refusals s))))"
  using assms
  by (auto simp: rollback_subxact_def raising_run bindM_def after_begin_def live_def backend_inv_def elogM_def
      split: list.splits option.splits if_splits)

lemma sql_counts:
  assumes "backend_inv s"
  shows "(\<forall>r s'. handle_sql_message fm cat q s = Ok r s' \<longrightarrow> begins s \<and> subxacts s' = subxacts s \<and> backend_inv s')
    \<and> (\<forall>e s'. handle_sql_message fm cat q s = Elog e s' \<longrightarrow> backend_inv s'
         \<and> (subxacts s' = subxacts s + (if begins s then 1 else 0) - 1 \<and> \<not> is_fatal e
            \<or> subxacts s' = subxacts s + (if begins s then 1 else 0) \<and> (is_fatal e \<or> Some e \<in> set (tl (refusals s)))))"
proof -
  let ?body = "bindM (spi_exec cat (statement q)) (\<lambda>tab.
        bindM (case tab of
                 None \<Rightarrow> elogM (E_msg ''cannot handle non-select sql at the moment'')
               | Some tab \<Rightarrow> in_world (create_sql_result fm (tcat cat) tab)) (\<lambda>result.
        bindM end_subxact (\<lambda>_.
        returnM result)))"
  let ?k = "subxacts s + (if begins s then 1 else 0)"
  have block: "case bindM begin_subxact (\<lambda>_. ?body) s of
      Ok r t \<Rightarrow> begins s \<and> after_begin (subxacts s) s t | Elog e t \<Rightarrow> after_begin ?k s t | _ \<Rightarrow> True"
  proof (cases "begins s")
    case True
    with begin_run [OF assms] obtain t where t: "begin_subxact s = Ok () t" "after_begin (subxacts s + 1) s t" by auto
    from keepsD [OF sql_body [where cat = cat and stmt = "statement q" and fm = fm] t(2)] t(1) True show ?thesis
      by (simp split: outcome.split)
  next
    case False
    with begin_run [OF assms] show ?thesis by auto
  qed
  have handle: "handle_sql_message fm cat q s = (case bindM begin_subxact (\<lambda>_. ?body) s of
      Elog e t \<Rightarrow> if is_fatal e then Elog e t else bindM rollback_subxact (\<lambda>_. elogM e) t | r \<Rightarrow> r)"
    unfolding handle_sql_message_def try_catch_def ..
  show ?thesis
  proof (cases "bindM begin_subxact (\<lambda>_. ?body) s")
    case (Ok r t)
    with block show ?thesis unfolding handle by (simp add: after_begin_def live_def)
  next
    case (Elog e t)
    with block have t: "after_begin ?k s t" by simp
    have "(if is_fatal e then Elog e t else bindM rollback_subxact (\<lambda>_. elogM e) t) \<noteq> Ok r s'" for r s'
      by (auto simp: bindM_def elogM_def rollback_subxact_def raising_run split: list.split option.split)
    moreover have run: "handle_sql_message fm cat q s = (if is_fatal e then Elog e t else bindM rollback_subxact (\<lambda>_. elogM e) t)"
      unfolding handle Elog by simp
    ultimately have "handle_sql_message fm cat q s \<noteq> Ok r s'" for r s' by metis
    moreover have "backend_inv s' \<and> (subxacts s' = ?k - 1 \<and> \<not> is_fatal e'
        \<or> subxacts s' = ?k \<and> (is_fatal e' \<or> Some e' \<in> set (tl (refusals s))))"
      if "handle_sql_message fm cat q s = Elog e' s'" for e' s'
      by (rule rollback_run [OF t]) (rule that [unfolded run])
    ultimately show ?thesis by blast
  qed (simp_all add: handle)
qed

lemma safe_sql [keeps_intros]: "keeps safe (handle_sql_message fm cat msg) safe safe"
  unfolding keeps_def
proof (intro allI impI)
  fix s
  assume "safe s"
  then have "backend_inv s" by (simp add: live_def)
  from sql_counts [OF this, of fm cat msg]
  show "case handle_sql_message fm cat msg s of Ok x t \<Rightarrow> safe t | Elog e t \<Rightarrow> safe t | _ \<Rightarrow> True"
    by (auto simp: live_def split: outcome.split)
qed

section \<open>The handler\<close>

lemma safe_log [keeps_intros]: "keeps safe (pljvm_process_log l) safe safe"
  by (simp add: keeps_def pljvm_process_log_def)

lemma safe_message [keeps_intros]:
  "keeps safe (process_answer fm cat) safe safe"
proof -
  have "keeps safe (case m of
         MsgResult r \<Rightarrow> bindM (in_world (plc_alloc 16)) (\<lambda>_. returnM (Some r))
       | MsgError e \<Rightarrow> pljvm_process_exception e
       | MsgSQL q \<Rightarrow> bindM (pljvm_process_sql fm cat q) (\<lambda>_. returnM None)
       | MsgLog l \<Rightarrow> bindM (pljvm_process_log l) (\<lambda>_. returnM None)
       | _ \<Rightarrow> elogM (E_unhandled_message (msg_code m))) safe safe" for m
    unfolding pljvm_process_exception_def pljvm_process_sql_def
    by (cases m) (simp_all del: pljvm_channel_send.simps, (intro keeps_intros)+)
  then show ?thesis
    unfolding process_answer_def by (intro keeps_intros)
qed

lemma safe_loop [keeps_intros]: "keeps safe (answer_loop k fm cat) safe safe"
  proof (induction k)
  case (Suc k)
  then show ?case unfolding answer_loop.simps by (intro keeps_intros)
qed (simp add: keeps_return)

lemma safe_result [keeps_intros]: "keeps safe (pljvm_get_result k fm cat fcinfo p) safe safe"
  unfolding pljvm_get_result_def by (intro keeps_intros)

lemma keeps_rawdata [keeps_intros]:
  "(\<And>isn v. keeps I (f isn v) J E) \<Longrightarrow> keeps I (case d of Rawdata isn v \<Rightarrow> f isn v) J E"
  by (cases d) simp

lemma safe_row [keeps_intros]: "keeps safe (return_row fm cat fcinfo p r) safe safe"
  unfolding return_row_def pljvm_process_result_def Let_def by (intro keeps_intros)

lemma safe_handler: "keeps safe (pljvm_call_handler ctx k fm cat fcinfo srf) safe safe"
proof -
  have "keeps safe (case pr of
       No_connection \<Rightarrow> returnM (Value None)
     | Unfinished \<Rightarrow> returnM Running
     | Result presult \<Rightarrow> return_row fm (tcat cat) fcinfo p presult) safe safe" for pr p
    by (cases pr) (simp_all, (intro keeps_intros)+)
  then have "keeps safe (pljvm_call_hook k fm cat fcinfo srf) safe safe"
    unfolding pljvm_call_hook_def by (intro keeps_intros)
  then show ?thesis
    unfolding pljvm_call_handler_def by (intro keeps_intros)
qed

section \<open>The states of the database side\<close>

text \<open>
  A new server process; a call, whoever makes it and whatever it is about, that returns or raises; and between the calls
  the world: new connections, new answers of the SPI. The catalogs and the server's functions may differ from call to call.
\<close>

definition fresh_backend :: "world \<Rightarrow> backend" where
  "fresh_backend w = \<lparr>bw = w,
     cache = \<lparr>slots = replicate PLC_FUNCTION_CACHE_SIZE None, initialized = False, procs = (\<lambda>_. None)\<rparr>,
     next_proc = 0, unfinished = {}, connects = [], open_socks = 0, subxacts = 0, caller_context = 0, reports = [], spi = [],
     refusals = []\<rparr>"

inductive reachable :: "backend \<Rightarrow> bool" where
  started: "reachable (fresh_backend w)"
| returned: "reachable s \<Longrightarrow> pljvm_call_handler ctx n fm cat fcinfo srf s = Ok h s' \<Longrightarrow> reachable s'"
| raised: "reachable s \<Longrightarrow> pljvm_call_handler ctx n fm cat fcinfo srf s = Elog e s' \<Longrightarrow> \<not> is_fatal e \<Longrightarrow> reachable s'"
| outside: "reachable s \<Longrightarrow> reachable (s\<lparr>connects := cs, spi := es, refusals := fs\<rparr>)"

lemma reachable_safe: "reachable s \<Longrightarrow> safe s"
proof (induction rule: reachable.induct)
  case (started w)
  show ?case
    by (simp add: live_def backend_inv_def fresh_backend_def ptrs_def entries_def cache_inv_def packed_def List.map_filter_def
        PLC_FUNCTION_CACHE_SIZE_def)
next
  case (returned s ctx n fm cat fcinfo srf h s')
  show ?case by (rule keepsD(1) [OF safe_handler returned.IH returned.hyps(2)])
next
  case (raised s ctx n fm cat fcinfo srf e s')
  show ?case by (rule keepsD(2) [OF safe_handler raised.IH raised.hyps(2)])
qed (simp add: live_def backend_inv_def)

text \<open>
  C8: in every state the database side can reach, after any calls, errors of the executor, of the SPI or of the server
  included, the function cache is packed and has at most one description per function; the structures whose fields are written
  are exactly its entries; a structure that a failed call left behind without its fields is not among them, so that nothing
  reads it; and looking up a function never touches memory that is not allocated.
\<close>

theorem backend_safe:
  assumes "reachable s"
  shows "cache_inv (cache s) \<and> distinct (map funcOid (entries (cache s)))
    \<and> (\<forall>p. procs (cache s) p \<noteq> None \<longleftrightarrow> p \<in> set (ptrs (cache s)))
    \<and> unfinished s \<inter> set (ptrs (cache s)) = {} \<and> get_proc_info cat fcinfo s \<noteq> Stuck u"
proof -
  from reachable_safe [OF assms] have inv: "backend_inv s" by (simp add: live_def)
  have "get_proc_info cat fcinfo s \<noteq> Stuck u"
  proof (cases "pg_proc cat (fn_oid fcinfo)")
    case None
    then show ?thesis by (simp add: get_proc_info_def elogM_def)
  next
    case (Some row)
    from get_proc_info_spec [OF inv this] show ?thesis by (cases "get_proc_info cat fcinfo s") auto
  qed
  with inv show ?thesis by (auto simp: backend_inv_def cache_inv_def)
qed

lemma backend_safe_witness:
  "get_proc_info ex_sys ex_call_info (fresh_backend (world_of 4 [] [])) \<noteq> Stuck NullDeref"
  using backend_safe [OF started] by blast

text \<open>
  C30: the count of subtransactions over a statement of the executor, on every exit. When its result is returned one was begun
  and one was released. When an error is raised, one is closed, by \<open>PG_CATCH\<close>, whether \<open>BeginInternalSubTransaction\<close> had
  opened one or had itself raised: then it is one that this function never opened. None is closed by an error of level
  \<open>FATAL\<close> and above, and when the rollback raises instead.
\<close>

theorem sql_subtransactions:
  assumes "backend_inv s"
  shows "(\<forall>r s'. handle_sql_message fm cat q s = Ok r s' \<longrightarrow> begins s \<and> subxacts s' = subxacts s \<and> backend_inv s')
    \<and> (\<forall>e s'. handle_sql_message fm cat q s = Elog e s' \<longrightarrow> backend_inv s'
         \<and> (subxacts s' = subxacts s + (if begins s then 1 else 0) - 1 \<and> \<not> is_fatal e
            \<or> subxacts s' = subxacts s + (if begins s then 1 else 0) \<and> (is_fatal e \<or> Some e \<in> set (tl (refusals s)))))"
  by (rule sql_counts [OF assms])

text \<open>Examples: a statement that raises, and a subtransaction that cannot be begun.\<close>

lemma sql_subtransactions_witness:
  "(\<forall>fm stmt. case handle_sql_message fm ex_sys \<lparr>sqltype = SQL_TYPE_STATEMENT, statement = Some stmt\<rparr>
         (ex_backend\<lparr>spi := [Spi_error ''x'']\<rparr>) of
       Elog e s' \<Rightarrow> e = E_msg ''x'' \<and> subxacts s' = 0 | _ \<Rightarrow> False)
   \<and> (\<forall>fm q. handle_sql_message fm ex_sys q (ex_backend\<lparr>refusals := [Some (E_msg ''x'')]\<rparr>)
        = Elog (E_msg ''x'') (ex_backend\<lparr>subxacts := -1\<rparr>))"
proof (intro conjI allI)
  fix fm stmt
  let ?s = "ex_backend\<lparr>spi := [Spi_error ''x'']\<rparr>"
  let ?q = "\<lparr>sqltype = SQL_TYPE_STATEMENT, statement = Some stmt\<rparr>"
  have start: "refusals ?s = []" "subxacts ?s = 0" by (simp_all add: ex_backend_def)
  then have begins: "begins ?s" by (simp add: begins_def)
  obtain t where t: "handle_sql_message fm ex_sys ?q ?s = Elog (E_msg ''x'') t"
    by (simp add: handle_sql_message_def try_catch_def begin_subxact_def spi_exec_def raising_run rollback_subxact_def bindM_def
        is_fatal_def elogM_def ex_backend_def)
  have inv: "backend_inv ?s" using ex_backend_inv by (simp add: backend_inv_def)
  from sql_subtransactions [OF this, of fm ex_sys ?q] t begins start have "subxacts t = 0" by (auto simp: is_fatal_def)
  with t show "case handle_sql_message fm ex_sys ?q ?s of Elog e s' \<Rightarrow> e = E_msg ''x'' \<and> subxacts s' = 0 | _ \<Rightarrow> False"
    by simp
next
  fix fm q
  let ?s = "ex_backend\<lparr>refusals := [Some (E_msg ''x'')]\<rparr>"
  show "handle_sql_message fm ex_sys q ?s = Elog (E_msg ''x'') (ex_backend\<lparr>subxacts := -1\<rparr>)"
    by (simp add: handle_sql_message_def try_catch_def begin_subxact_def rollback_subxact_def raising_run bindM_def is_fatal_def
        elogM_def ex_backend_def)
qed

end
