(* ===== verification/Nested_Calls.thy ===== *)
theory Nested_Calls
  imports Backend_Life Call_Props
begin

text \<open>
  Calls within calls: a statement of the executor may call functions of this language, which share the cache with the
  call that is waiting.
\<close>

section \<open>Five other functions\<close>

lemma get_proc_got:
  assumes "backend_inv s" and "get_proc_info cat fcinfo s = Ok p t"
  shows "backend_inv t" "addresses_kept s t"
    and "\<exists>f. funcOid f = fn_oid fcinfo \<and> entries (cache t) = lru_put f (entries (cache s))"
proof -
  obtain row where row: "pg_proc cat (fn_oid fcinfo) = Some row"
    using assms(2) by (cases "pg_proc cat (fn_oid fcinfo)") (simp_all add: get_proc_info_def elogM_def)
  from get_proc_info_spec [OF assms(1) row] assms(2) have got: "proc_got (tcat cat) fcinfo row s p t" by simp
  then show "backend_inv t" "addresses_kept s t" by (simp_all add: proc_got_def)
  from got obtain f where f: "entries (cache t) = lru_put f (entries (cache s))"
    and which: "case lru_find (fn_oid fcinfo) (entries (cache s)) of
                None \<Rightarrow> built (tcat cat) fcinfo row f
              | Some g \<Rightarrow> if proc_current (tcat cat) row g then f = g\<lparr>proc_hasChanged := 0\<rparr> else built (tcat cat) fcinfo row f"
    unfolding proc_got_def by blast
  have "funcOid f = fn_oid fcinfo"
  proof (cases "lru_find (fn_oid fcinfo) (entries (cache s))")
    case None
    with which show ?thesis by (simp add: built_def)
  next
    case (Some g)
    then have "funcOid g = fn_oid fcinfo" by (auto simp: lru_find_def find_Some_iff)
    with which Some show ?thesis by (auto simp: built_def split: if_splits)
  qed
  with f show "\<exists>f. funcOid f = fn_oid fcinfo \<and> entries (cache t) = lru_put f (entries (cache s))" by blast
qed

text \<open>After the calls of distinct functions the front of the cache is these functions, the last one first.\<close>

lemma front_put:
  assumes "take k (map funcOid l) = os" and "length os = k" and "funcOid f \<notin> set os" and "k < PLC_FUNCTION_CACHE_SIZE"
  shows "take (Suc k) (map funcOid (lru_put f l)) = funcOid f # os"
proof -
  let ?keep = "\<lambda>g. funcOid g \<noteq> funcOid f"
  have len: "k \<le> length l" using assms(1,2) by (metis length_map length_take min.cobounded1)
  have "os = map funcOid (take k l)" using assms(1) by (simp add: take_map)
  then have "set os = funcOid ` set (take k l)" by simp
  then have os: "funcOid g \<in> set os" if "g \<in> set (take k l)" for g using that by simp
  have all: "?keep g" if "g \<in> set (take k l)" for g using os [OF that] assms(3) by auto
  have "filter ?keep l = take k l @ filter ?keep (drop k l)"
    using filter_append [of ?keep "take k l" "drop k l"] filter_True [of "take k l" ?keep] all by simp
  then have "take k (filter ?keep l) = take k l" using len by simp
  then show ?thesis
    using assms(1,4) by (simp add: lru_put_def take_map min_def PLC_FUNCTION_CACHE_SIZE_def)
qed

lemma calls_kept:
  "backend_inv s \<Longrightarrow> mapM (get_proc_info cat) calls s = Ok ps t \<Longrightarrow> backend_inv t \<and> addresses_kept s t"
proof (induction calls arbitrary: s ps)
  case (Cons c calls)
  obtain p s1 ps' where s1: "get_proc_info cat c s = Ok p s1" "mapM (get_proc_info cat) calls s1 = Ok ps' t"
    using Cons.prems(2) by (auto simp: bindM_Ok_iff)
  note got = get_proc_got [OF Cons.prems(1) s1(1)]
  from Cons.IH [OF got(1) s1(2)] addresses_kept_trans [OF got(2)] show ?case by blast
qed (simp add: addresses_kept_def)

lemma calls_front:
  assumes "backend_inv s" and "mapM (get_proc_info cat) calls s = Ok ps t" and "take k (map funcOid (entries (cache s))) = os"
    and "length os = k" and "distinct (os @ map fn_oid calls)" and "k + length calls \<le> PLC_FUNCTION_CACHE_SIZE"
  shows "take (k + length calls) (map funcOid (entries (cache t))) = rev (map fn_oid calls) @ os"
  using assms
proof (induction calls arbitrary: s k os ps)
  case (Cons c calls)
  obtain p s1 ps' where s1: "get_proc_info cat c s = Ok p s1" "mapM (get_proc_info cat) calls s1 = Ok ps' t"
    using Cons.prems(2) by (auto simp: bindM_Ok_iff)
  note got = get_proc_got [OF Cons.prems(1) s1(1)]
  obtain f where f: "funcOid f = fn_oid c" "entries (cache s1) = lru_put f (entries (cache s))" using got(3) by blast
  have "take (Suc k) (map funcOid (entries (cache s1))) = fn_oid c # os"
    using front_put [OF Cons.prems(3,4), of f] Cons.prems(5,6) f by simp
  from Cons.IH [OF got(1) s1(2) this] Cons.prems(4-6) show ?case by simp
qed simp

text \<open>
  C32: when the statements an executor sends make the server look up five other functions, the description of the function
  that is being executed has been evicted and freed; \<open>pljvm_process_result\<close>, which goes through the pointer it
  was given before, then reads freed memory for every value that is not NULL.
\<close>

theorem nested_calls_free_description:
  assumes inv: "backend_inv s" and p: "procs (cache s) p = Some f" and calls: "mapM (get_proc_info cat) calls s = Ok ps t"
    and distinct: "distinct (map fn_oid calls)" "funcOid f \<notin> set (map fn_oid calls)"
    and many: "length calls = PLC_FUNCTION_CACHE_SIZE"
    and r: "sint (cols r) = 1" "rdata r = (Rawdata False v # ds) # rest" "sint (rows r) = int (length (rdata r))"
  shows "procs (cache t) p = None \<and> pljvm_process_result fm ct p \<lparr>resmsg = r, resrow = 0\<rparr> t = Stuck UseAfterFree"
proof -
  have t: "backend_inv t" "addresses_kept s t" using calls_kept [OF inv calls] by simp_all
  have free: "procs (cache t) p = None"
  proof (rule ccontr)
    assume free': "procs (cache t) p \<noteq> None"
    with t(1) have "p \<in> set (ptrs (cache t))" by (simp add: backend_inv_def)
    with free' obtain h where h: "procs (cache t) p = Some h" "p \<in> set (ptrs (cache t))" by blast
    have "p < next_proc s" using inv p by (auto simp: backend_inv_def)
    with t(2) h(1) p have "funcOid h = funcOid f" by (auto simp: addresses_kept_def)
    moreover have "h \<in> set (entries (cache t))" using h by (force simp: entries_def)
    moreover have "length (entries (cache t)) \<le> PLC_FUNCTION_CACHE_SIZE"
      using t(1) by (simp add: backend_inv_def cache_inv_def entries_def)
    then have "map funcOid (entries (cache t)) = rev (map fn_oid calls)"
      using calls_front [OF inv calls, of 0 "[]"] distinct(1) many by simp
    ultimately have "funcOid f \<in> set (rev (map fn_oid calls))" by (metis image_eqI list.set_map)
    with distinct(2) show False by simp
  qed
  have "rows r \<noteq> 0" using r(2,3) by auto
  moreover have "in_cache (deref p) t = Stuck UseAfterFree" using free by (simp add: via_def deref_def)
  ultimately show ?thesis
    using free r by (simp add: pljvm_process_result_def Let_def nth_opt_def)
qed

text \<open>Example: functions 200 to 204, without arguments, called while function 100 waits.\<close>

definition ex_other_row :: pg_proc_row where
  "ex_other_row = ex_proc_row\<lparr>pr_argtypes := []\<rparr>"

definition ex_others :: sys_catalog where
  "ex_others = \<lparr>tcat = ex_cat, pg_proc = (\<lambda>_. Some ex_other_row)\<rparr>"

definition ex_other_call :: "nat \<Rightarrow> call_info" where
  "ex_other_call i = ex_call_info\<lparr>fn_oid := of_nat (200 + i)\<rparr>"

lemma lookup_miss:
  assumes inv: "backend_inv s" and row: "pg_proc cat (fn_oid fcinfo) = Some row"
    and miss: "lru_find (fn_oid fcinfo) (entries (cache s)) = None"
    and built: "build_proc (tcat cat) fcinfo row (bw s) = Ok f (bw s)" and w: "alloc_all (bw s)"
  shows "\<exists>p t. get_proc_info cat fcinfo s = Ok p t \<and> bw t = bw s"
proof -
  obtain c where c: "function_cache_get (fn_oid fcinfo) (cache s) = Ok None c" "cache_inv c" "procs c = procs (cache s)"
    "set (ptrs c) = set (ptrs (cache s))"
    using pc.get_miss [OF _ miss] inv by (auto simp: backend_inv_def)
  let ?s = "s\<lparr>cache := c\<rparr>"
  have inv': "backend_inv ?s" using inv c by (simp add: backend_inv_def)
  have f: "built (tcat cat) fcinfo row f" using quiet_Ok [OF build_proc_quiet built] by simp
  obtain t where t: "bindM (fill_proc (next_proc ?s) f) (\<lambda>_. bindM (in_cache (function_cache_put (next_proc ?s))) (\<lambda>_.
      returnM (next_proc ?s))) (begun ?s) = Ok (next_proc ?s) t" "put_new (tcat cat) fcinfo row ?s (next_proc ?s) t"
    using put_fresh [OF inv' f] by blast
  have "new_proc ?s = Ok (next_proc ?s) (begun ?s)" by (rule new_proc_run) (simp add: w)
  moreover have "in_world (build_proc (tcat cat) fcinfo row) (begun ?s) = Ok f (begun ?s)"
    using built by (simp add: via_def)
  ultimately have "get_proc_info cat fcinfo s = Ok (next_proc ?s) t"
    unfolding get_proc_missed [OF row c(1)] build_steps_def using t(1)
    by (simp only: bindM_Ok [where m = new_proc] bindM_Ok [where m = "in_world (build_proc (tcat cat) fcinfo row)"])
  moreover have "bw t = bw ?s"
  proof -
    from t(2) have "t = ?s\<lparr>cache := cache t, next_proc := next_proc t\<rparr>" by (simp only: put_new_def)
    from arg_cong [OF this, of bw] show ?thesis by simp
  qed
  ultimately show ?thesis by auto
qed

lemma ex_other_built:
  assumes "alloc_all w"
  shows "\<exists>f. build_proc ex_cat (ex_other_call i) ex_other_row w = Ok f w"
  using ex_fills assms alloc_all_run [OF assms, of SIZEOF_plcProcInfo] alloc_all_run [OF assms, of "Suc (Suc 0)"]
  by (simp add: build_proc_def ex_other_row_def ex_proc_row_def ex_other_call_def ex_call_info_def top_string_def strdup_def
      SIZEOF_plcProcInfo_def MaxAllocSize_def returnM_run)

lemma ex_others_run:
  assumes "backend_inv s" and "alloc_all (bw s)" and "distinct is" and "\<forall>i \<in> set is. i < 1000"
    and "\<forall>i \<in> set is. lru_find (of_nat (200 + i)) (entries (cache s)) = None"
  shows "\<exists>ps t. mapM (get_proc_info ex_others) (map ex_other_call is) s = Ok ps t"
  using assms
proof (induction "is" arbitrary: s)
  case (Cons i "is")
  have "lru_find (fn_oid (ex_other_call i)) (entries (cache s)) = None"
    using Cons.prems(5) by (simp add: ex_other_call_def)
  moreover obtain f where "build_proc ex_cat (ex_other_call i) ex_other_row (bw s) = Ok f (bw s)"
    using ex_other_built Cons.prems(2) by blast
  ultimately obtain p t where t: "get_proc_info ex_others (ex_other_call i) s = Ok p t" "bw t = bw s"
    using lookup_miss [OF Cons.prems(1), of ex_others "ex_other_call i" ex_other_row f] Cons.prems(2) by (auto simp: ex_others_def)
  note got = get_proc_got [OF Cons.prems(1) t(1)]
  obtain g where g: "funcOid g = of_nat (200 + i)" "entries (cache t) = lru_put g (entries (cache s))"
    using got(3) by (auto simp: ex_other_call_def)
  have other: "lru_find (of_nat (200 + j)) (entries (cache t)) = None" if "j \<in> set is" for j
  proof -
    have "j \<noteq> i" "i < 1000" "j < 1000" using Cons.prems(3,4) that by auto
    then have "(of_nat (200 + j) :: oid) \<noteq> of_nat (200 + i)"
      by (simp only: word_of_nat_eq_iff) (simp add: take_bit_nat_eq_self)
    moreover have "lru_find (of_nat (200 + j)) (entries (cache s)) = None" using Cons.prems(5) that by simp
    ultimately show ?thesis
      using g by (auto simp: lru_find_def find_None_iff lru_put_def dest: in_set_takeD)
  qed
  obtain ps u where "mapM (get_proc_info ex_others) (map ex_other_call is) t = Ok ps u"
    using Cons.IH [OF got(1)] t(2) Cons.prems(2,3,4) other by auto
  with t(1) show ?case by (simp add: returnM_run)
qed (simp add: returnM_run)

lemma nested_calls_free_description_witness:
  "\<exists>ps t. mapM (get_proc_info ex_others) (map ex_other_call [0..<5]) (ex_server []) = Ok ps t
    \<and> pljvm_process_result ex_fm ex_cat 7 \<lparr>resmsg = ex_result [[Rawdata False (Some (VInt4 7))]], resrow = 0\<rparr> t = Stuck UseAfterFree"
proof -
  let ?r = "ex_result [[Rawdata False (Some (VInt4 7))]]"
  have ents: "entries (cache (ex_server [])) = [ex_cached]"
    using ptrs_packed [of "cache (ex_server [])" "[7]"] by (simp add: entries_def ex_server_of_def)
  have other: "(of_nat (200 + i) :: oid) \<noteq> 100" if "i < 1000" for i
  proof -
    have "(of_nat (200 + i) :: oid) \<noteq> of_nat 100"
      using that by (simp only: word_of_nat_eq_iff) (simp add: take_bit_nat_eq_self)
    then show ?thesis by simp
  qed
  have "\<forall>i \<in> set [0..<5]. lru_find (of_nat (200 + i)) (entries (cache (ex_server []))) = None"
    using other unfolding ents by (fastforce simp: lru_find_def ex_cached_def)
  from ex_others_run [OF ex_server_facts(1) _ _ _ this] obtain ps t where
    calls: "mapM (get_proc_info ex_others) (map ex_other_call [0..<5]) (ex_server []) = Ok ps t" by auto
  have p: "procs (cache (ex_server [])) 7 = Some ex_cached" by simp
  have dist: "distinct (map fn_oid (map ex_other_call [0..<5]))"
  proof -
    have "inj_on (\<lambda>i. of_nat (200 + i) :: oid) {0..<5}"
      by (rule inj_onI) (simp only: word_of_nat_eq_iff, simp add: take_bit_nat_eq_self)
    then show ?thesis by (simp add: distinct_map ex_other_call_def comp_def)
  qed
  have none: "funcOid ex_cached \<notin> set (map fn_oid (map ex_other_call [0..<5]))"
  proof -
    have "fn_oid (ex_other_call i) \<noteq> funcOid ex_cached" if "i < 5" for i
      using other [of i] that by (simp add: ex_other_call_def ex_cached_def)
    then show ?thesis by fastforce
  qed
  have r: "sint (cols ?r) = 1" "rdata ?r = (Rawdata False (Some (VInt4 7)) # []) # []" "sint (rows ?r) = int (length (rdata ?r))"
    by (simp_all add: ex_result_def)
  have many: "length (map ex_other_call [0..<5]) = PLC_FUNCTION_CACHE_SIZE" by (simp add: PLC_FUNCTION_CACHE_SIZE_def)
  from nested_calls_free_description [OF ex_server_facts(1) p calls dist none many r, of ex_fm ex_cat] calls
  show ?thesis by blast
qed

end
