(* ===== verification/Call_Ends.thy ===== *)
theory Call_Ends
  imports Call_Handler Input_Bound Backend_Props
begin

text \<open>
  The wait for the result is over at the latest when the executor's bytes are used up: every message that is answered takes
  some of them. A number of turns above the number of bytes the connection delivers is as good as no bound at all.
\<close>

section \<open>The database side between two messages\<close>

lemma quiet_keeps:
  assumes "quiet m P"
  shows "keeps I m I I"
  unfolding keeps_def
proof (intro allI impI)
  fix s
  assume "I s"
  with quietD [OF assms, of s] show "case m s of Ok x t \<Rightarrow> I t | Elog e t \<Rightarrow> I t | _ \<Rightarrow> True"
    by (cases "m s") auto
qed

lemma in_world_keeps:
  assumes "keeps I m I I"
  shows "keeps (\<lambda>s. I (bw s)) (in_world m) (\<lambda>s. I (bw s)) (\<lambda>s. I (bw s))"
  unfolding keeps_def
proof (intro allI impI)
  fix s :: backend
  assume "I (bw s)"
  from keepsD [OF assms this]
  show "case in_world m s of Ok x t \<Rightarrow> I (bw t) | Elog e t \<Rightarrow> I (bw t) | _ \<Rightarrow> True"
    by (cases "m (bw s)") (auto simp: via_def)
qed

lemma in_cache_keeps: "keeps (\<lambda>s. I (bw s)) (in_cache m) (\<lambda>s. I (bw s)) (\<lambda>s. I (bw s))"
  by (auto simp: keeps_def via_def split: outcome.splits)

lemma strdup_upto [keeps_intros]: "keeps (upto k) (strdup s) (upto k) (upto k)"
  by (rule quiet_keeps [OF quiet_strdup])

lemma copy_upto [keeps_intros]: "keeps (upto k) (copy_type_info t) (upto k) (upto k)"
proof (induction t rule: copy_type_info.induct)
  case (1 f subs)
  then show ?case unfolding copy_type_info.simps Let_def by (intro keeps_intros) auto
qed

lemma keeps_datum [keeps_intros]:
  assumes "\<And>x. keeps I (f1 x) J E" "\<And>x. keeps I (f2 x) J E" "\<And>x. keeps I (f3 x) J E" "\<And>x. keeps I (f4 x) J E"
    "\<And>x. keeps I (f5 x) J E" "\<And>x. keeps I (f6 x) J E" "\<And>x. keeps I (f7 x) J E" "\<And>x y z. keeps I (f8 x y z) J E"
    "\<And>x. keeps I (f9 x) J E" "\<And>x. keeps I (f10 x) J E"
  shows "keeps I (case d of DBool x \<Rightarrow> f1 x | DInt2 x \<Rightarrow> f2 x | DInt4 x \<Rightarrow> f3 x | DInt8 x \<Rightarrow> f4 x
    | DFloat4 x \<Rightarrow> f5 x | DFloat8 x \<Rightarrow> f6 x | DBytea x \<Rightarrow> f7 x | DArray x y z \<Rightarrow> f8 x y z | DTuple x \<Rightarrow> f9 x | DOther x \<Rightarrow> f10 x) J E"
  using assms by (cases d) simp_all

lemma as_array_upto:
  assumes "\<And>d. keeps (upto k) (out d) (upto k) (upto k)"
  shows "keeps (upto k) (plc_datum_as_array et out d) (upto k) (upto k)"
proof -
  have next1: "keeps (upto k) (plc_backend_array_next out pos) (upto k) (upto k)" for pos
    unfolding plc_backend_array_next_def by (intro keeps_intros assms)
  have objs: "keeps (upto k) (array_objects out n pos) (upto k) (upto k)" for n pos
  proof (induction n arbitrary: pos)
    case (Suc n)
    then show ?case unfolding array_objects.simps by (intro keeps_intros next1)
  qed (simp add: keeps_return)
  have dims: "keeps (upto k) (mult_dims p ds) (upto k) (upto k)" for p ds
    by (induction ds arbitrary: p) (auto intro!: keeps_intros)
  show ?thesis
    unfolding plc_datum_as_array_def by (intro keeps_intros objs dims)
qed

lemma as_udt_upto:
  assumes "\<And>t d. t \<in> set subs \<Longrightarrow> keeps (upto k) (out t d) (upto k) (upto k)"
  shows "keeps (upto k) (plc_datum_as_udt out subs d) (upto k) (upto k)"
  unfolding plc_datum_as_udt_def plc_alloc_udt_def
  by (intro keeps_intros assms) (auto dest: set_zip_leftD)

lemma out_datum_upto [keeps_intros]: "keeps (upto k) (out_datum fm t d) (upto k) (upto k)"
proof (induction fm t d rule: out_datum.induct)
  case (1 fm f subs input)
  have call: "keeps (upto k) (call_fm x) (upto k) (upto k)" for x :: "'z option"
    by (cases x) (simp_all add: call_fm_def keeps_return keeps_elog)
  show ?case
  proof (cases "outfunc f")
    case (Some a)
    note defs = plc_datum_as_int1_def plc_datum_as_int2_def plc_datum_as_int4_def plc_datum_as_int8_def plc_datum_as_float4_def
      plc_datum_as_float8_def plc_datum_as_float8_numeric_def plc_datum_as_text_def plc_datum_as_bytea_def
    show ?thesis
    proof (cases a)
      case As_array
      with Some 1(1) show ?thesis
        by (cases subs) (simp_all add: out_datum.simps keeps_stuck as_array_upto)
    next
      case As_udt
      with Some 1(2) show ?thesis by (simp add: out_datum.simps as_udt_upto)
    qed (simp_all add: Some out_datum.simps defs, (intro keeps_intros call)+)
  qed (simp add: out_datum.simps keeps_stuck)
qed

section \<open>A turn\<close>

abbreviation still :: "int \<Rightarrow> backend \<Rightarrow> bool" where
  "still k \<equiv> \<lambda>s. upto k (bw s)"

lemmas still_intros = in_world_keeps in_cache_keeps keeps_intros

lemma fill_upto_types: "keeps (upto k) (fill_type_info cat rd oid) (upto k) (upto k)"
  unfolding fill_type_info_def by (rule quiet_keeps [OF fill_quiet_any])

lemma create_sql_upto: "keeps (upto k) (create_sql_result fm cat tab) (upto k) (upto k)"
  unfolding create_sql_result_def result_column_def result_row_def result_cell_def Let_def
  by (intro keeps_intros fill_upto_types)

lemma proc_keeps:
  assumes I: "\<And>s c. I s \<Longrightarrow> I (s\<lparr>cache := c\<rparr>)" "\<And>s p. I s \<Longrightarrow> I (s\<lparr>next_proc := p\<rparr>)"
      "\<And>s ps. I s \<Longrightarrow> I (s\<lparr>unfinished := ps\<rparr>)"
  shows "keeps I (get_proc_info cat fcinfo) I I"
proof -
  have ca: "keeps I (in_cache m) I I" for m :: "(fcache, 'b) prog"
    using I(1) by (auto simp: keeps_def via_def split: outcome.splits)
  have valid: "keeps I (plc_procedure_valid c p row) I I" for c p row
    unfolding plc_procedure_valid_def
    by (intro ca keeps_intros quiet_keeps [OF type_valid_quiet] quiet_keeps [OF quiet_allM [OF type_valid_quiet]])
  have "keeps I (\<lambda>s. let p = next_proc s in Ok p (s\<lparr>next_proc := Suc p, unfinished := insert p (unfinished s)\<rparr>)) I I"
    using I(3) [OF I(2)] by (simp add: keeps_def Let_def)
  then have new: "keeps I new_proc I I"
    unfolding new_proc_def by (intro keeps_bind_same [OF quiet_keeps [OF in_world.via_quiet [OF quiet_alloc]]])
  have fill: "keeps I (fill_proc p f) I I" for p f
    using I(1) [OF I(3)] by (simp add: keeps_def fill_proc_def)
  have put: "keeps I (in_cache (function_cache_put p)) I I" "keeps I (in_cache (set_unchanged p)) I I"
    "keeps I (in_cache (function_cache_get oid)) I I" for p oid
    using I(1) by (auto simp: keeps_def via_def split: outcome.splits)
  show ?thesis
    unfolding get_proc_info_def
    by (intro keeps_intros put valid new fill quiet_keeps [OF in_world.via_quiet [OF build_proc_quiet]])
qed

lemma proc_still: "keeps (still k) (get_proc_info cat fcinfo) (still k) (still k)"
  by (rule proc_keeps) simp_all

lemma spi_still: "keeps (still k) (spi_exec cat stmt) (still k) (still k)"
proof -
  have "keeps (still k) (bindM (mapM (get_proc_info cat) calls) (\<lambda>_. returnM (Some t))) (still k) (still k)" for calls and t :: spi_table
    by (intro keeps_intros proc_still)
  then show ?thesis
    by (auto simp: keeps_def spi_exec_def split: list.splits spi_ev.splits outcome.splits)
qed

lemma sql_still: "keeps (still k) (handle_sql_message fm cat q) (still k) (still k)"
proof -
  have sub: "keeps (still k) begin_subxact (still k) (still k)" "keeps (still k) end_subxact (still k) (still k)"
    "keeps (still k) rollback_subxact (still k) (still k)"
    by (simp_all add: keeps_def begin_subxact_def end_subxact_def rollback_subxact_def raising_call_def server_call_def
        bindM_def returnM_def elogM_def split: list.split option.split)
  have body: "keeps (still k) (bindM begin_subxact (\<lambda>_.
        bindM (spi_exec cat (statement q)) (\<lambda>tab.
        bindM (case tab of
                 None \<Rightarrow> elogM (E_msg ''cannot handle non-select sql at the moment'')
               | Some tab \<Rightarrow> in_world (create_sql_result fm (tcat cat) tab)) (\<lambda>result.
        bindM end_subxact (\<lambda>_.
        returnM result))))) (still k) (still k)"
    by (intro still_intros sub spi_still create_sql_upto)
  then show ?thesis
    unfolding handle_sql_message_def by (intro keeps_try [OF body sub(3)])
qed

text \<open>A message after which the loop goes on took at least its first byte.\<close>

lemma channel_receive_takes:
  assumes run: "pljvm_channel_receive w = Ok (res, m) w'" and "0 \<le> res"
  shows "1 \<le> pending w \<and> pending w' \<le> pending w - 1"
proof -
  define body where "body = (\<lambda>c. if c = MT_PING then receive_ping else if c = MT_CALLREQ then receive_call
     else if c = MT_RESULT then receive_result else if c = MT_EXCEPTION then receive_exception
     else if c = MT_LOG then receive_log else if c = MT_SQL then receive_sql else elogM (E_message_type_unknown c))"
  have body: "keeps (upto k) (body c) (upto k) (upto k)" for k c
    unfolding body_def by (intro keeps_intros)
  have recv: "pljvm_channel_receive = bindM receive_message_type (\<lambda>(res, c). if res < 0 then returnM (-3, None) else body c)"
    unfolding pljvm_channel_receive_def body_def ..
  obtain r c u where u: "receive_message_type w = Ok (r, c) u" "0 \<le> r" "body c u = Ok (res, m) w'"
    using assms unfolding recv by (auto simp: bindM_Ok_iff split: if_splits)
  from message_type_takes [OF u(1,2)] keepsD(1) [OF body _ u(3), of "pending u"]
  show ?thesis by (simp add: upto_def)
qed

lemma process_sql_still: "keeps (still k) (pljvm_process_sql fm cat q) (still k) (still k)"
  unfolding pljvm_process_sql_def
  by (intro keeps_bind_same [OF sql_still] keeps_bind_same [OF in_world_keeps [OF channel_send_upto]] keeps_release)

lemma answer_takes:
  assumes run: "process_answer fm cat s = Ok None s'"
  shows "1 \<le> pending (bw s) \<and> pending (bw s') \<le> pending (bw s) - 1"
proof -
  define act where "act = (\<lambda>a. case a of
         MsgResult r \<Rightarrow> bindM (in_world (plc_alloc 16)) (\<lambda>_. returnM (Some r))
       | MsgError e \<Rightarrow> pljvm_process_exception e
       | MsgSQL q \<Rightarrow> bindM (pljvm_process_sql fm cat q) (\<lambda>_. returnM None)
       | MsgLog l \<Rightarrow> bindM (pljvm_process_log l) (\<lambda>_. returnM None)
       | _ \<Rightarrow> elogM (E_unhandled_message (msg_code a)))"
  have act: "keeps (still k) (act a) (still k) (still k)" for k a
  proof -
    have "keeps (still k) (pljvm_process_log l) (still k) (still k)" for l
      by (simp add: keeps_def pljvm_process_log_def)
    then show ?thesis
      unfolding act_def pljvm_process_exception_def
      by (cases a) (simp_all add: keeps_elog keeps_bind_same [OF in_world_keeps [OF alloc_upto] keeps_return]
          keeps_bind_same [OF process_sql_still keeps_return] keeps_bind_same [OF _ keeps_return])
  qed
  obtain res m w t where w: "pljvm_channel_receive (bw s) = Ok (res, m) w" "0 \<le> res" "t = s\<lparr>bw := w\<rparr>"
    "bindM (needM Uninit m) act t = Ok None s'"
    using run unfolding process_answer_def act_def
    by (auto simp: bindM_Ok_iff in_world.via_Ok elogM_def split: if_splits)
  have "pending (bw s') \<le> pending w"
    using keepsD(1) [OF keeps_bind_same [OF keeps_need act] _ w(4), of "pending w"] w(3) by (simp add: upto_def)
  with channel_receive_takes [OF w(1,2)] show ?thesis by linarith
qed

section \<open>The call\<close>

text \<open>With more turns than bytes to come the loop is never cut off, and more turns change nothing.\<close>

lemma loop_ends: "max 0 (pending (bw s)) < int n \<Longrightarrow> answer_loop n fm cat s \<noteq> Ok None s'"
proof (induction n arbitrary: s)
  case (Suc n)
  show ?case
  proof
    assume "answer_loop (Suc n) fm cat s = Ok None s'"
    then obtain t where t: "process_answer fm cat s = Ok None t" "answer_loop n fm cat t = Ok None s'"
      by (auto simp: bindM_Ok_iff split: option.splits)
    with answer_takes [OF t(1)] Suc.prems have "max 0 (pending (bw t)) < int n" by auto
    from Suc.IH [OF this] t(2) show False by simp
  qed
qed simp

lemma loop_more:
  assumes "\<And>s'. answer_loop n fm cat s \<noteq> Ok None s'"
  shows "answer_loop (n + k) fm cat s = answer_loop n fm cat s"
  using assms
proof (induction n arbitrary: s)
  case 0
  from 0 [of s] show ?case by (simp add: returnM_def)
next
  case (Suc n)
  show ?case
  proof (cases "process_answer fm cat s")
    case (Ok r t)
    with Suc show ?thesis by (cases r) auto
  qed simp_all
qed

text \<open>The bytes a connection will deliver.\<close>

fun bytes_of :: "connect_ev \<Rightarrow> nat" where
  "bytes_of (Connected sck rs ss) = arriving rs"
| "bytes_of c = 0"

lemma connected_pending:
  assumes "plcConnect s = Ok True s'"
  shows "\<exists>c cs. connects s = c # cs \<and> pending (bw s') = int (bytes_of c)"
  using assms unfolding plcConnect_def
  by (auto simp: bindM_Ok_iff plcConnInit_def plc_alloc_def via_def pending_def returnM_def Let_def
      split: list.splits connect_ev.splits outcome.splits if_splits)

lemma request_still: "keeps (still k) (bindM (in_cache (deref p)) (\<lambda>f. bindM (in_world (pljvm_create_call fm fcinfo f)) (\<lambda>req.
    bindM (in_world (pljvm_channel_send (MsgCallreq req))) (\<lambda>_. release_callreq True req)))) (still k) (still k)"
  unfolding pljvm_create_call_def fill_callreq_arguments_def call_argument_def by (intro still_intros)

lemma result_ends:
  assumes con: "connects s = c # cs" and n: "bytes_of c < n"
  shows "pljvm_get_result n fm cat fcinfo p s \<noteq> Ok Unfinished s'"
    and "pljvm_get_result (n + k) fm cat fcinfo p s = pljvm_get_result n fm cat fcinfo p s"
proof -
  let ?req = "bindM (in_cache (deref p)) (\<lambda>f. bindM (in_world (pljvm_create_call fm fcinfo f)) (\<lambda>req.
    bindM (in_world (pljvm_channel_send (MsgCallreq req))) (\<lambda>_. release_callreq True req)))"
  let ?fin = "\<lambda>r. case r of None \<Rightarrow> returnM Unfinished
       | Some r \<Rightarrow> bindM plcDisconnect (\<lambda>_. returnM (Result \<lparr>resmsg = r, resrow = 0\<rparr>))"
  have split: "pljvm_get_result m fm cat fcinfo p = bindM plcConnect (\<lambda>conn.
      if conn then bindM ?req (\<lambda>_. bindM (answer_loop m fm cat) ?fin) else returnM No_connection)" for m
    by (simp add: pljvm_get_result_def bindM_assoc cong: if_cong)
  have loop: "answer_loop n fm cat u \<noteq> Ok None u'" if "plcConnect s = Ok True t" "?req t = Ok x u" for t x u u'
  proof -
    from connected_pending [OF that(1)] con have t: "pending (bw t) = int (bytes_of c)" by auto
    with keepsD(1) [OF request_still _ that(2), of "pending (bw t)"] n have "max 0 (pending (bw u)) < int n"
      by (auto simp: upto_def)
    then show ?thesis by (rule loop_ends)
  qed
  show "pljvm_get_result n fm cat fcinfo p s \<noteq> Ok Unfinished s'"
    using loop unfolding split by (fastforce simp: bindM_Ok_iff split: if_splits option.splits)
  have "bindM ?req (\<lambda>_. bindM (answer_loop (n + k) fm cat) ?fin) t = bindM ?req (\<lambda>_. bindM (answer_loop n fm cat) ?fin) t"
    if "plcConnect s = Ok True t" for t
  proof (cases "?req t")
    case (Ok x u)
    with loop_more [OF loop [OF that Ok], of k] show ?thesis by (simp add: bindM_def [of "answer_loop _ fm cat"])
  qed simp_all
  then show "pljvm_get_result (n + k) fm cat fcinfo p s = pljvm_get_result n fm cat fcinfo p s"
    unfolding split by (cases "plcConnect s") auto
qed

text \<open>The steps of the handler around the call.\<close>

lemma status_connects: "status_call msg s = Ok () u \<Longrightarrow> connects u = connects s"
  by (auto simp: status_call_def server_call_def bindM_def returnM_def elogM_def split: list.splits option.splits)

text \<open>
  C16: the handler never waits without end for a result: when the number of turns is above the number of bytes the
  connection will deliver, the loop ends by itself, with the result, with an error or in a read that waits for the
  executor, whatever the bytes are; a larger number of turns gives the same outcome and the same state.
\<close>

theorem call_ends:
  assumes "connects s = c # cs" and "bytes_of c < n"
  shows "(\<forall>s'. pljvm_call_handler ctx n fm cat fcinfo srf s \<noteq> Ok Running s')
    \<and> pljvm_call_handler ctx (n + k) fm cat fcinfo srf s = pljvm_call_handler ctx n fm cat fcinfo srf s"
proof -
  let ?s = "s\<lparr>caller_context := ctx\<rparr>"
  have con: "connects t = c # cs"
    if "status_call ''SPI connect error'' ?s = Ok () u" "get_proc_info cat fcinfo u = Ok p t" for p t u
    using keepsD(1) [OF proc_keeps [where I = "\<lambda>s. connects s = c # cs"] _ that(2)] status_connects [OF that(1)] assms(1) by simp
  note ends = result_ends [OF con assms(2)]
  have row: "return_row fm ct fcinfo p pr t \<noteq> Ok Running t'" for ct p pr t t'
    by (auto simp: return_row_def bindM_Ok_iff split: if_splits)
  let ?get = "\<lambda>p. if fn_retset fcinfo \<and> srf \<noteq> None
      then returnM (case the srf of None \<Rightarrow> No_connection | Some r \<Rightarrow> Result r) else pljvm_get_result n fm cat fcinfo p"
  let ?row = "\<lambda>p pr. case pr of No_connection \<Rightarrow> returnM (Value None) | Unfinished \<Rightarrow> returnM Running
      | Result presult \<Rightarrow> return_row fm (tcat cat) fcinfo p presult"
  have hook: "pljvm_call_hook n fm cat fcinfo srf = bindM (get_proc_info cat fcinfo) (\<lambda>p. bindM (?get p) (?row p))"
    by (simp add: pljvm_call_hook_def)
  have over: "pljvm_call_hook n fm cat fcinfo srf u \<noteq> Ok Running t" if st: "status_call ''SPI connect error'' ?s = Ok () u" for t u
  proof
    assume "pljvm_call_hook n fm cat fcinfo srf u = Ok Running t"
    then obtain p x pr v where x: "get_proc_info cat fcinfo u = Ok p x" and v: "?get p x = Ok pr v" "?row p pr v = Ok Running t"
      unfolding hook bindM_Ok_iff by blast
    from v(2) row have "pr = Unfinished" by (cases pr) simp_all
    moreover from v(1) ends(1) [OF st x] have "pr \<noteq> Unfinished" by (auto split: if_splits option.splits)
    ultimately show False by simp
  qed
  have more: "pljvm_call_hook (n + k) fm cat fcinfo srf u = pljvm_call_hook n fm cat fcinfo srf u"
    if st: "status_call ''SPI connect error'' ?s = Ok () u" for u
  proof (cases "get_proc_info cat fcinfo u")
    case (Ok p t)
    with ends(2) [OF st Ok, of k fm cat fcinfo p] show ?thesis
      by (cases srf) (simp_all add: pljvm_call_hook_def bindM_def [of "pljvm_get_result _ fm cat fcinfo p"])
  qed (simp_all add: pljvm_call_hook_def)
  have handler: "pljvm_call_handler ctx m fm cat fcinfo srf s = (if call_trigger fcinfo then elogM (E_msg ''PL/Container does not support triggers'') s
      else bindM (status_call ''SPI connect error'') (\<lambda>_. bindM (pljvm_call_hook m fm cat fcinfo srf) (leave (caller_context s))) ?s)" for m
    by (simp add: pljvm_call_handler_def set_caller_context_def [of ctx])
  show ?thesis
  proof (intro conjI allI notI)
    fix s'
    assume "pljvm_call_handler ctx n fm cat fcinfo srf s = Ok Running s'"
    with over show False unfolding handler by (auto simp: bindM_Ok_iff elogM_def split: if_splits)
  next
    show "pljvm_call_handler ctx (n + k) fm cat fcinfo srf s = pljvm_call_handler ctx n fm cat fcinfo srf s"
      using more unfolding handler by (auto simp: bindM_def split: outcome.splits)
  qed
qed

lemma call_ends_witness:
  "\<forall>fm s'. pljvm_call_handler 1 4 fm ex_sys ex_call_info None (ex_backend\<lparr>connects := [Connected 3 [RData [76, 1, 2]] []]\<rparr>) \<noteq> Ok Running s'"
  using call_ends [of "ex_backend\<lparr>connects := [Connected 3 [RData [76, 1, 2]] []]\<rparr>" "Connected 3 [RData [76, 1, 2]] []" "[]" 4]
  by simp

end
