(* ===== verification/Hostile_Input.thy ===== *)
theory Hostile_Input
  imports Call_Facts Backend_Props
begin

text \<open>
  What an executor can do to the process it is connected to: byte sequences whose reception leaves the defined behaviour of
  C, or raises what the executor likes. Nothing authenticates an executor.
\<close>

section \<open>Programs that choke on what they read\<close>

text \<open>
  \<open>chokes d u m bs\<close>: with a stack of \<open>d\<close> frames and memory to be had, \<open>m\<close> ends in the undefined behaviour \<open>u\<close> on every
  input that starts with \<open>bs\<close>.
\<close>

named_theorems chokes_intros "rules for programs that choke"

definition chokes :: "nat \<Rightarrow> ub \<Rightarrow> (world, 'a) prog \<Rightarrow> byte list \<Rightarrow> bool" where
  "chokes d u m bs \<longleftrightarrow> (\<forall>w rest. conn_inv w \<and> alloc_all w \<and> stack w = d \<and> in_stream w = bs @ rest \<longrightarrow> m w = Stuck u)"

lemma chokes_stuck: "chokes d u (stuckM u) bs"
  by (simp add: chokes_def stuckM_def)

lemma chokes_first: "chokes d u m bs \<Longrightarrow> chokes d u (bindM m f) bs"
  by (simp add: chokes_def)

lemma chokes_or: "chokes d u m bs \<Longrightarrow> chokes d u (or_res res m) bs"
  unfolding or_res_def by (rule chokes_first)

lemma chokes_more: "chokes d u m bs \<Longrightarrow> chokes d u m (bs @ bs')"
  by (simp add: chokes_def)

lemma chokes_alloc: "int n \<le> MaxAllocSize \<Longrightarrow> (\<And>blk. chokes d u (f blk) bs) \<Longrightarrow> chokes d u (bindM (plc_alloc n) f) bs"
  by (simp add: chokes_def alloc_all_run)

lemma chokes_bind:
  assumes "takes d m bs (r, x)" and "chokes d u (f r x) bs'"
  shows "chokes d u (bindM m (\<lambda>(r, x). f r x)) (bs @ bs')"
  unfolding chokes_def
proof (intro allI impI, elim conjE)
  fix w rest
  assume w: "conn_inv w" "alloc_all w" "stack w = d" "in_stream w = (bs @ bs') @ rest"
  then obtain w' where w': "m w = Ok (r, x) w'" "in_kept w w'" "in_stream w' = bs' @ rest"
    using takes_run [OF assms(1), of w "bs' @ rest"] by auto
  with in_kept_facts [OF w'(2)] w assms(2) show "bindM m (\<lambda>(r, x). f r x) w = Stuck u"
    by (auto simp: chokes_def)
qed

lemma chokes_bind_or:
  "takes d m bs (0, x) \<Longrightarrow> chokes d u (f 0 x) bs' \<Longrightarrow> chokes d u (bindM (or_res 0 m) (\<lambda>(r, x). f r x)) (bs @ bs')"
  unfolding or_res_0 by (rule chokes_bind)

lemma chokes_gather0: "chokes d u (f x) bs \<Longrightarrow> chokes d u (gather0 0 f (Suc n) (x # xs)) bs"
  by (simp add: chokes_first)

lemma chokes_gather: "chokes d u (f x) bs \<Longrightarrow> chokes d u (gather 0 f (Suc n) (x # xs)) bs"
  by (simp add: chokes_first)

lemma chokes_type:
  "chokes d u (f 0 b) bs \<Longrightarrow> chokes d u (bindM receive_message_type (\<lambda>(r, x). f r x)) (b # bs)"
  using chokes_bind [OF takes_message_type, of d u f b bs] by simp

lemma chokes_message:
  "chokes d u receive_ping bs \<Longrightarrow> chokes d u pljvm_channel_receive (MT_PING # bs)"
  "chokes d u receive_result bs \<Longrightarrow> chokes d u pljvm_channel_receive (MT_RESULT # bs)"
  unfolding pljvm_channel_receive_def by (rule chokes_type, simp add: MT_defs)+

section \<open>The ping\<close>

text \<open>
  A ping whose text is the NULL string makes the receiver dereference NULL; any text that starts with the four letters is
  taken for a ping.
\<close>

lemma ping_text:
  "(healthy 0 w \<and> in_stream w = [MT_PING] @ enc_cstring None @ rest \<longrightarrow> pljvm_channel_receive w = Stuck NullDeref)
   \<and> (healthy 0 w \<and> ok_cstring (Some (ping @ s)) \<and> in_stream w = [MT_PING] @ enc_cstring (Some (ping @ s)) @ rest
      \<longrightarrow> (\<exists>w'. pljvm_channel_receive w = Ok (0, Some MsgPing) w' \<and> in_stream w' = rest))"
proof (intro conjI impI; elim conjE)
  have "chokes d NullDeref receive_ping (enc_cstring None @ [])" for d
    unfolding receive_ping_def
    by (rule chokes_alloc, simp add: MaxAllocSize_def, rule chokes_bind [OF takes_cstring])
      (simp_all add: ok_cstring_def needM_def chokes_first chokes_stuck)
  note choke = chokes_message(1) [OF this, of "stack w"]
  assume "healthy 0 w" "in_stream w = [MT_PING] @ enc_cstring None @ rest"
  with choke show "pljvm_channel_receive w = Stuck NullDeref" by (auto simp: chokes_def healthy_def)
next
  assume w: "healthy 0 w" "in_stream w = [MT_PING] @ enc_cstring (Some (ping @ s)) @ rest" and s: "ok_cstring (Some (ping @ s))"
  have eq: "strncmp_eq (ping @ s) ping 4" by (simp add: ping_def numeral_eq_Suc)
  have "takes 0 receive_ping (enc_cstring (Some (ping @ s))) (0, Some MsgPing)"
    unfolding receive_ping_def
    by (rule takes_alloc, simp add: MaxAllocSize_def, rule takes_bind2_last [OF takes_cstring [OF s]])
      (simp add: takes_return_eq eq)
  then have "takes 0 pljvm_channel_receive ([MT_PING] @ enc_cstring (Some (ping @ s))) (0, Some MsgPing)"
    unfolding pljvm_channel_receive_def by (intro takes_bind2 [OF takes_message_type]) simp
  from takes_run [OF this, of w rest] w show "\<exists>w'. pljvm_channel_receive w = Ok (0, Some MsgPing) w' \<and> in_stream w' = rest"
    by (auto simp: healthy_def)
qed

lemma ping_text_witness:
  "pljvm_channel_receive (world_of 0 [RData ([MT_PING] @ enc_cstring None)] []) = Stuck NullDeref
   \<and> (\<exists>w'. pljvm_channel_receive (world_of 0 [RData ([MT_PING] @ enc_cstring (Some (ping @ [33])))] []) = Ok (0, Some MsgPing) w')"
proof
  show "pljvm_channel_receive (world_of 0 [RData ([MT_PING] @ enc_cstring None)] []) = Stuck NullDeref"
    using ping_text [of "world_of 0 [RData ([MT_PING] @ enc_cstring None)] []" "[]" "[]"] by simp
  have "ok_cstring (Some (ping @ [33]))" by (simp add: ok_cstring_def ping_def MAX_CHUNK_def)
  then show "\<exists>w'. pljvm_channel_receive (world_of 0 [RData ([MT_PING] @ enc_cstring (Some (ping @ [33])))] []) = Ok (0, Some MsgPing) w'"
    using ping_text [of "world_of 0 [RData ([MT_PING] @ enc_cstring (Some (ping @ [33])))] []" "[]" "[33]"] by auto
qed

section \<open>Results\<close>

lemma takes_int: "takes d receive_int32 (le_bytes 4 x) (0, Some x)" "takes d receive_int16 (le_bytes 2 y) (0, Some y)"
  using w_int32.get_deep [where x = x and d = d] w_int16.get_deep [where x = y and d = d] by simp_all

definition result_header :: "i32 \<Rightarrow> i32 \<Rightarrow> byte list" where
  "result_header nrows ncols = le_bytes 4 nrows @ le_bytes 4 ncols"

lemma chokes_column:
  assumes "chokes d u receive_column bs"
  shows "chokes d u receive_result (result_header 0 1 @ bs)"
  unfolding receive_result_def result_header_def append_assoc
  by (rule chokes_alloc, simp add: MaxAllocSize_def, rule chokes_bind [OF takes_int(1)], rule chokes_bind_or [OF takes_int(1)])
    (simp add: chokes_first chokes_alloc MaxAllocSize_def size_mult_def size_of_int_def assms)

lemma chokes_row:
  assumes c: "takes d receive_column bc (0, Some c)" and "chokes d u (receive_raw_object (fst c)) bs"
  shows "chokes d u receive_result (result_header 1 1 @ bc @ bs)"
proof -
  have cols: "takes d (gather 0 (\<lambda>_. receive_column) (Suc 0) [()]) bc (0, [c])"
    using takes_bind2_last [OF c, of "\<lambda>r y. bindM (gather (0 OR r) (\<lambda>_. receive_column) 0 []) (\<lambda>(res', ys).
       returnM (res', case y of None \<Rightarrow> ys | Some y \<Rightarrow> y # ys))"] by (simp add: takes_return)
  have row: "chokes d u (gather0 0 (\<lambda>_. receive_row 1 [fst c]) (Suc 0) [()]) bs"
    by (rule chokes_gather0) (simp add: receive_row_def chokes_first chokes_alloc MaxAllocSize_def size_mult_def size_of_int_def assms(2))
  show ?thesis
    unfolding receive_result_def result_header_def append_assoc
    by (rule chokes_alloc, simp add: MaxAllocSize_def, rule chokes_bind [OF takes_int(1)], rule chokes_bind_or [OF takes_int(1)])
      (simp del: gather.simps gather0.simps add: chokes_first chokes_alloc MaxAllocSize_def size_mult_def size_of_int_def
        chokes_bind [OF cols] row)
qed

text \<open>A result of one column and one row whose cell chokes.\<close>

lemma chokes_cell:
  assumes "takes (stack w) receive_column (enc_column (t, nm)) (0, Some (t, nm))"
    and "chokes (stack w) u (receive_raw_object t) bs" and "healthy 0 w"
    and "in_stream w = MT_RESULT # result_header 1 1 @ enc_column (t, nm) @ bs @ rest"
  shows "pljvm_channel_receive w = Stuck u"
  using chokes_message(2) [OF chokes_row [OF assms(1), of u bs]] assms(2-) by (auto simp: chokes_def healthy_def)

section \<open>Types\<close>

text \<open>An unnamed array of one element type, whose description follows.\<close>

definition array_of :: "byte list" where
  "array_of = [7] @ enc_cstring None @ le_bytes 2 (1 :: i16)"

definition nested_arrays :: "nat \<Rightarrow> byte list" where
  "nested_arrays n = concat (replicate n array_of)"

lemma chokes_nested: "chokes s StackOverflow (receive_type_d d) (nested_arrays d)"
proof (induction d)
  case 0
  show ?case by (simp add: chokes_stuck)
next
  case (Suc d)
  have none: "ok_cstring None" "dt_of_code (sint (7 :: byte)) = PLC_DATA_ARRAY" by (simp_all add: ok_cstring_def dt_of_code_def)
  have "chokes s StackOverflow (receive_type_d (Suc d)) ([7] @ enc_cstring None @ le_bytes 2 (1 :: i16) @ nested_arrays d)"
    unfolding receive_type_d.simps
    by (rule chokes_bind [OF takes_char], rule chokes_bind_or [OF takes_cstring [OF none(1)]],
        unfold bindM_needM none(2) Let_def, simp only: simp_thms if_True, rule chokes_bind_or [OF takes_int(2)])
      (simp add: chokes_first chokes_alloc MaxAllocSize_def size_mult_def size_of_int_def Suc)
  then show ?case by (simp add: nested_arrays_def array_of_def)
qed

text \<open>
  C38: a result whose column type is nested as deep as the stack has frames overflows the stack: \<open>receive_type\<close> calls itself
  as often as the executor asks.
\<close>

theorem type_nesting:
  assumes "healthy 0 w" and "in_stream w = MT_RESULT # result_header 0 1 @ nested_arrays (stack w) @ rest"
  shows "pljvm_channel_receive w = Stuck StackOverflow"
proof -
  have "chokes (stack w) StackOverflow receive_type (nested_arrays (stack w))"
    using chokes_nested [of "stack w" "stack w"] by (auto simp: chokes_def receive_type_def)
  then have "chokes (stack w) StackOverflow receive_column (nested_arrays (stack w))"
    unfolding receive_column_def by (rule chokes_first)
  from chokes_message(2) [OF chokes_column [OF this]] assms show ?thesis by (auto simp: chokes_def healthy_def)
qed

lemma type_nesting_witness:
  "pljvm_channel_receive (world_of 3 [RData (MT_RESULT # result_header 0 1 @ nested_arrays 3)] []) = Stuck StackOverflow"
  by (rule type_nesting [where rest = "[]"]) simp_all

section \<open>Values\<close>

lemma chokes_object: "chokes d u (f 0 (Some 68)) bs \<Longrightarrow> chokes d u (bindM receive_char (\<lambda>(r, x). f r x)) (68 # bs)"
  using chokes_bind [OF takes_char, of d u f 68 bs] by simp

text \<open>
  C39: the length of a binary value may be from -4 to -1: then the block has room for less than the four bytes of the length
  that are written to it.
\<close>

theorem bytea_length:
  fixes len :: i32
  assumes w: "healthy 0 w" "1 \<le> stack w" and len: "- 4 \<le> sint len" "sint len < 0"
    and ins: "in_stream w = MT_RESULT # result_header 1 1 @ enc_column (PlcType PLC_DATA_BYTEA 0 None [], None) @ [68] @ le_bytes 4 len @ rest"
  shows "pljvm_channel_receive w = Stuck OutOfBounds"
proof -
  let ?t = "PlcType PLC_DATA_BYTEA 0 None []" and ?d = "stack w"
  have col: "takes ?d receive_column (enc_column (?t, None)) (0, Some (?t, None))"
    using w(2) by (intro takes_column) (simp_all add: ok_column_def ok_cstring_def dt_ok_def dt_of_code_def)
  have small: "in_int (sint len + 4)" "size_of_int (sint len + 4) < 4"
    using len by (auto simp: in_int_def INT_MAX_def size_of_int_def)
  have "chokes ?d OutOfBounds receive_bytea (le_bytes 4 len @ [])"
    unfolding receive_bytea_def
    by (rule chokes_bind [OF takes_int(1)]) (use small in \<open>simp add: chokes_alloc MaxAllocSize_def checkM_def chokes_first chokes_stuck\<close>)
  then have "chokes ?d OutOfBounds (receive_raw_object ?t) (68 # le_bytes 4 len)"
    unfolding receive_raw_object.simps by (intro chokes_object) (simp add: chokes_or store_def chokes_first)
  from chokes_cell [OF col this w(1), of rest] ins show ?thesis by simp
qed

lemma bytea_length_witness:
  "pljvm_channel_receive (world_of 1 [RData (MT_RESULT # result_header 1 1 @ enc_column (PlcType PLC_DATA_BYTEA 0 None [], None)
     @ [68] @ le_bytes 4 (-1 :: i32))] []) = Stuck OutOfBounds"
  by (rule bytea_length [where rest = "[]" and len = "-1"]) simp_all

text \<open>
  The dimensions of an array are multiplied as they come, in \<open>int\<close>: two dimensions whose product does not fit overflow.
\<close>

lemma dims_overflow:
  fixes m n :: i32
  assumes w: "healthy 0 w" "2 \<le> stack w" and t: "t = PlcType PLC_DATA_ARRAY 1 None [PlcType PLC_DATA_INT4 0 None []]"
    and big: "\<not> in_int (sint m * sint n)"
    and ins: "in_stream w = MT_RESULT # result_header 1 1 @ enc_column (t, None) @ [68] @ le_bytes 4 (2 :: i32) @ le_bytes 4 m @ le_bytes 4 n @ rest"
  shows "pljvm_channel_receive w = Stuck IntOverflow"
proof -
  let ?d = "stack w"
  have col: "takes ?d receive_column (enc_column (t, None)) (0, Some (t, None))"
    unfolding t using w(2) by (intro takes_column) (simp_all add: ok_column_def ok_cstring_def dt_ok_def dt_of_code_def)
  have m: "in_int (sint m)"
    using sint_range_size [of m] by (auto simp: in_int_def INT_MAX_def word_size)
  have one: "chokes ?d IntOverflow (receive_dims (Suc 0) 0 (sint m)) (le_bytes 4 n @ [])"
    unfolding receive_dims.simps
    by (rule chokes_bind [OF takes_int(1)]) (simp add: big intM_def chokes_first chokes_stuck)
  have "chokes ?d IntOverflow (receive_dims (Suc (Suc 0)) 0 1) (le_bytes 4 m @ le_bytes 4 n)"
    unfolding receive_dims.simps(2) [of "Suc 0"]
    by (rule chokes_bind [OF takes_int(1)]) (use one m in \<open>simp del: receive_dims.simps add: chokes_first\<close>)
  then have dims: "chokes ?d IntOverflow (receive_dims 2 0 1) (le_bytes 4 m @ le_bytes 4 n)" by (simp only: numeral_2_eq_2)
  have "chokes ?d IntOverflow (receive_array (PlcType PLC_DATA_INT4 0 None [])) (le_bytes 4 (2 :: i32) @ le_bytes 4 m @ le_bytes 4 n)"
    unfolding receive_array.simps
    by (rule chokes_bind [OF takes_int(1)])
      (simp add: plc_alloc_array_def bindM_assoc chokes_alloc MaxAllocSize_def size_mult_def size_of_int_def chokes_first dims)
  then have "chokes ?d IntOverflow (receive_raw_object t) (68 # le_bytes 4 (2 :: i32) @ le_bytes 4 m @ le_bytes 4 n)"
    unfolding receive_raw_object.simps t by (intro chokes_object) (simp add: chokes_or)
  from chokes_cell [OF col this w(1), of rest] ins show ?thesis by simp
qed

lemma dims_overflow_witness:
  "pljvm_channel_receive (world_of 2 [RData (MT_RESULT # result_header 1 1
     @ enc_column (PlcType PLC_DATA_ARRAY 1 None [PlcType PLC_DATA_INT4 0 None []], None)
     @ [68] @ le_bytes 4 (2 :: i32) @ le_bytes 4 (65536 :: i32) @ le_bytes 4 (65536 :: i32))] []) = Stuck IntOverflow"
  by (rule dims_overflow [where rest = "[]" and m = 65536 and n = 65536]) (simp_all add: in_int_def INT_MAX_def)

section \<open>Log messages\<close>

text \<open>
  A log message whose level is \<open>ERROR\<close> or above raises that level in the server process: an executor can end it with
  \<open>FATAL\<close> or have all of them restarted with \<open>PANIC\<close>.
\<close>

lemma log_level_raises:
  assumes "ok_message (MsgLog l)" and "healthy d (bw s)" and "in_stream (bw s) = enc_message (MsgLog l) @ rest"
    and "ERROR \<le> sint (level l)"
  shows "\<exists>w. process_answer fm cat s = Elog (E_report (sint (level l)) (lmessage l)) (s\<lparr>bw := w\<rparr>)"
proof -
  obtain w where "in_world pljvm_channel_receive s = Ok (0, Some (MsgLog l)) (s\<lparr>bw := w\<rparr>)"
    using answer_received [OF assms(1) _ assms(2,3)] by auto
  with assms(4) show ?thesis by (auto simp: process_answer_def pljvm_process_log_def)
qed

lemma log_level_raises_witness:
  "\<forall>fm. \<exists>w. process_answer fm ex_sys (ex_backend\<lparr>bw := world_of 4 [RData (enc_message (MsgLog \<lparr>level = 22, lmessage = None\<rparr>))] []\<rparr>)
     = Elog (E_report 22 None) (ex_backend\<lparr>bw := w\<rparr>)"
proof
  fix fm
  let ?l = "\<lparr>level = 22, lmessage = None\<rparr>"
  let ?s = "ex_backend\<lparr>bw := world_of 4 [RData (enc_message (MsgLog ?l))] []\<rparr>"
  have "ok_message (MsgLog ?l)" "healthy 0 (bw ?s)" "in_stream (bw ?s) = enc_message (MsgLog ?l) @ []" "ERROR \<le> sint (level ?l)"
    by (simp_all add: ok_cstring_def ERROR_def)
  from log_level_raises [OF this] show "\<exists>w. process_answer fm ex_sys ?s = Elog (E_report 22 None) (ex_backend\<lparr>bw := w\<rparr>)" by simp
qed

end
