(* ===== verification/Release.thy ===== *)
theory Release
  imports Message_Data
begin

text \<open>
  Releasing what a message, a type description or an iterator consists of: the functions of
  \<^verbatim>\<open>src/common/comm_messages.c\<close> that free messages, \<open>free_type_info\<close> and \<open>plc_backend_array_free\<close> of
  \<^verbatim>\<open>src/plc_typeio.c\<close>, \<open>free_proc_info\<close> of \<^verbatim>\<open>src/message_fns.c\<close>, and the end of \<open>create_sql_result\<close> in
  \<^verbatim>\<open>src/sqlhandler.c\<close>.

  The other theories treat messages as values. Here a structure is given by its layout: the addresses of its blocks and
  the fields these functions look at. The state is the set of blocks that are allocated. \<open>pfree\<close> of NULL and of a
  block that is not allocated, and a read of one, are undefined.
\<close>

section \<open>Layouts\<close>

type_synonym addr = nat
type_synonym heap = "addr set"

text \<open>\<open>plcType\<close>: the block of its name and that of its array of subtypes.\<close>

datatype ltype = LType (lty: plcDatatype) (lname: "addr option") (ln: i16) (lblock: "addr option") (lsubs: "ltype list")

text \<open>
  What a value pointer points to: a block that has no pointers of its own, or whose pointers its owner frees (\<open>Plain\<close>), a
  \<open>plcArray\<close> with its meta data, dimensions, data and null flags, or a \<open>plcUDT\<close> with its data. An array of
  pointers holds one per cell.
\<close>

record larray =
  ar_type :: plcDatatype
  ar_ndims :: i32
  ar_size :: i32
  ar_meta :: addr
  ar_dims :: "addr option"
  ar_data :: "addr option"
  ar_nulls :: "addr option"

datatype lvalue =
    Plain
  | LArray larray "(addr \<times> lvalue) option list"
  | LUdt addr "(bool \<times> (addr \<times> lvalue) option) list"    \<comment> \<open>\<open>isnull\<close> and \<open>value\<close> of its \<open>rawdata\<close>\<close>

type_synonym lraw = "bool \<times> (addr \<times> lvalue) option"

record largument =
  la_name :: "addr option"
  la_type :: ltype
  la_data :: lraw

record lcallreq =
  lc_self :: addr
  lc_name :: "addr option"
  lc_src :: "addr option"
  lc_ret :: ltype
  lc_nargs :: i32
  lc_args :: "addr option"
  lc_arglist :: "largument list"

text \<open>The rows of a result: the block of a row's \<open>rawdata\<close>, \<open>None\<close> when it is NULL, and these.\<close>

record lresult =
  lr_self :: addr
  lr_rows :: i32
  lr_cols :: i32
  lr_data :: "addr option"
  lr_rowlist :: "(addr \<times> lraw list) option list"
  lr_types :: "addr option"
  lr_typelist :: "ltype list"
  lr_names :: "addr option"
  lr_namelist :: "addr option list"

record lerror =
  le_self :: addr
  le_message :: "addr option"
  le_stack :: "addr option"

record literator =
  it_ndims :: i32
  it_meta :: addr
  it_dims :: "addr option"
  it_position :: addr

text \<open>\<open>plcPgArrayPosition\<close>: its block, the block \<open>type\<close> points into, and the subtypes of the description there.\<close>

record lposition =
  po_self :: addr
  po_type :: addr
  po_subs :: "addr option"

text \<open>\<open>plcProcInfo\<close>; the description of the return type is part of its block.\<close>

record lproc =
  lp_self :: addr
  lp_name :: "addr option"
  lp_src :: "addr option"
  lp_ret :: ltype
  lp_nargs :: i32
  lp_names :: "addr option"
  lp_namelist :: "addr option list"
  lp_types :: "addr option"
  lp_typelist :: "ltype list"

section \<open>Freeing\<close>

definition pfree :: "addr option \<Rightarrow> (heap, unit) prog" where
  "pfree p = (\<lambda>h. case p of
      None \<Rightarrow> Stuck NullDeref
    | Some a \<Rightarrow> if a \<in> h then Ok () (h - {a}) else Stuck UseAfterFree)"

definition readM :: "addr option \<Rightarrow> (heap, unit) prog" where
  "readM p = (\<lambda>h. case p of
      None \<Rightarrow> Stuck NullDeref
    | Some a \<Rightarrow> if a \<in> h then Ok () h else Stuck UseAfterFree)"

definition free_unless_null :: "addr option \<Rightarrow> (heap, unit) prog" where
  "free_unless_null p = (case p of None \<Rightarrow> returnM () | Some a \<Rightarrow> pfree p)"

text \<open>\<open>for (i = 0; i < n; i++) f(&xs[i])\<close> over the array in block \<open>p\<close>.\<close>

fun for_each :: "addr option \<Rightarrow> nat \<Rightarrow> 'x list \<Rightarrow> ('x \<Rightarrow> (heap, unit) prog) \<Rightarrow> (heap, unit) prog" where
  "for_each p 0 xs f = returnM ()"
| "for_each p (Suc n) [] f = stuckM OutOfBounds"
| "for_each p (Suc n) (x # xs) f = bindM (readM p) (\<lambda>_. bindM (f x) (\<lambda>_. for_each p n xs f))"

lemma for_each_cong [fundef_cong]:
  assumes "p = p'" and "n = n'" and "xs = xs'" and "\<And>x. x \<in> set xs' \<Longrightarrow> f x = f' x"
  shows "for_each p n xs f = for_each p' n' xs' f'"
proof -
  have "(\<And>x. x \<in> set xs \<Longrightarrow> f x = f' x) \<Longrightarrow> for_each p n xs f = for_each p n xs f'"
  proof (induction n arbitrary: xs)
    case (Suc n)
    then show ?case by (cases xs) simp_all
  qed simp
  with assms show ?thesis by simp
qed

fun free_type :: "ltype \<Rightarrow> (heap, unit) prog" where
  "free_type (LType t nm n blk subs) =
     bindM (free_unless_null nm) (\<lambda>_.
     if 0 < sint n then
       bindM (for_each blk (nat (sint n)) subs free_type) (\<lambda>_.
       pfree blk)
     else returnM ())"

fun free_type_info :: "ltype \<Rightarrow> (heap, unit) prog" where
  "free_type_info (LType t nm n blk subs) =
     bindM (free_unless_null nm) (\<lambda>_.
     bindM (for_each blk (nat (sint n)) subs free_type_info) (\<lambda>_.
     if 0 < sint n then pfree blk else returnM ()))"

lemma raw_size:
  "(isn, v) \<in> set rs \<Longrightarrow> size_option (size_prod (\<lambda>_. 0) size) v
     \<le> size_list (size_prod (\<lambda>_. 0) (size_option (size_prod (\<lambda>_. 0) size))) rs"
  by (induction rs) auto

lemma cell_size: "Some (a, v) \<in> set cs \<Longrightarrow> size v \<le> size_list (size_option (size_prod (\<lambda>_. 0) size)) cs"
  by (induction cs) auto

text \<open>
  \<open>plc_free_udt\<close> and \<open>plc_free_array\<close>; the pointer given is read before anything else. A \<open>plcUDT\<close>
  inside another one is only released with \<open>pfree\<close>.
\<close>

function plc_free_udt :: "(addr \<times> lvalue) option \<Rightarrow> ltype \<Rightarrow> bool \<Rightarrow> (heap, unit) prog"
  and plc_free_array :: "(addr \<times> lvalue) option \<Rightarrow> ltype \<Rightarrow> bool \<Rightarrow> (heap, unit) prog" where
  "plc_free_udt udt type isSender =
     (case udt of
        None \<Rightarrow> stuckM NullDeref
      | Some (a, LUdt blk raws) \<Rightarrow>
          bindM (for_each (lblock type) (nat (sint (ln type))) (zip (lsubs type) raws) (\<lambda>(sub, isn, val).
            bindM (readM (Some a)) (\<lambda>_.
            bindM (readM (Some blk)) (\<lambda>_.
            if \<not> isn then
              if \<not> isSender \<and> lty sub = PLC_DATA_ARRAY then plc_free_array val sub isSender
              else pfree (map_option fst val)
            else returnM ())))) (\<lambda>_.
          bindM (readM (Some a)) (\<lambda>_.
          pfree (Some blk)))
      | Some (a, _) \<Rightarrow> stuckM BadShape)"
| "plc_free_array arr type isSender =
     (case arr of
        None \<Rightarrow> returnM ()
      | Some (a, LArray m cells) \<Rightarrow>
          bindM (readM (Some a)) (\<lambda>_.
          bindM (readM (Some (ar_meta m))) (\<lambda>_.
          bindM (if ar_type m = PLC_DATA_TEXT \<or> ar_type m = PLC_DATA_BYTEA then
                   for_each (ar_data m) (nat (sint (ar_size m))) cells (\<lambda>c. free_unless_null (map_option fst c))
                 else returnM ()) (\<lambda>_.
          bindM (if ar_type m = PLC_DATA_UDT then
                   for_each (ar_data m) (nat (sint (ar_size m))) cells (\<lambda>c.
                     if c \<noteq> None then
                       bindM (readM (lblock type)) (\<lambda>_.
                       bindM (needM OutOfBounds (case lsubs type of [] \<Rightarrow> None | sub # _ \<Rightarrow> Some sub)) (\<lambda>sub.
                       bindM (plc_free_udt c sub isSender) (\<lambda>_.
                       pfree (map_option fst c))))
                     else returnM ())
                 else returnM ()) (\<lambda>_.
          bindM (if 0 < sint (ar_size m) then bindM (pfree (ar_data m)) (\<lambda>_. pfree (ar_nulls m)) else returnM ()) (\<lambda>_.
          bindM (if 0 < sint (ar_ndims m) then pfree (ar_dims m) else returnM ()) (\<lambda>_.
          bindM (pfree (Some (ar_meta m))) (\<lambda>_.
          pfree (Some a))))))))
      | Some (a, _) \<Rightarrow> stuckM BadShape)"
  by pat_completeness auto
termination
  by (relation "measure (case_sum (\<lambda>(v, t, s). size_option (size_prod (\<lambda>_. 0) size) v)
      (\<lambda>(v, t, s). size_option (size_prod (\<lambda>_. 0) size) v))")
    (auto dest!: set_zip_rightD raw_size cell_size)

declare plc_free_udt.simps [simp del] plc_free_array.simps [simp del]

text \<open>The \<open>rawdata\<close> of an argument or of a cell of a result.\<close>

definition free_data :: "bool \<Rightarrow> ltype \<Rightarrow> lraw \<Rightarrow> (heap, unit) prog" where
  "free_data isSender type d =
     (if snd d \<noteq> None then
        bindM (if lty type = PLC_DATA_UDT then plc_free_udt (snd d) type isSender else returnM ()) (\<lambda>_.
        if \<not> isSender \<and> lty type = PLC_DATA_ARRAY then plc_free_array (snd d) type isSender
        else pfree (map_option fst (snd d)))
      else returnM ())"

definition free_callreq :: "lcallreq \<Rightarrow> bool \<Rightarrow> bool \<Rightarrow> (heap, unit) prog" where
  "free_callreq req isShared isSender =
     bindM (readM (Some (lc_self req))) (\<lambda>_.
     bindM (if \<not> isShared then bindM (pfree (lc_name req)) (\<lambda>_. pfree (lc_src req)) else returnM ()) (\<lambda>_.
     bindM (for_each (lc_args req) (nat (sint (lc_nargs req))) (lc_arglist req) (\<lambda>arg.
       bindM (if \<not> isShared then free_unless_null (la_name arg) else returnM ()) (\<lambda>_.
       bindM (free_data isSender (la_type arg) (la_data arg)) (\<lambda>_.
       free_type (la_type arg))))) (\<lambda>_.
     bindM (pfree (lc_args req)) (\<lambda>_.
     bindM (free_type (lc_ret req)) (\<lambda>_.
     pfree (Some (lc_self req)))))))"

definition free_row :: "bool \<Rightarrow> lresult \<Rightarrow> (addr \<times> lraw list) option \<Rightarrow> (heap, unit) prog" where
  "free_row isSender res row =
     (case row of
        None \<Rightarrow> returnM ()
      | Some (blk, raws) \<Rightarrow>
          bindM (for_each (Some blk) (nat (sint (lr_cols res))) (zip (lr_typelist res) raws) (\<lambda>(t, d).
            bindM (readM (lr_types res)) (\<lambda>_. free_data isSender t d))) (\<lambda>_.
          pfree (Some blk)))"

definition free_result :: "lresult \<Rightarrow> bool \<Rightarrow> (heap, unit) prog" where
  "free_result res isSender =
     bindM (readM (Some (lr_self res))) (\<lambda>_.
     bindM (if lr_data res \<noteq> None then
              bindM (for_each (lr_data res) (nat (sint (lr_rows res))) (lr_rowlist res) (free_row isSender res)) (\<lambda>_.
              pfree (lr_data res))
            else returnM ()) (\<lambda>_.
     bindM (for_each (lr_names res) (nat (sint (lr_cols res))) (zip (lr_namelist res) (lr_typelist res)) (\<lambda>(nm, t).
       bindM (free_unless_null nm) (\<lambda>_.
       bindM (readM (lr_types res)) (\<lambda>_. free_type t)))) (\<lambda>_.
     bindM (pfree (lr_types res)) (\<lambda>_.
     bindM (pfree (lr_names res)) (\<lambda>_.
     pfree (Some (lr_self res)))))))"

definition free_error :: "lerror option \<Rightarrow> (heap, unit) prog" where
  "free_error msg =
     (case msg of
        None \<Rightarrow> returnM ()
      | Some e \<Rightarrow>
          bindM (readM (Some (le_self e))) (\<lambda>_.
          bindM (free_unless_null (le_message e)) (\<lambda>_.
          bindM (free_unless_null (le_stack e)) (\<lambda>_.
          pfree (Some (le_self e))))))"

text \<open>The iterator itself belongs to the message.\<close>

definition plc_backend_array_free :: "literator \<Rightarrow> (heap, unit) prog" where
  "plc_backend_array_free iter =
     bindM (readM (Some (it_meta iter))) (\<lambda>_.
     bindM (if 0 < sint (it_ndims iter) then pfree (it_dims iter) else returnM ()) (\<lambda>_.
     bindM (pfree (Some (it_meta iter))) (\<lambda>_.
     pfree (Some (it_position iter)))))"

text \<open>\<open>free_proc_info\<close>\<close>

definition free_proc :: "lproc \<Rightarrow> (heap, unit) prog" where
  "free_proc pr =
     bindM (readM (Some (lp_self pr))) (\<lambda>_.
     bindM (for_each (lp_names pr) (nat (sint (lp_nargs pr))) (zip (lp_namelist pr) (lp_typelist pr)) (\<lambda>(nm, t).
       bindM (free_unless_null nm) (\<lambda>_.
       bindM (readM (lp_types pr)) (\<lambda>_. free_type_info t)))) (\<lambda>_.
     bindM (if 0 < sint (lp_nargs pr) then bindM (pfree (lp_names pr)) (\<lambda>_. pfree (lp_types pr)) else returnM ()) (\<lambda>_.
     pfree (Some (lp_self pr)))))"

text \<open>
  The end of \<open>create_sql_result\<close>: the descriptions of the columns, in the block \<open>resTypes\<close>, are freed. An iterator that
  \<open>plc_datum_as_array\<close> made for a column points into this block, and \<open>plc_backend_array_next\<close> goes through it for the
  description of the elements.
\<close>

definition free_columns :: "addr \<Rightarrow> i32 \<Rightarrow> ltype list \<Rightarrow> (heap, unit) prog" where
  "free_columns resTypes ncols ts =
     bindM (for_each (Some resTypes) (nat (sint ncols)) ts free_type_info) (\<lambda>_.
     pfree (Some resTypes))"

definition array_position :: "addr \<Rightarrow> addr \<Rightarrow> ltype \<Rightarrow> lposition" where
  "array_position self block type = \<lparr>po_self = self, po_type = block, po_subs = lblock type\<rparr>"

definition array_next_reads :: "lposition \<Rightarrow> bool \<Rightarrow> (heap, unit) prog" where
  "array_next_reads pos isn =
     bindM (readM (Some (po_self pos))) (\<lambda>_.
     bindM (readM (Some (po_type pos))) (\<lambda>_.
     if isn then returnM () else readM (po_subs pos)))"

section \<open>What a program frees\<close>

text \<open>\<open>frees K m bs\<close>: \<open>m\<close> frees exactly the blocks \<open>bs\<close>, each once, and uses no others than these and \<open>K\<close>.\<close>

named_theorems frees_intros "rules for what programs free"

definition frees :: "addr set \<Rightarrow> (heap, unit) prog \<Rightarrow> addr list \<Rightarrow> bool" where
  "frees K m bs \<longleftrightarrow> (\<forall>h. set bs \<union> K \<subseteq> h \<and> distinct bs \<and> K \<inter> set bs = {} \<longrightarrow> m h = Ok () (h - set bs))"

lemma frees_mono: "frees K m bs \<Longrightarrow> K \<subseteq> K' \<Longrightarrow> frees K' m bs"
  unfolding frees_def by blast

lemma frees_return [frees_intros]: "frees K (returnM ()) []"
  by (simp add: frees_def returnM_def)

lemma frees_pfree: "p = Some a \<Longrightarrow> frees K (pfree p) [a]"
  by (simp add: frees_def pfree_def)

primrec block_list :: "addr option \<Rightarrow> addr list" where
  "block_list None = []"
| "block_list (Some a) = [a]"

lemma frees_unless_null [frees_intros]: "frees K (free_unless_null p) (block_list p)"
  by (cases p) (simp_all add: free_unless_null_def frees_return frees_pfree)

lemma frees_bind: "frees (K \<union> set bs') m bs \<Longrightarrow> frees K m' bs' \<Longrightarrow> frees K (bindM m (\<lambda>_. m')) (bs @ bs')"
  unfolding frees_def
proof (intro allI impI, elim conjE)
  fix h
  assume m: "\<forall>h. set bs \<union> (K \<union> set bs') \<subseteq> h \<and> distinct bs \<and> (K \<union> set bs') \<inter> set bs = {} \<longrightarrow> m h = Ok () (h - set bs)"
    and m': "\<forall>h. set bs' \<union> K \<subseteq> h \<and> distinct bs' \<and> K \<inter> set bs' = {} \<longrightarrow> m' h = Ok () (h - set bs')"
    and h: "set (bs @ bs') \<union> K \<subseteq> h" "distinct (bs @ bs')" "K \<inter> set (bs @ bs') = {}"
  have "m h = Ok () (h - set bs)" using h by (intro m [rule_format]) auto
  moreover have "m' (h - set bs) = Ok () (h - set bs - set bs')" using h by (intro m' [rule_format]) auto
  ultimately show "bindM m (\<lambda>_. m') h = Ok () (h - set (bs @ bs'))" by (simp add: Diff_Un Diff_eq Int_assoc)
qed

lemma frees_read: "p = Some a \<Longrightarrow> a \<in> K \<union> set bs \<Longrightarrow> frees K m bs \<Longrightarrow> frees K (bindM (readM p) (\<lambda>_. m)) bs"
  by (auto simp: frees_def readM_def bindM_def)

lemma frees_for_each:
  assumes "n = length xs" and "xs \<noteq> [] \<Longrightarrow> \<exists>a \<in> K. p = Some a" and "\<And>x. x \<in> set xs \<Longrightarrow> frees K (f x) (g x)"
  shows "frees K (for_each p n xs f) (concat (map g xs))"
  using assms
proof (induction xs arbitrary: n)
  case (Cons x xs)
  from Cons.prems(2) obtain a where a: "a \<in> K" "p = Some a" by auto
  have "frees K (for_each p (length xs) xs f) (concat (map g xs))"
    using Cons.prems by (intro Cons.IH) auto
  moreover have "frees (K \<union> set (concat (map g xs))) (f x) (g x)"
    using Cons.prems(3) [of x] by (auto intro: frees_mono)
  ultimately have "frees K (bindM (f x) (\<lambda>_. for_each p (length xs) xs f)) (g x @ concat (map g xs))"
    by (intro frees_bind)
  from frees_read [OF a(2) _ this] a(1) Cons.prems(1) show ?case by simp
qed (simp add: frees_return)

end
