(* ===== verification/Release_Props.thy ===== *)
theory Release_Props
  imports Release
begin

text \<open>
  What releasing a message frees: every block it consists of, each once, when its layout is the one the receive and the
  create functions make; and what is left when a row holds another row.
\<close>

section \<open>The blocks of a layout\<close>

fun type_blocks :: "ltype \<Rightarrow> addr list" where
  "type_blocks (LType t nm n blk subs) =
     block_list nm @ (if 0 < sint n then concat (map type_blocks subs) @ block_list blk else [])"

fun type_laid_out :: "ltype \<Rightarrow> bool" where
  "type_laid_out (LType t nm n blk subs) \<longleftrightarrow> length subs = nat (sint n) \<and> (subs \<noteq> [] \<longrightarrow> blk \<noteq> None)
     \<and> (\<forall>s \<in> set subs. type_laid_out s)"

lemma opt_size: "c \<in> set cs \<Longrightarrow> size_option (size_prod (\<lambda>_. 0) size) c \<le> size_list (size_option (size_prod (\<lambda>_. 0) size)) cs"
  by (induction cs) auto

function (sequential) inner_blocks :: "lvalue \<Rightarrow> addr list" and value_blocks :: "(addr \<times> lvalue) option \<Rightarrow> addr list" where
  "inner_blocks Plain = []"
| "inner_blocks (LArray m cells) = concat (map (\<lambda>c. value_blocks c) cells)
     @ (if 0 < sint (ar_size m) then block_list (ar_data m) @ block_list (ar_nulls m) else [])
     @ (if 0 < sint (ar_ndims m) then block_list (ar_dims m) else []) @ [ar_meta m]"
| "inner_blocks (LUdt blk raws) = concat (map (\<lambda>(isn, val). value_blocks val) raws) @ [blk]"
| "value_blocks None = []"
| "value_blocks (Some (a, v)) = inner_blocks v @ [a]"
  by pat_completeness auto
termination
  by (relation "measure (case_sum (\<lambda>v. 2 * size v) (\<lambda>v. Suc (2 * size_option (size_prod (\<lambda>_. 0) size) v)))")
    (auto dest!: raw_size opt_size)

section \<open>Layouts of messages\<close>

text \<open>
  A value of a type. On the sending side the channel has already released what an iterator points to, so an array is one
  block there. The elements of an array are NULL, texts or binary values, or rows; a row holds no rows.
\<close>

inductive laid_out :: "bool \<Rightarrow> ltype \<Rightarrow> lvalue \<Rightarrow> bool" for sender where
  plain: "lty t \<noteq> PLC_DATA_UDT \<Longrightarrow> sender \<or> lty t \<noteq> PLC_DATA_ARRAY \<Longrightarrow> laid_out sender t Plain"
| array: "\<not> sender \<Longrightarrow> lty t = PLC_DATA_ARRAY \<Longrightarrow> lsubs t = sub # subs \<Longrightarrow>
     length cells = nat (sint (ar_size m)) \<Longrightarrow> cells \<noteq> [] \<longrightarrow> ar_data m \<noteq> None \<and> ar_nulls m \<noteq> None \<Longrightarrow>
     0 < sint (ar_ndims m) \<longrightarrow> ar_dims m \<noteq> None \<Longrightarrow>
     (\<And>a v. Some (a, v) \<in> set cells \<Longrightarrow>
        (ar_type m = PLC_DATA_TEXT \<or> ar_type m = PLC_DATA_BYTEA) \<and> v = Plain
        \<or> ar_type m = PLC_DATA_UDT \<and> lty sub = PLC_DATA_UDT \<and> laid_out sender sub v) \<Longrightarrow>
     laid_out sender t (LArray m cells)"
| row: "lty t = PLC_DATA_UDT \<Longrightarrow> length raws = length (lsubs t) \<Longrightarrow>
     (\<And>s isn val. (s, isn, val) \<in> set (zip (lsubs t) raws) \<Longrightarrow>
        isn \<and> val = None \<or> \<not> isn \<and> lty s \<noteq> PLC_DATA_UDT \<and> (\<exists>a v. val = Some (a, v) \<and> laid_out sender s v)) \<Longrightarrow>
     laid_out sender t (LUdt blk raws)"

lemma frees_type: "type_laid_out t \<Longrightarrow> frees {} (free_type t) (type_blocks t)"
proof (induction t rule: free_type.induct)
  case (1 t nm n blk subs)
  show ?case
  proof (cases "0 < sint n")
    case True
    with 1 obtain a where a: "blk = Some a" by (cases subs) auto
    have "frees {a} (for_each blk (nat (sint n)) subs free_type) (concat (map type_blocks subs))"
      using 1 True a by (intro frees_for_each) (auto intro: frees_mono)
    with a True show ?thesis
      by (auto intro!: frees_bind frees_unless_null frees_pfree intro: frees_mono)
  next
    case False
    then show ?thesis using frees_bind [OF frees_unless_null frees_return, of "{}" nm] by simp
  qed
qed

inductive_cases laid_out_plainE: "laid_out sender t Plain"
inductive_cases laid_out_arrayE: "laid_out sender t (LArray m cells)"
inductive_cases laid_out_rowE: "laid_out sender t (LUdt blk raws)"

lemma laid_out_kind:
  "laid_out sender t v \<Longrightarrow> lty t \<noteq> PLC_DATA_UDT \<Longrightarrow> sender \<or> lty t \<noteq> PLC_DATA_ARRAY \<Longrightarrow> v = Plain"
  by (auto elim: laid_out.cases)

lemma sub_blocks:
  assumes "type_laid_out t" and "s \<in> set (lsubs t)"
  shows "type_laid_out s" "set (type_blocks s) \<subseteq> set (type_blocks t)" "\<exists>a. lblock t = Some a \<and> a \<in> set (type_blocks t)"
proof -
  obtain ty nm n blk subs where t: "t = LType ty nm n blk subs" by (cases t)
  with assms have "0 < sint n" "blk \<noteq> None" by (cases "nat (sint n)"; auto)+
  with assms t show "type_laid_out s" "set (type_blocks s) \<subseteq> set (type_blocks t)"
    "\<exists>a. lblock t = Some a \<and> a \<in> set (type_blocks t)"
    by auto
qed

lemma lsubs_count: "type_laid_out t \<Longrightarrow> length (lsubs t) = nat (sint (ln t))"
  by (cases t) simp

text \<open>\<open>releases\<close>: what \<open>plc_free_udt\<close> and \<open>plc_free_array\<close> do with a pointer to a value.\<close>

definition releases :: "bool \<Rightarrow> ltype \<Rightarrow> lvalue \<Rightarrow> bool" where
  "releases sender t v \<longleftrightarrow> (\<forall>K a. set (type_blocks t) \<subseteq> K \<longrightarrow>
     (lty t = PLC_DATA_UDT \<longrightarrow> a \<in> K \<longrightarrow> frees K (plc_free_udt (Some (a, v)) t sender) (inner_blocks v))
     \<and> (\<not> sender \<and> lty t = PLC_DATA_ARRAY \<longrightarrow> frees K (plc_free_array (Some (a, v)) t sender) (inner_blocks v @ [a])))"

lemma frees_pointer:
  assumes "releases sender t v" and "laid_out sender t v" and "set (type_blocks t) \<subseteq> K" and "lty t \<noteq> PLC_DATA_UDT"
  shows "frees K (if \<not> sender \<and> lty t = PLC_DATA_ARRAY then plc_free_array (Some (a, v)) t sender
      else pfree (map_option fst (Some (a, v)))) (value_blocks (Some (a, v)))"
proof (cases "\<not> sender \<and> lty t = PLC_DATA_ARRAY")
  case True
  with assms(1,3) show ?thesis by (simp add: releases_def)
next
  case False
  with laid_out_kind [OF assms(2,4)] have "v = Plain" by blast
  with False show ?thesis by (auto simp: frees_pfree)
qed

lemma releases_row:
  assumes t: "type_laid_out t" "lty t = PLC_DATA_UDT" "length raws = length (lsubs t)"
    and raws: "\<And>s isn val. (s, isn, val) \<in> set (zip (lsubs t) raws) \<Longrightarrow> isn \<and> val = None
      \<or> \<not> isn \<and> lty s \<noteq> PLC_DATA_UDT \<and> (\<exists>a v. val = Some (a, v) \<and> laid_out sender s v \<and> releases sender s v)"
  shows "releases sender t (LUdt blk raws)"
  unfolding releases_def
proof (intro allI impI conjI)
  fix K a
  assume K: "set (type_blocks t) \<subseteq> K" and a: "a \<in> K"
  let ?K = "insert blk K"
  let ?f = "\<lambda>(sub, isn, val). bindM (readM (Some a)) (\<lambda>_. bindM (readM (Some blk)) (\<lambda>_.
      if \<not> isn then if \<not> sender \<and> lty sub = PLC_DATA_ARRAY then plc_free_array val sub sender else pfree (map_option fst val)
      else returnM ()))"
  have "frees ?K (for_each (lblock t) (nat (sint (ln t))) (zip (lsubs t) raws) ?f)
      (concat (map (\<lambda>(s, isn, val). value_blocks val) (zip (lsubs t) raws)))"
  proof (rule frees_for_each)
    show "nat (sint (ln t)) = length (zip (lsubs t) raws)" using t lsubs_count [OF t(1)] by simp
    assume "zip (lsubs t) raws \<noteq> []"
    then obtain s where "s \<in> set (lsubs t)" by (cases "lsubs t") auto
    from sub_blocks(3) [OF t(1) this] K show "\<exists>a \<in> ?K. lblock t = Some a" by auto
  next
    fix x
    assume x: "x \<in> set (zip (lsubs t) raws)"
    obtain s isn val where s: "x = (s, isn, val)" by (cases x)
    have sub: "set (type_blocks s) \<subseteq> ?K" using sub_blocks(2) [OF t(1)] x s K by (auto dest: set_zip_leftD)
    from raws [OF x [unfolded s]] have "frees ?K (if \<not> isn then if \<not> sender \<and> lty s = PLC_DATA_ARRAY
        then plc_free_array val s sender else pfree (map_option fst val) else returnM ()) (value_blocks val)"
    proof (elim disjE conjE exE)
      fix b v
      assume v: "\<not> isn" "lty s \<noteq> PLC_DATA_UDT" "val = Some (b, v)" "laid_out sender s v" "releases sender s v"
      show ?thesis using frees_pointer [OF v(5,4) sub v(2), of b] unfolding v(3) by (simp only: v(1) not_False_eq_True if_True)
    qed (simp add: frees_return)
    then show "frees ?K (?f x) ((\<lambda>(s, isn, val). value_blocks val) x)"
      unfolding s prod.case using a by (intro frees_read) auto
  qed
  moreover have "map (\<lambda>(s, isn, val). value_blocks val) (zip (lsubs t) raws) = map (\<lambda>(isn, val). value_blocks val) raws"
    using t(3) by (intro nth_equalityI) (auto split: prod.splits)
  ultimately have loop: "frees ?K (for_each (lblock t) (nat (sint (ln t))) (zip (lsubs t) raws) ?f)
      (concat (map (\<lambda>(isn, val). value_blocks val) raws))" by simp
  have "frees K (bindM (readM (Some a)) (\<lambda>_. pfree (Some blk))) [blk]"
    using a by (intro frees_read frees_pfree) auto
  from frees_bind [OF _ this] loop show "frees K (plc_free_udt (Some (a, LUdt blk raws)) t sender) (inner_blocks (LUdt blk raws))"
    by (simp add: plc_free_udt.simps)
qed (use t(2) in simp)

lemma bind_unit: "bindM m (\<lambda>_ :: unit. returnM ()) = m"
  by (auto simp: bindM_def returnM_def split: outcome.splits)

lemma frees_if: "(b \<Longrightarrow> frees K m bs) \<Longrightarrow> (\<not> b \<Longrightarrow> bs = []) \<Longrightarrow> frees K (if b then m else returnM ()) bs"
  by (auto intro: frees_return)

lemma frees_steps:
  assumes "frees (K \<union> set ds) (bindM T (\<lambda>_. R)) cs" and "frees K Z ds" and "x \<in> set ds" and "y \<in> set ds"
  shows "frees K (bindM (readM (Some x)) (\<lambda>_. bindM (readM (Some y)) (\<lambda>_. bindM T (\<lambda>_. bindM R (\<lambda>_. Z))))) (cs @ ds)"
  using frees_bind [OF assms(1,2)] assms(3,4) by (intro frees_read [OF refl]) (simp_all add: bindM_assoc)

text \<open>The end of \<open>plc_free_array\<close>.\<close>

abbreviation array_blocks :: "larray \<Rightarrow> addr list" where
  "array_blocks m \<equiv> (if 0 < sint (ar_size m) then block_list (ar_data m) @ block_list (ar_nulls m) else [])
     @ (if 0 < sint (ar_ndims m) then block_list (ar_dims m) else []) @ [ar_meta m]"

lemma data_block: "0 < sint (ar_size m) \<Longrightarrow> ar_data m = Some b \<Longrightarrow> b \<in> set (array_blocks m @ xs)"
  by simp

lemma last_blocks: "ar_meta m \<in> set (array_blocks m @ xs)" "x \<in> set (xs @ [x])"
  by simp_all

lemma frees_array:
  assumes m: "0 < sint (ar_size m) \<longrightarrow> ar_data m \<noteq> None \<and> ar_nulls m \<noteq> None" "0 < sint (ar_ndims m) \<longrightarrow> ar_dims m \<noteq> None"
  shows "frees K (bindM (if 0 < sint (ar_size m) then bindM (pfree (ar_data m)) (\<lambda>_. pfree (ar_nulls m)) else returnM ()) (\<lambda>_.
      bindM (if 0 < sint (ar_ndims m) then pfree (ar_dims m) else returnM ()) (\<lambda>_.
      bindM (pfree (Some (ar_meta m))) (\<lambda>_. pfree (Some a))))) (array_blocks m @ [a])"
proof -
  have "frees K' (if 0 < sint (ar_size m) then bindM (pfree (ar_data m)) (\<lambda>_. pfree (ar_nulls m)) else returnM ())
      (if 0 < sint (ar_size m) then block_list (ar_data m) @ block_list (ar_nulls m) else [])" for K'
  proof (rule frees_if)
    assume pos: "0 < sint (ar_size m)"
    with m(1) obtain x y where "ar_data m = Some x" "ar_nulls m = Some y" by blast
    with frees_bind [OF frees_pfree frees_pfree, OF refl refl, of K' x y] pos
    show "frees K' (bindM (pfree (ar_data m)) (\<lambda>_. pfree (ar_nulls m)))
      (if 0 < sint (ar_size m) then block_list (ar_data m) @ block_list (ar_nulls m) else [])" by simp
  qed simp
  moreover have "frees K' (if 0 < sint (ar_ndims m) then pfree (ar_dims m) else returnM ())
      (if 0 < sint (ar_ndims m) then block_list (ar_dims m) else [])" for K'
  proof (rule frees_if)
    assume pos: "0 < sint (ar_ndims m)"
    with m(2) obtain x where "ar_dims m = Some x" by blast
    with pos show "frees K' (pfree (ar_dims m)) (if 0 < sint (ar_ndims m) then block_list (ar_dims m) else [])"
      by (simp add: frees_pfree)
  qed simp
  ultimately show ?thesis
    unfolding append_assoc by (intro frees_bind frees_pfree refl)
qed

text \<open>The cells.\<close>

lemma frees_texts:
  assumes "length cells = n" and "cells \<noteq> [] \<Longrightarrow> \<exists>b \<in> K. p = Some b" and "\<And>a v. Some (a, v) \<in> set cells \<Longrightarrow> v = Plain"
  shows "frees K (for_each p n cells (\<lambda>c. free_unless_null (map_option fst c))) (concat (map value_blocks cells))"
proof (rule frees_for_each)
  fix c
  assume c: "c \<in> set cells"
  have "value_blocks c = block_list (map_option fst c)"
  proof (cases c)
    case (Some d)
    obtain x v where d: "d = (x, v)" by (cases d)
    from assms(3) [of x v] c have "v = Plain" unfolding Some d .
    then show ?thesis by (simp add: Some d)
  qed simp
  then show "frees K (free_unless_null (map_option fst c)) (value_blocks c)" by (simp only: frees_unless_null)
qed (use assms in auto)

lemma frees_rows:
  assumes "length cells = n" and "cells \<noteq> [] \<Longrightarrow> \<exists>b \<in> K. p = Some b"
    and t: "lsubs t = sub # subs" "lblock t = Some b" "b \<in> K" "set (type_blocks sub) \<subseteq> K"
    and cells: "\<And>a v. Some (a, v) \<in> set cells \<Longrightarrow> lty sub = PLC_DATA_UDT \<and> releases sender sub v"
  shows "frees K (for_each p n cells (\<lambda>c. if c \<noteq> None then
      bindM (readM (lblock t)) (\<lambda>_.
      bindM (needM OutOfBounds (case lsubs t of [] \<Rightarrow> None | sub # _ \<Rightarrow> Some sub)) (\<lambda>sub.
      bindM (plc_free_udt c sub sender) (\<lambda>_. pfree (map_option fst c)))) else returnM ())) (concat (map value_blocks cells))"
proof (rule frees_for_each)
  fix c
  assume c: "c \<in> set cells"
  show "frees K (if c \<noteq> None then
      bindM (readM (lblock t)) (\<lambda>_.
      bindM (needM OutOfBounds (case lsubs t of [] \<Rightarrow> None | sub # _ \<Rightarrow> Some sub)) (\<lambda>sub.
      bindM (plc_free_udt c sub sender) (\<lambda>_. pfree (map_option fst c)))) else returnM ()) (value_blocks c)"
  proof (cases c)
    case (Some d)
    obtain x v where d: "d = (x, v)" by (cases d)
    have v: "lty sub = PLC_DATA_UDT \<and> releases sender sub v" using cells [of x v] c unfolding Some d .
    then have "frees (K \<union> set [x]) (plc_free_udt c sub sender) (inner_blocks v)"
      using t(4) unfolding Some d releases_def by (metis UnI2 le_supI1 list.set_intros(1))
    from frees_bind [OF this frees_pfree] have "frees K (bindM (plc_free_udt c sub sender) (\<lambda>_. pfree (map_option fst c))) (value_blocks c)"
      by (simp add: Some d)
    from frees_read [OF t(2) _ this] t(1,3) Some show ?thesis by simp
  qed (simp add: frees_return)
qed (use assms(1,2) in auto)

lemma releases_array:
  assumes t: "type_laid_out t" "lty t = PLC_DATA_ARRAY" "lsubs t = sub # subs"
    and m: "length cells = nat (sint (ar_size m))" "cells \<noteq> [] \<longrightarrow> ar_data m \<noteq> None \<and> ar_nulls m \<noteq> None"
      "0 < sint (ar_ndims m) \<longrightarrow> ar_dims m \<noteq> None"
    and cells: "\<And>a v. Some (a, v) \<in> set cells \<Longrightarrow> (ar_type m = PLC_DATA_TEXT \<or> ar_type m = PLC_DATA_BYTEA) \<and> v = Plain
        \<or> ar_type m = PLC_DATA_UDT \<and> lty sub = PLC_DATA_UDT \<and> releases sender sub v"
  shows "releases sender t (LArray m cells)"
  unfolding releases_def
proof (intro allI impI conjI)
  fix K a
  assume K: "set (type_blocks t) \<subseteq> K"
  let ?n = "nat (sint (ar_size m))" and ?cells = "concat (map value_blocks cells)" and ?ds = "array_blocks m @ [a]"
  let ?T = "if ar_type m = PLC_DATA_TEXT \<or> ar_type m = PLC_DATA_BYTEA then
      for_each (ar_data m) ?n cells (\<lambda>c. free_unless_null (map_option fst c)) else returnM ()"
  let ?row = "\<lambda>c. if c \<noteq> None then
      bindM (readM (lblock t)) (\<lambda>_.
      bindM (needM OutOfBounds (case lsubs t of [] \<Rightarrow> None | sub # _ \<Rightarrow> Some sub)) (\<lambda>sub.
      bindM (plc_free_udt c sub sender) (\<lambda>_. pfree (map_option fst c)))) else returnM ()"
  let ?R = "if ar_type m = PLC_DATA_UDT then for_each (ar_data m) ?n cells ?row else returnM ()"
  have size: "0 < sint (ar_size m)" if "cells \<noteq> []" using that m(1) by (cases "0 < sint (ar_size m)") simp_all
  have "cells \<noteq> []" if "0 < sint (ar_size m)" using that m(1) by (cases cells) simp_all
  with m(2) have data: "0 < sint (ar_size m) \<longrightarrow> ar_data m \<noteq> None \<and> ar_nulls m \<noteq> None" by blast
  define L where "L = K \<union> set ?ds"
  have KL: "K \<subseteq> L" by (simp only: L_def Un_upper1)
  have read: "\<exists>b \<in> L. ar_data m = Some b" if "cells \<noteq> []"
  proof -
    from that m(2) obtain b where "ar_data m = Some b" by blast
    with data_block [OF size [OF that] this] show ?thesis unfolding L_def by blast
  qed
  obtain b where b: "lblock t = Some b" "b \<in> L" using sub_blocks(3) [OF t(1), of sub] t(3) K KL by auto
  have sub: "set (type_blocks sub) \<subseteq> L" using sub_blocks(2) [OF t(1), of sub] t(3) K KL by auto
  have "frees L (bindM ?T (\<lambda>_. ?R)) ?cells"
  proof (cases "ar_type m = PLC_DATA_UDT")
    case True
    then have "lty sub = PLC_DATA_UDT \<and> releases sender sub v" if "Some (x, v) \<in> set cells" for x v using cells [OF that] by simp
    with True show ?thesis using frees_rows [OF m(1) read t(3) b sub] by simp
  next
    case False
    then have "v = Plain" if "Some (x, v) \<in> set cells" for x v using cells [OF that] by simp
    then have texts: "frees L (for_each (ar_data m) ?n cells (\<lambda>c. free_unless_null (map_option fst c))) ?cells"
      by (intro frees_texts [OF m(1) read]) auto
    have "value_blocks c = []" if "c \<in> set cells" "\<not> (ar_type m = PLC_DATA_TEXT \<or> ar_type m = PLC_DATA_BYTEA)" for c
    proof (cases c)
      case (Some d)
      with that False cells [of "fst d" "snd d"] show ?thesis by simp
    qed simp
    then have nil: "?cells = []" if "\<not> (ar_type m = PLC_DATA_TEXT \<or> ar_type m = PLC_DATA_BYTEA)" using that by simp
    have "frees L (returnM ()) ?cells" if "\<not> (ar_type m = PLC_DATA_TEXT \<or> ar_type m = PLC_DATA_BYTEA)"
      unfolding nil [OF that] by (rule frees_return)
    with texts False show ?thesis by (simp only: if_False bindM_return bind_unit split: if_split) blast
  qed
  from frees_steps [OF this [unfolded L_def] frees_array [OF data m(3)] last_blocks(2) last_blocks(1)]
  have "frees K (bindM (readM (Some a)) (\<lambda>_. bindM (readM (Some (ar_meta m))) (\<lambda>_. bindM ?T (\<lambda>_. bindM ?R (\<lambda>_. 
      bindM (if 0 < sint (ar_size m) then bindM (pfree (ar_data m)) (\<lambda>_. pfree (ar_nulls m)) else returnM ()) (\<lambda>_.
      bindM (if 0 < sint (ar_ndims m) then pfree (ar_dims m) else returnM ()) (\<lambda>_.
      bindM (pfree (Some (ar_meta m))) (\<lambda>_. pfree (Some a))))))))) (?cells @ ?ds)" .
  then show "frees K (plc_free_array (Some (a, LArray m cells)) t sender) (inner_blocks (LArray m cells) @ [a])"
    unfolding plc_free_array.simps option.case prod.case lvalue.case inner_blocks.simps append_assoc .
qed (use t(2) in simp)

lemma laid_out_releases: "laid_out sender t v \<Longrightarrow> type_laid_out t \<Longrightarrow> releases sender t v"
proof (induction rule: laid_out.induct)
  case (plain t)
  then show ?case by (auto simp: releases_def)
next
  case (array t sub subs cells m)
  have "type_laid_out sub" using sub_blocks(1) [OF array.prems, of sub] array.hyps(3) by simp
  with array.IH have "(ar_type m = PLC_DATA_TEXT \<or> ar_type m = PLC_DATA_BYTEA) \<and> v = Plain
      \<or> ar_type m = PLC_DATA_UDT \<and> lty sub = PLC_DATA_UDT \<and> releases sender sub v" if "Some (a, v) \<in> set cells" for a v
    using that by blast
  then show ?case using array by (intro releases_array) 
next
  case (row t raws blk)
  have "type_laid_out s" if "(s, isn, val) \<in> set (zip (lsubs t) raws)" for s isn val
    using sub_blocks(1) [OF row.prems] set_zip_leftD [OF that] by blast
  with row show ?case by (intro releases_row) blast+
qed

section \<open>Messages\<close>

definition raw_laid_out :: "bool \<Rightarrow> ltype \<Rightarrow> lraw \<Rightarrow> bool" where
  "raw_laid_out sender t d \<longleftrightarrow> (\<forall>a v. snd d = Some (a, v) \<longrightarrow> laid_out sender t v)"

lemma frees_data:
  assumes t: "type_laid_out t" "set (type_blocks t) \<subseteq> K" and d: "raw_laid_out sender t d"
  shows "frees K (free_data sender t d) (value_blocks (snd d))"
proof (cases "snd d")
  case (Some p)
  obtain a v where p: "p = (a, v)" by (cases p)
  have v: "laid_out sender t v" using d by (simp add: raw_laid_out_def Some p)
  note rel = laid_out_releases [OF v t(1)]
  show ?thesis
  proof (cases "lty t = PLC_DATA_UDT")
    case True
    have "frees (K \<union> set [a]) (plc_free_udt (Some (a, v)) t sender) (inner_blocks v)"
      using rel True t(2) unfolding releases_def by (metis UnI2 le_supI1 list.set_intros(1))
    from frees_bind [OF this frees_pfree] True show ?thesis by (simp add: free_data_def Some p)
  next
    case False
    then have eq: "free_data sender t d = (if \<not> sender \<and> lty t = PLC_DATA_ARRAY then plc_free_array (Some (a, v)) t sender
        else pfree (map_option fst (Some (a, v))))" by (auto simp: free_data_def Some p)
    show ?thesis unfolding eq Some p by (rule frees_pointer [OF rel v t(2) False])
  qed
qed (simp add: free_data_def frees_return)

definition argument_blocks :: "bool \<Rightarrow> largument \<Rightarrow> addr list" where
  "argument_blocks shared a = (if shared then [] else block_list (la_name a)) @ value_blocks (snd (la_data a)) @ type_blocks (la_type a)"

definition callreq_blocks :: "bool \<Rightarrow> lcallreq \<Rightarrow> addr list" where
  "callreq_blocks shared q = (if shared then [] else block_list (lc_name q) @ block_list (lc_src q))
     @ concat (map (argument_blocks shared) (lc_arglist q)) @ block_list (lc_args q) @ type_blocks (lc_ret q) @ [lc_self q]"

definition callreq_laid_out :: "bool \<Rightarrow> bool \<Rightarrow> lcallreq \<Rightarrow> bool" where
  "callreq_laid_out shared sender q \<longleftrightarrow> (shared \<or> lc_name q \<noteq> None \<and> lc_src q \<noteq> None) \<and> lc_args q \<noteq> None
     \<and> length (lc_arglist q) = nat (sint (lc_nargs q)) \<and> type_laid_out (lc_ret q)
     \<and> (\<forall>a \<in> set (lc_arglist q). type_laid_out (la_type a) \<and> raw_laid_out sender (la_type a) (la_data a))"

lemma frees_argument:
  assumes "type_laid_out (la_type a)" and "raw_laid_out sender (la_type a) (la_data a)"
  shows "frees K (bindM (if \<not> shared then free_unless_null (la_name a) else returnM ()) (\<lambda>_.
       bindM (free_data sender (la_type a) (la_data a)) (\<lambda>_. free_type (la_type a)))) (argument_blocks shared a)"
  unfolding argument_blocks_def
proof (intro frees_bind frees_data assms)
  show "frees K' (if \<not> shared then free_unless_null (la_name a) else returnM ()) (if shared then [] else block_list (la_name a))" for K'
    by (simp add: frees_return frees_unless_null)
  show "frees K (free_type (la_type a)) (type_blocks (la_type a))" by (rule frees_mono [OF frees_type [OF assms(1)]]) simp
qed simp

lemma frees_callreq:
  assumes "callreq_laid_out shared sender q"
  shows "frees {} (free_callreq q shared sender) (callreq_blocks shared q)"
proof -
  obtain p where p: "lc_args q = Some p" using assms by (auto simp: callreq_laid_out_def)
  have names: "frees K (if \<not> shared then bindM (pfree (lc_name q)) (\<lambda>_. pfree (lc_src q)) else returnM ())
      (if shared then [] else block_list (lc_name q) @ block_list (lc_src q))" for K
    using assms by (auto simp: callreq_laid_out_def frees_return intro!: frees_bind frees_pfree)
  have args: "frees K (for_each (lc_args q) (nat (sint (lc_nargs q))) (lc_arglist q) (\<lambda>arg.
       bindM (if \<not> shared then free_unless_null (la_name arg) else returnM ()) (\<lambda>_.
       bindM (free_data sender (la_type arg) (la_data arg)) (\<lambda>_. free_type (la_type arg)))))
      (concat (map (argument_blocks shared) (lc_arglist q)))" if "p \<in> K" for K
    using assms that p by (intro frees_for_each frees_argument) (auto simp: callreq_laid_out_def)
  have ret: "frees K (free_type (lc_ret q)) (type_blocks (lc_ret q))" for K
    using assms by (intro frees_mono [OF frees_type]) (auto simp: callreq_laid_out_def)
  show ?thesis
    unfolding free_callreq_def callreq_blocks_def p block_list.simps
    by (rule frees_read [OF refl], simp) (intro frees_bind names args [unfolded p] ret frees_pfree refl, simp)
qed

fun row_blocks :: "(addr \<times> lraw list) option \<Rightarrow> addr list" where
  "row_blocks None = []"
| "row_blocks (Some (blk, raws)) = concat (map (\<lambda>d. value_blocks (snd d)) raws) @ [blk]"

definition result_blocks :: "lresult \<Rightarrow> addr list" where
  "result_blocks r = (if lr_data r = None then [] else concat (map row_blocks (lr_rowlist r)) @ block_list (lr_data r))
     @ concat (map (\<lambda>(nm, t). block_list nm @ type_blocks t) (zip (lr_namelist r) (lr_typelist r)))
     @ block_list (lr_types r) @ block_list (lr_names r) @ [lr_self r]"

definition result_laid_out :: "bool \<Rightarrow> lresult \<Rightarrow> bool" where
  "result_laid_out sender r \<longleftrightarrow> lr_types r \<noteq> None \<and> lr_names r \<noteq> None
     \<and> length (lr_typelist r) = nat (sint (lr_cols r)) \<and> length (lr_namelist r) = nat (sint (lr_cols r))
     \<and> (lr_data r \<noteq> None \<longrightarrow> length (lr_rowlist r) = nat (sint (lr_rows r)))
     \<and> (\<forall>t \<in> set (lr_typelist r). type_laid_out t)
     \<and> (\<forall>blk raws. Some (blk, raws) \<in> set (lr_rowlist r) \<longrightarrow> list_all2 (raw_laid_out sender) (lr_typelist r) raws)"

lemma frees_row:
  assumes r: "result_laid_out sender r" and row: "row \<in> set (lr_rowlist r)"
    and K: "\<exists>b \<in> K. lr_types r = Some b" "\<forall>t \<in> set (lr_typelist r). set (type_blocks t) \<subseteq> K"
  shows "frees K (free_row sender r row) (row_blocks row)"
proof (cases row)
  case (Some b)
  obtain blk raws where b: "b = (blk, raws)" by (cases b)
  have raws: "list_all2 (raw_laid_out sender) (lr_typelist r) raws"
    using r row by (simp add: result_laid_out_def Some b)
  obtain p where p: "lr_types r = Some p" "p \<in> K" using K(1) by blast
  have "frees (insert blk K) (for_each (Some blk) (nat (sint (lr_cols r))) (zip (lr_typelist r) raws)
      (\<lambda>(t, d). bindM (readM (lr_types r)) (\<lambda>_. free_data sender t d)))
      (concat (map (\<lambda>(t, d). value_blocks (snd d)) (zip (lr_typelist r) raws)))"
  proof (rule frees_for_each)
    show "nat (sint (lr_cols r)) = length (zip (lr_typelist r) raws)"
      using r list_all2_lengthD [OF raws] by (simp add: result_laid_out_def)
  next
    fix x
    assume x: "x \<in> set (zip (lr_typelist r) raws)"
    obtain t d where td: "x = (t, d)" by (cases x)
    have t: "t \<in> set (lr_typelist r)" "raw_laid_out sender t d"
      using x raws unfolding td by (auto dest: set_zip_leftD simp: list_all2_iff)
    moreover have "type_laid_out t" using r t(1) by (simp add: result_laid_out_def)
    ultimately have "frees (insert blk K) (free_data sender t d) (value_blocks (snd d))"
      using K(2) by (intro frees_data) auto
    from frees_read [OF p(1) _ this] p(2)
    show "frees (insert blk K) ((\<lambda>(t, d). bindM (readM (lr_types r)) (\<lambda>_. free_data sender t d)) x) ((\<lambda>(t, d). value_blocks (snd d)) x)"
      unfolding td prod.case by simp
  qed simp
  moreover have "map (\<lambda>(t, d). value_blocks (snd d)) (zip (lr_typelist r) raws) = map (\<lambda>d. value_blocks (snd d)) raws"
    using list_all2_lengthD [OF raws] by (intro nth_equalityI) simp_all
  ultimately have "frees (K \<union> set [blk]) (for_each (Some blk) (nat (sint (lr_cols r))) (zip (lr_typelist r) raws)
      (\<lambda>(t, d). bindM (readM (lr_types r)) (\<lambda>_. free_data sender t d))) (concat (map (\<lambda>d. value_blocks (snd d)) raws))" by simp
  from frees_bind [OF this frees_pfree [OF refl]] show ?thesis by (simp add: free_row_def Some b)
qed (simp add: free_row_def frees_return)

lemma frees_result:
  assumes r: "result_laid_out sender r"
  shows "frees {} (free_result r sender) (result_blocks r)"
proof -
  let ?names = "concat (map (\<lambda>(nm, t). block_list nm @ type_blocks t) (zip (lr_namelist r) (lr_typelist r)))"
  obtain p q where p: "lr_types r = Some p" and q: "lr_names r = Some q" using r by (auto simp: result_laid_out_def)
  have len: "length (lr_namelist r) = length (lr_typelist r)" using r by (simp add: result_laid_out_def)
  have sub: "set (type_blocks t) \<subseteq> set ?names" if "t \<in> set (lr_typelist r)" for t
  proof -
    from that len obtain nm where "(nm, t) \<in> set (zip (lr_namelist r) (lr_typelist r))"
      by (metis in_set_impl_in_set_zip2)
    then show ?thesis by fastforce
  qed
  have rows: "frees (set (?names @ [p] @ [q] @ [lr_self r])) (if lr_data r \<noteq> None then
       bindM (for_each (lr_data r) (nat (sint (lr_rows r))) (lr_rowlist r) (free_row sender r)) (\<lambda>_. pfree (lr_data r)) else returnM ())
      (if lr_data r = None then [] else concat (map row_blocks (lr_rowlist r)) @ block_list (lr_data r))"
  proof (cases "lr_data r")
    case (Some d)
    have "frees (set (?names @ [p] @ [q] @ [lr_self r]) \<union> set [d])
        (for_each (lr_data r) (nat (sint (lr_rows r))) (lr_rowlist r) (free_row sender r)) (concat (map row_blocks (lr_rowlist r)))"
      using r Some p sub by (intro frees_for_each frees_row) (auto simp: result_laid_out_def)
    from frees_bind [OF this frees_pfree] Some show ?thesis by simp
  qed (simp add: frees_return)
  have names: "frees (set ([p] @ [q] @ [lr_self r])) (for_each (lr_names r) (nat (sint (lr_cols r))) (zip (lr_namelist r) (lr_typelist r)) (\<lambda>(nm, t).
       bindM (free_unless_null nm) (\<lambda>_. bindM (readM (lr_types r)) (\<lambda>_. free_type t)))) ?names"
  proof (rule frees_for_each)
    fix x
    assume x: "x \<in> set (zip (lr_namelist r) (lr_typelist r))"
    obtain nm t where nt: "x = (nm, t)" by (cases x)
    have "type_laid_out t" using x r unfolding nt by (auto dest: set_zip_rightD simp: result_laid_out_def)
    then have "frees (set ([p] @ [q] @ [lr_self r])) (bindM (readM (lr_types r)) (\<lambda>_. free_type t)) (type_blocks t)"
      using p by (intro frees_read [OF p] frees_mono [OF frees_type]) auto
    then show "frees (set ([p] @ [q] @ [lr_self r])) ((\<lambda>(nm, t). bindM (free_unless_null nm) (\<lambda>_. bindM (readM (lr_types r)) (\<lambda>_. free_type t))) x)
        ((\<lambda>(nm, t). block_list nm @ type_blocks t) x)"
      unfolding nt prod.case by (intro frees_bind frees_unless_null)
  qed (use r q in \<open>auto simp: result_laid_out_def\<close>)
  show ?thesis
    unfolding free_result_def result_blocks_def p q block_list.simps
    by (rule frees_read [OF refl], simp) (intro frees_bind frees_mono [OF rows] frees_mono [OF names [unfolded p q]] frees_pfree refl Un_upper2)
qed

text \<open>
  C26: releasing a call or a result frees every block the message owns, each exactly once, and no other: on the side that
  received it and on the side that sent it; the strings that a shared call only borrows stay.
\<close>

theorem message_released:
  "(callreq_laid_out shared sender q \<and> distinct (callreq_blocks shared q) \<and> set (callreq_blocks shared q) \<subseteq> h
     \<longrightarrow> free_callreq q shared sender h = Ok () (h - set (callreq_blocks shared q)))
   \<and> (result_laid_out sender r \<and> distinct (result_blocks r) \<and> set (result_blocks r) \<subseteq> h
     \<longrightarrow> free_result r sender h = Ok () (h - set (result_blocks r)))"
  using frees_callreq [of shared sender q] frees_result [of sender r] by (auto simp: frees_def)

text \<open>Example: the call \<open>f(a text[])\<close> with an array of a NULL and a text, as the executor receives it, and a result without rows.\<close>

definition ex_text :: ltype where "ex_text = LType PLC_DATA_TEXT (Some 9) 0 None []"

definition ex_callreq :: lcallreq where
  "ex_callreq = \<lparr>lc_self = 1, lc_name = Some 2, lc_src = Some 3, lc_ret = LType PLC_DATA_INT4 None 0 None [], lc_nargs = 1,
     lc_args = Some 4, lc_arglist = [\<lparr>la_name = Some 5, la_type = LType PLC_DATA_ARRAY (Some 6) 1 (Some 7) [ex_text],
       la_data = (False, Some (10, LArray \<lparr>ar_type = PLC_DATA_TEXT, ar_ndims = 1, ar_size = 2, ar_meta = 11, ar_dims = Some 12,
          ar_data = Some 13, ar_nulls = Some 14\<rparr> [None, Some (15, Plain)]))\<rparr>]\<rparr>"

definition ex_empty_result :: lresult where
  "ex_empty_result = \<lparr>lr_self = 1, lr_rows = 0, lr_cols = 1, lr_data = None, lr_rowlist = [], lr_types = Some 2,
     lr_typelist = [ex_text], lr_names = Some 3, lr_namelist = [Some 4]\<rparr>"

lemma message_released_witness:
  "free_callreq ex_callreq False False {1..20} = Ok () ({1..20} - {1..7} - {9..15}) \<and> free_result ex_empty_result False {1..20} = Ok () ({1..20} - {1, 2, 3, 4, 9})"
proof -
  have call: "callreq_blocks False ex_callreq = [2, 3, 5, 15, 13, 14, 12, 11, 10, 6, 9, 7, 4, 1]"
    by (simp add: callreq_blocks_def ex_callreq_def argument_blocks_def ex_text_def)
  have "laid_out False (LType PLC_DATA_ARRAY (Some 6) 1 (Some 7) [ex_text]) (LArray \<lparr>ar_type = PLC_DATA_TEXT, ar_ndims = 1, ar_size = 2,
      ar_meta = 11, ar_dims = Some 12, ar_data = Some 13, ar_nulls = Some 14\<rparr> [None, Some (15, Plain)])"
    by (rule laid_out.array) auto
  then have "callreq_laid_out False False ex_callreq"
    by (simp add: callreq_laid_out_def ex_callreq_def raw_laid_out_def ex_text_def)
  moreover have "set (callreq_blocks False ex_callreq) = {1..7} \<union> {9..15}" unfolding call by (auto simp: atLeastAtMost_iff)
  moreover have "result_blocks ex_empty_result = [4, 9, 2, 3, 1]" "result_laid_out False ex_empty_result"
    by (simp_all add: result_blocks_def result_laid_out_def ex_empty_result_def ex_text_def)
  moreover have "set [4, 9, 2, 3, 1 :: nat] = {1, 2, 3, 4, 9}" by auto
  ultimately show ?thesis
    using message_released [of False False ex_callreq "{1..20}" ex_empty_result] call by (simp add: Diff_Un Diff_eq Int_assoc)
qed

text \<open>
  C40: a row inside a row is only partly released: the inner row's data and everything in it stay allocated. A text that is
  NULL without being marked so, as the peer can send it, makes the release of its row free NULL.
\<close>

theorem nested_row_leaks:
  assumes t: "lty t = PLC_DATA_UDT" "ln t = 1" "lsubs t = [s]" "lblock t = Some c" and h: "{a, blk, c} \<subseteq> h" "distinct [a, blk, c]"
  shows "(lty s = PLC_DATA_UDT \<and> b \<in> h \<and> b \<notin> {a, blk, c}
      \<longrightarrow> free_data sender t (False, Some (a, LUdt blk [(False, Some (b, LUdt inner raws))])) h = Ok () (h - {a, blk, b}))
    \<and> (lty s = PLC_DATA_TEXT \<longrightarrow> free_data sender t (False, Some (a, LUdt blk [(False, None)])) h = Stuck NullDeref)"
  using assms by (auto simp: free_data_def plc_free_udt.simps readM_def pfree_def bindM_def returnM_def)

lemma nested_row_leaks_witness:
  "free_data False (LType PLC_DATA_UDT None 1 (Some 3) [LType PLC_DATA_UDT None 1 (Some 4) [ex_text]])
     (False, Some (1, LUdt 2 [(False, Some (5, LUdt 6 [(False, Some (7, Plain))]))])) {1, 2, 3, 4, 5, 6, 7, 9} = Ok () {3, 4, 6, 7, 9}"
  using nested_row_leaks [of "LType PLC_DATA_UDT None 1 (Some 3) [LType PLC_DATA_UDT None 1 (Some 4) [ex_text]]"
      "LType PLC_DATA_UDT None 1 (Some 4) [ex_text]" 3 1 2 "{1, 2, 3, 4, 5, 6, 7, 9}" 5 False 6 "[(False, Some (7, Plain))]"]
  by auto

section \<open>Type descriptions\<close>

lemma frees_info: "type_laid_out t \<Longrightarrow> frees {} (free_type_info t) (type_blocks t)"
proof (induction t rule: free_type_info.induct)
  case (1 t nm n blk subs)
  show ?case
  proof (cases "0 < sint n")
    case True
    with 1 obtain a where a: "blk = Some a" by (cases subs) auto
    have "frees {a} (for_each blk (nat (sint n)) subs free_type_info) (concat (map type_blocks subs))"
      using 1 True a by (intro frees_for_each) (auto intro: frees_mono)
    with a True show ?thesis
      by (auto intro!: frees_bind frees_unless_null frees_pfree intro: frees_mono)
  next
    case False
    with 1(2) have "for_each blk (nat (sint n)) subs free_type_info = returnM ()" by simp
    with False show ?thesis using frees_bind [OF frees_unless_null frees_return, of "{}" nm] by simp
  qed
qed

section \<open>Descriptions of functions\<close>

definition proc_laid_out :: "lproc \<Rightarrow> bool" where
  "proc_laid_out pr \<longleftrightarrow> length (lp_namelist pr) = nat (sint (lp_nargs pr)) \<and> length (lp_typelist pr) = nat (sint (lp_nargs pr))
     \<and> (0 < sint (lp_nargs pr) \<longrightarrow> lp_names pr \<noteq> None \<and> lp_types pr \<noteq> None) \<and> (\<forall>t \<in> set (lp_typelist pr). type_laid_out t)"

definition argument_infos :: "lproc \<Rightarrow> addr list" where
  "argument_infos pr = concat (map (\<lambda>(nm, t). block_list nm @ type_blocks t) (zip (lp_namelist pr) (lp_typelist pr)))
     @ (if 0 < sint (lp_nargs pr) then block_list (lp_names pr) @ block_list (lp_types pr) else [])"

definition other_infos :: "lproc \<Rightarrow> addr list" where
  "other_infos pr = block_list (lp_name pr) @ block_list (lp_src pr) @ type_blocks (lp_ret pr)"

lemma frees_proc:
  assumes "proc_laid_out pr"
  shows "frees {} (free_proc pr) (argument_infos pr @ [lp_self pr])"
proof -
  let ?f = "\<lambda>(nm, t). bindM (free_unless_null nm) (\<lambda>_. bindM (readM (lp_types pr)) (\<lambda>_. free_type_info t))"
  let ?g = "\<lambda>(nm, t). block_list nm @ type_blocks t"
  let ?last = "pfree (Some (lp_self pr))"
  show ?thesis
  proof (cases "0 < sint (lp_nargs pr)")
    case True
    with assms obtain a b where ab: "lp_names pr = Some a" "lp_types pr = Some b" by (auto simp: proc_laid_out_def)
    have "frees {a, b} (for_each (lp_names pr) (nat (sint (lp_nargs pr))) (zip (lp_namelist pr) (lp_typelist pr)) ?f)
        (concat (map ?g (zip (lp_namelist pr) (lp_typelist pr))))"
    proof (rule frees_for_each)
      fix x
      assume x: "x \<in> set (zip (lp_namelist pr) (lp_typelist pr))"
      obtain nm t where nt: "x = (nm, t)" by (cases x)
      with x assms have "type_laid_out t" by (auto simp: proc_laid_out_def dest: set_zip_rightD)
      from frees_mono [OF frees_info [OF this]] have "frees {a, b} (bindM (readM (lp_types pr)) (\<lambda>_. free_type_info t)) (type_blocks t)"
        using ab(2) by (intro frees_read) auto
      then show "frees {a, b} (?f x) (?g x)" unfolding nt prod.case by (intro frees_bind frees_unless_null)
    qed (use assms ab in \<open>auto simp: proc_laid_out_def\<close>)
    note loop = frees_mono [OF this]
    have "frees {} (bindM (bindM (pfree (lp_names pr)) (\<lambda>_. pfree (lp_types pr))) (\<lambda>_. ?last)) (([a] @ [b]) @ [lp_self pr])"
      using ab by (intro frees_bind frees_pfree) simp_all
    from frees_bind [OF loop this] have "frees {} (bindM (for_each (lp_names pr) (nat (sint (lp_nargs pr)))
        (zip (lp_namelist pr) (lp_typelist pr)) ?f) (\<lambda>_. bindM (bindM (pfree (lp_names pr)) (\<lambda>_. pfree (lp_types pr))) (\<lambda>_. ?last)))
        (argument_infos pr @ [lp_self pr])"
      using True ab by (simp add: argument_infos_def)
    with True show ?thesis unfolding free_proc_def by (intro frees_read [OF refl]) auto
  next
    case False
    with assms have "lp_namelist pr = []" by (simp add: proc_laid_out_def)
    with False have "argument_infos pr = []" by (simp add: argument_infos_def)
    moreover have "frees {} (bindM (readM (Some (lp_self pr))) (\<lambda>_. ?last)) [lp_self pr]"
      by (intro frees_read frees_pfree) simp_all
    ultimately show ?thesis using False by (simp add: free_proc_def)
  qed
qed

text \<open>
  A description that leaves the cache is released only in part: the names and types of its arguments, their two arrays and the
  structure itself are freed, each once; its name, its source text and what its return type consists of stay allocated.
\<close>

lemma proc_info_released:
  assumes "proc_laid_out pr" and "set (other_infos pr) \<union> set (argument_infos pr @ [lp_self pr]) \<subseteq> h"
    and "distinct (other_infos pr @ argument_infos pr @ [lp_self pr])"
  shows "\<exists>h'. free_proc pr h = Ok () h' \<and> h' = h - set (argument_infos pr @ [lp_self pr]) \<and> set (other_infos pr) \<subseteq> h'"
  using frees_proc [OF assms(1)] assms(2,3) by (auto simp: frees_def)

text \<open>Example: \<open>f(a int4)\<close> that returns a composite type of one column.\<close>

lemma proc_info_released_witness:
  "free_proc \<lparr>lp_self = 1, lp_name = Some 2, lp_src = Some 3,
      lp_ret = LType PLC_DATA_UDT (Some 4) 1 (Some 5) [LType PLC_DATA_INT4 (Some 6) 0 None []], lp_nargs = 1, lp_names = Some 7,
      lp_namelist = [Some 8], lp_types = Some 9, lp_typelist = [LType PLC_DATA_INT4 None 0 None []]\<rparr> {1..9} = Ok () {2..6}"
proof -
  let ?pr = "\<lparr>lp_self = 1, lp_name = Some 2, lp_src = Some 3,
      lp_ret = LType PLC_DATA_UDT (Some 4) 1 (Some 5) [LType PLC_DATA_INT4 (Some 6) 0 None []], lp_nargs = 1, lp_names = Some 7,
      lp_namelist = [Some 8], lp_types = Some 9, lp_typelist = [LType PLC_DATA_INT4 None 0 None []]\<rparr>"
  have blocks: "other_infos ?pr = [2, 3, 4, 6, 5]" "argument_infos ?pr = [8, 7, 9]"
    by (simp_all add: other_infos_def argument_infos_def)
  have laid: "proc_laid_out ?pr" by (simp add: proc_laid_out_def)
  have "set (other_infos ?pr) \<union> set (argument_infos ?pr @ [lp_self ?pr]) \<subseteq> {1..9}"
    "distinct (other_infos ?pr @ argument_infos ?pr @ [lp_self ?pr])"
    unfolding blocks by auto
  from proc_info_released [OF laid this] have "free_proc ?pr {1..9} = Ok () ({1..9} - set (argument_infos ?pr @ [lp_self ?pr]))"
    by blast
  moreover have "{1..9} - set (argument_infos ?pr @ [lp_self ?pr]) = {2..6}"
    unfolding blocks by auto
  ultimately show ?thesis by simp
qed

section \<open>The columns of a statement's result\<close>

definition column_blocks :: "addr \<Rightarrow> ltype list \<Rightarrow> addr list" where
  "column_blocks block ts = concat (map type_blocks ts) @ [block]"

lemma frees_columns:
  assumes "length ts = nat (sint n)" and "\<forall>t \<in> set ts. type_laid_out t"
  shows "frees {} (free_columns block n ts) (column_blocks block ts)"
proof -
  have "frees {block} (for_each (Some block) (nat (sint n)) ts free_type_info) (concat (map type_blocks ts))"
    using assms by (intro frees_for_each frees_mono [OF frees_info]) auto
  then show ?thesis unfolding free_columns_def column_blocks_def by (intro frees_bind frees_pfree) (simp_all add: frees_mono)
qed

text \<open>
  C33: \<open>create_sql_result\<close> frees the block of the descriptions of its columns, and everything they consist of, before its result is
  sent. The iterator of an array column reads the description in that block for every element: before the end of
  \<open>create_sql_result\<close> it could, and after it the first \<open>next\<close> reads freed memory.
\<close>

theorem released_columns_dangle:
  assumes ts: "length ts = nat (sint n)" "\<forall>t \<in> set ts. type_laid_out t"
    and h: "distinct (column_blocks block ts)" "set (column_blocks block ts) \<subseteq> h"
    and t: "t \<in> set ts" "lsubs t \<noteq> []" and pos: "p \<in> h" "p \<notin> set (column_blocks block ts)"
  shows "free_columns block n ts h = Ok () (h - set (column_blocks block ts))
    \<and> array_next_reads (array_position p block t) isn h = Ok () h
    \<and> array_next_reads (array_position p block t) isn (h - set (column_blocks block ts)) = Stuck UseAfterFree"
proof -
  have "free_columns block n ts h = Ok () (h - set (column_blocks block ts))"
    using frees_columns [OF ts, of block] h by (simp add: frees_def)
  moreover obtain s where "s \<in> set (lsubs t)" using t(2) by (cases "lsubs t") auto
  from sub_blocks(3) [OF _ this] ts(2) t(1) obtain a where a: "lblock t = Some a" "a \<in> set (type_blocks t)" by auto
  then have "a \<in> set (column_blocks block ts)" "block \<in> set (column_blocks block ts)"
    using t(1) by (auto simp: column_blocks_def)
  ultimately show ?thesis
    using a(1) h(2) pos by (auto simp: array_next_reads_def array_position_def readM_def bindM_def returnM_def)
qed

text \<open>Example: a result of one column of type \<open>text[]\<close>.\<close>

lemma released_columns_dangle_witness:
  "free_columns 1 1 [LType PLC_DATA_ARRAY (Some 2) 1 (Some 3) [ex_text]] {1, 2, 3, 4, 9} = Ok () {4}
   \<and> array_next_reads (array_position 4 1 (LType PLC_DATA_ARRAY (Some 2) 1 (Some 3) [ex_text])) False {4} = Stuck UseAfterFree"
proof -
  let ?t = "LType PLC_DATA_ARRAY (Some 2) 1 (Some 3) [ex_text]"
  have blocks: "set (column_blocks 1 [?t]) = {1, 2, 3, 9}" "distinct (column_blocks 1 [?t])"
    by (auto simp: column_blocks_def ex_text_def)
  have "free_columns 1 1 [?t] {1, 2, 3, 4, 9} = Ok () ({1, 2, 3, 4, 9} - {1, 2, 3, 9})
      \<and> array_next_reads (array_position 4 1 ?t) False ({1, 2, 3, 4, 9} - {1, 2, 3, 9}) = Stuck UseAfterFree"
    using released_columns_dangle [of "[?t]" 1 1 "{1, 2, 3, 4, 9}" ?t 4 False] blocks by (simp add: ex_text_def)
  moreover have "{1, 2, 3, 4, 9} - {1, 2, 3, 9} = {4 :: nat}" by auto
  ultimately show ?thesis by simp
qed

end
