(* ===== verification/Listener.thy ===== *)
theory Listener
  imports Backend
begin

text \<open>
  The start of an executor written against this library: \<open>start_listener\<close>, \<open>connection_wait\<close> and \<open>connection_init\<close> of
  \<^verbatim>\<open>src/common/comm_server.c\<close>. Outside the server \<open>lprintf\<close> with \<open>ERROR\<close> aborts the process, here
  \<open>Elog\<close>. The system calls answer from a script: what each returns, and the text of \<open>errno\<close>.
\<close>

section \<open>State and operations\<close>

datatype sys_ev = Sys int string

record server =
  sw :: world
  syscalls :: "sys_ev list"

definition sys_call :: "(server, int \<times> string) prog" where
  "sys_call = (\<lambda>s. case syscalls s of
      [] \<Rightarrow> Blocked s
    | Sys r err # es \<Rightarrow> Ok (r, err) (s\<lparr>syscalls := es\<rparr>))"

text \<open>\<open>if (f(...) == -1) lprintf(ERROR, ...)\<close>\<close>

definition sys_check :: "string \<Rightarrow> (server, int) prog" where
  "sys_check msg = bindM sys_call (\<lambda>(r, err). if r = -1 then elogM (E_msg (msg @ err)) else returnM r)"

text \<open>\<open>socket\<close>, \<open>bind\<close>, \<open>listen\<close>\<close>

definition start_listener :: "(server, int) prog" where
  "start_listener =
     bindM (sys_check '''') (\<lambda>sck.
     bindM (sys_check ''Cannot bind the port: '') (\<lambda>_.
     bindM (sys_check ''Cannot listen the socket: '') (\<lambda>_.
     returnM sck)))"

text \<open>\<open>select\<close> with a timeout\<close>

definition connection_wait :: "int \<Rightarrow> (server, unit) prog" where
  "connection_wait sck =
     bindM (sys_check ''Failed to select() socket: '') (\<lambda>rv.
     if rv = 0 then elogM (E_msg ''Socket timeout - no client connected within 20 seconds'') else returnM ())"

abbreviation in_server :: "(world, 'a) prog \<Rightarrow> (server, 'a) prog" where
  "in_server \<equiv> via sw (\<lambda>w s. s\<lparr>sw := w\<rparr>)"

interpretation in_server: state_part sw "\<lambda>w s. s\<lparr>sw := w\<rparr>"
  by unfold_locales auto

text \<open>\<open>accept\<close>\<close>

definition connection_init :: "int \<Rightarrow> (server, unit) prog" where
  "connection_init sck =
     bindM (sys_check ''failed to accept connection: '') (\<lambda>connection.
     in_server (plcConnInit connection))"

text \<open>The start and the loop, as an executor's \<open>main\<close> puts them together.\<close>

definition run_server :: "nat \<Rightarrow> (plcMsgCallreq \<Rightarrow> (world, unit) prog) \<Rightarrow> (server, phase) prog" where
  "run_server n handle_call =
     bindM start_listener (\<lambda>sck.
     bindM (connection_wait sck) (\<lambda>_.
     bindM (connection_init sck) (\<lambda>_.
     in_server (receive_loop n handle_call))))"

section \<open>Facts\<close>

lemma sys_check_run:
  "syscalls s = Sys r err # es \<Longrightarrow> sys_check msg s
     = (if r = -1 then Elog (E_msg (msg @ err)) (s\<lparr>syscalls := es\<rparr>) else Ok r (s\<lparr>syscalls := es\<rparr>))"
  by (simp add: sys_check_def sys_call_def bindM_def elogM_def returnM_def)

text \<open>Nothing is sent or received before \<open>accept\<close>, whichever call fails.\<close>

lemma sys_check_keeps [keeps_intros]: "keeps (\<lambda>s. sw s = w) (sys_check msg) (\<lambda>s. sw s = w) (\<lambda>s. sw s = w)"
proof -
  have "keeps (\<lambda>s. sw s = w) sys_call (\<lambda>s. sw s = w) (\<lambda>s. sw s = w)"
    by (auto simp: keeps_def sys_call_def split: list.splits sys_ev.splits)
  then show ?thesis
    unfolding sys_check_def by (intro keeps_intros)
qed

lemma start_keeps_world: "keeps (\<lambda>s. sw s = w) start_listener (\<lambda>s. sw s = w) (\<lambda>s. sw s = w)"
  unfolding start_listener_def by (intro keeps_intros)

lemma wait_keeps_world: "keeps (\<lambda>s. sw s = w) (connection_wait sck) (\<lambda>s. sw s = w) (\<lambda>s. sw s = w)"
  unfolding connection_wait_def by (intro keeps_intros)

lemma run_server_started:
  assumes "syscalls s = [Sys sck e1, Sys b e2, Sys l e3, Sys rv e4, Sys c e5]"
    and "sck \<noteq> -1" "b \<noteq> -1" "l \<noteq> -1" "0 < rv" "c \<noteq> -1"
  shows "run_server n h s = bindM (in_server (plcConnInit c)) (\<lambda>_. in_server (receive_loop n h)) (s\<lparr>syscalls := []\<rparr>)"
  using assms
  by (simp add: run_server_def start_listener_def connection_wait_def connection_init_def bindM_assoc sys_check_run returnM_def)

end
