(* ===== verification/Test_Client.thy ===== *)
theory Test_Client
  imports Listener Call_Facts
begin

text \<open>
  The two test programs of \<^verbatim>\<open>testserialization\<close>, clients of the library that send one call and
  print the result. They are built with \<open>COMM_STANDALONE\<close>, where \<open>bool\<close> is a signed
  \<open>char\<close> and \<open>ERROR\<close> aborts. A field that is never assigned is a parameter. What is printed is
  a list of the arguments of \<open>printf\<close>; the programs are run with blocks to be had from \<open>malloc\<close>.
\<close>

section \<open>The requests\<close>

definition chars :: "string \<Rightarrow> byte list" where
  "chars s = List.map of_char s"

definition plain_type :: "plcDatatype \<Rightarrow> string \<Rightarrow> plcType" where
  "plain_type dt nm = PlcType dt 0 (Some (chars nm)) []"

definition test_arg :: "string \<Rightarrow> plcDatatype \<Rightarrow> string \<Rightarrow> rvalue \<Rightarrow> plcArgument" where
  "test_arg nm dt tn v =
     \<lparr>argType = plain_type dt tn, argName = Some (chars nm), argData = Rawdata False (Some v)\<rparr>"

text \<open>The request of \<open>mainx\<close>. \<open>retset\<close> is not assigned.\<close>

definition add_request :: "i32 \<Rightarrow> plcMsgCallreq" where
  "add_request rset =
     \<lparr>objectid = 205, hasChanged = 0, procName = Some (chars ''addExact''),
      procSrc = Some (chars ''org.postgresql.plj.Add.add''),
      retType = plain_type PLC_DATA_INT4 ''INT'', retset = rset, nargs = 2,
      args = [test_arg ''arg1'' PLC_DATA_INT4 ''INT4'' (VInt4 15),
              test_arg ''arg2'' PLC_DATA_INT4 ''INT1'' (VInt4 20)]\<rparr>"

text \<open>The text of \<open>TEST_SIZE - 1\<close> letters; \<open>rnd i\<close> is what the call \<open>i\<close> of \<open>random\<close> returns.\<close>

definition random_text :: "(nat \<Rightarrow> nat) \<Rightarrow> byte list" where
  "random_text rnd = List.map (\<lambda>i. of_nat (65 + rnd i mod 26)) [0..<1023]"

text \<open>The request of \<open>main\<close>: 3456.5 and 1245.5 are given by their bits.\<close>

definition test_request :: "i32 \<Rightarrow> byte list \<Rightarrow> plcMsgCallreq" where
  "test_request rset value1 =
     \<lparr>objectid = 205, hasChanged = 0, procName = Some (chars ''foobar''),
      procSrc = Some (chars ''function definition''),
      retType = plain_type PLC_DATA_TEXT ''TEXT'', retset = rset, nargs = 8,
      args = [test_arg ''arg1'' PLC_DATA_TEXT ''TEXT'' (VText value1),
              test_arg ''arg2'' PLC_DATA_INT1 ''INT1'' (VInt1 127),
              test_arg ''arg3'' PLC_DATA_INT2 ''INT2'' (VInt2 300),
              test_arg ''arg4'' PLC_DATA_INT4 ''INT1'' (VInt4 33330),
              test_arg ''arg5'' PLC_DATA_INT8 ''INT1'' (VInt8 333330),
              test_arg ''arg6'' PLC_DATA_FLOAT8 ''FLOAT8'' (VFloat8 4659819338956537856),
              test_arg ''arg7'' PLC_DATA_BYTEA ''bytea'' (VBytea (List.map of_nat [0..<20])),
              test_arg ''arg8'' PLC_DATA_FLOAT4 ''FLOAT4'' (VFloat4 1151053824)]\<rparr>"

section \<open>Printing the result\<close>

datatype printed =
    P_size int int                        \<comment> \<open>rows and columns\<close>
  | P_column "byte list" int "byte list"  \<comment> \<open>name, type and name of the type\<close>
  | P_int int
  | P_float4 i32
  | P_float8 i64
  | P_text "byte list"

text \<open>A case of the \<open>switch\<close>: \<open>value\<close> is read as a pointer to the C type that goes with \<open>dt\<close>.\<close>

definition print_value :: "plcDatatype \<Rightarrow> rvalue \<Rightarrow> ('s, printed) prog" where
  "print_value dt v = (case v of
      VInt1 x \<Rightarrow> bindM (checkM BadShape (dt = PLC_DATA_INT1)) (\<lambda>_. returnM (P_int (sint x)))
    | VInt2 x \<Rightarrow> bindM (checkM BadShape (dt = PLC_DATA_INT2)) (\<lambda>_. returnM (P_int (sint x)))
    | VInt4 x \<Rightarrow> bindM (checkM BadShape (dt = PLC_DATA_INT4)) (\<lambda>_. returnM (P_int (sint x)))
    | VInt8 x \<Rightarrow> bindM (checkM BadShape (dt = PLC_DATA_INT8)) (\<lambda>_. returnM (P_int (sint x)))
    | VFloat4 x \<Rightarrow> bindM (checkM BadShape (dt = PLC_DATA_FLOAT4)) (\<lambda>_. returnM (P_float4 x))
    | VFloat8 x \<Rightarrow> bindM (checkM BadShape (dt = PLC_DATA_FLOAT8)) (\<lambda>_. returnM (P_float8 x))
    | VText x \<Rightarrow> bindM (checkM BadShape (dt = PLC_DATA_TEXT)) (\<lambda>_. returnM (P_text x))
    | _ \<Rightarrow> stuckM BadShape)"

definition printable :: "plcDatatype \<Rightarrow> bool" where
  "printable dt \<longleftrightarrow> dt \<in> {PLC_DATA_INT1, PLC_DATA_INT2, PLC_DATA_INT4, PLC_DATA_INT8,
     PLC_DATA_FLOAT4, PLC_DATA_FLOAT8, PLC_DATA_TEXT}"

text \<open>
  One turn of the loop over the rows. \<open>dptr\<close> is given by the cells from it to the end of the block
  of the first row; the pointer moves only in a case that prints.
\<close>

fun print_row :: "nat \<Rightarrow> plcType list \<Rightarrow> rawdata list \<Rightarrow> ('s, printed list \<times> rawdata list) prog" where
  "print_row 0 ts ds = returnM ([], ds)"
| "print_row (Suc n) [] ds = stuckM OutOfBounds"
| "print_row (Suc n) (t # ts) ds =
     (if printable (ty t) then
        (case ds of
           [] \<Rightarrow> stuckM OutOfBounds
         | d # ds \<Rightarrow>
             bindM (needM NullDeref (rvalue d)) (\<lambda>v.
             bindM (print_value (ty t) v) (\<lambda>p.
             bindM (print_row n ts ds) (\<lambda>(ps, ds). returnM (p # ps, ds)))))
      else print_row n ts ds)"

primrec print_rows :: "nat \<Rightarrow> nat \<Rightarrow> plcType list \<Rightarrow> rawdata list \<Rightarrow> ('s, printed list) prog" where
  "print_rows 0 n ts ds = returnM []"
| "print_rows (Suc k) n ts ds =
     bindM (print_row n ts ds) (\<lambda>(ps, ds).
     bindM (print_rows k n ts ds) (\<lambda>qs. returnM (ps @ qs)))"

fun print_columns :: "nat \<Rightarrow> plcType list \<Rightarrow> cstr list \<Rightarrow> ('s, printed list) prog" where
  "print_columns 0 ts nms = returnM []"
| "print_columns (Suc n) (t # ts) (nm # nms) =
     bindM (needM NullDeref nm) (\<lambda>s.
     bindM (needM NullDeref (typeName t)) (\<lambda>tn.
     bindM (print_columns n ts nms) (\<lambda>ps. returnM (P_column s (dt_code (ty t)) tn # ps))))"
| "print_columns (Suc n) _ _ = stuckM OutOfBounds"

text \<open>\<open>data\<close> is NULL when there are no rows.\<close>

definition print_result :: "plcMsgResult \<Rightarrow> ('s, printed list) prog" where
  "print_result r =
     bindM (print_columns (nat (sint (cols r))) (types r) (names r)) (\<lambda>hs.
     if sint (rows r) \<le> 0 then stuckM NullDeref
     else
       (case rdata r of
          [] \<Rightarrow> stuckM OutOfBounds
        | ds # _ \<Rightarrow>
            bindM (print_rows (nat (sint (rows r))) (nat (sint (cols r))) (types r) ds) (\<lambda>ps.
            returnM (P_size (sint (rows r)) (sint (cols r)) # hs @ ps))))"

section \<open>The programs\<close>

text \<open>Neither result of the channel is looked at, and the message is cast to \<open>plcMsgResult\<close>.\<close>

definition ask :: "plcMsgCallreq \<Rightarrow> (world, printed list) prog" where
  "ask req =
     bindM (pljvm_channel_send (MsgCallreq req)) (\<lambda>_.
     bindM pljvm_channel_receive (\<lambda>(_, msg).
     bindM (needM Uninit msg) (\<lambda>msg.
     case msg of MsgResult r \<Rightarrow> print_result r | _ \<Rightarrow> stuckM BadShape)))"

definition mainx :: "i32 \<Rightarrow> (backend, printed list) prog" where
  "mainx rset =
     bindM plcConnect (\<lambda>connected.
     bindM (checkM NullDeref connected) (\<lambda>_.
     bindM (in_world (ask (add_request rset))) (\<lambda>ps.
     bindM plcDisconnect (\<lambda>_. returnM ps))))"

definition test_main :: "i32 \<Rightarrow> (nat \<Rightarrow> nat) \<Rightarrow> (backend, printed list) prog" where
  "test_main rset rnd =
     bindM (in_world (plc_alloc 100)) (\<lambda>_.
     bindM plcConnect (\<lambda>connected.
     bindM (checkM NullDeref connected) (\<lambda>_.
     in_world (ask (test_request rset (random_text rnd))))))"

section \<open>Facts\<close>

lemma of_char_zero: "(of_char c :: byte) = 0 \<longleftrightarrow> c = CHR 0x00"
proof -
  have lt: "(of_char c :: nat) < 256" by (rule nat_of_char_less_256)
  have "(of_char c :: byte) = of_nat (of_char c)" by (rule of_nat_of_char [symmetric])
  then have "(of_char c :: byte) = 0 \<longleftrightarrow> 256 dvd (of_char c :: nat)"
    using word_of_nat_eq_0_iff [of "of_char c", where 'a = 8] by simp
  also have "\<dots> \<longleftrightarrow> (of_char c :: nat) = of_char (CHR 0x00)" using lt nat_dvd_not_less [of "of_char c" 256] by auto
  finally show ?thesis by (simp only: of_char_eq_iff)
qed

lemma chars_ok: "ok_cstring (Some (chars s)) \<longleftrightarrow> CHR 0x00 \<notin> set s \<and> length s \<le> MAX_CHUNK"
  by (auto simp: ok_cstring_def chars_def of_char_zero image_iff)

lemma random_text_ok: "ok_cstring (Some (random_text rnd))"
proof -
  have "(of_nat (65 + k mod 26) :: byte) \<noteq> 0" for k :: nat
  proof -
    have "\<not> 256 dvd 65 + k mod 26"
      using mod_less_divisor [of 26 k] dvd_imp_le [of 256 "65 + k mod 26"] by linarith
    then show ?thesis using word_of_nat_eq_0_iff [of "65 + k mod 26", where 'a = 8] by simp
  qed
  then show ?thesis by (auto simp: ok_cstring_def random_text_def MAX_CHUNK_def)
qed

lemma plain_arg_ok:
  "ok_argument (test_arg nm dt tn v) \<longleftrightarrow> ok_cstring (Some (chars nm)) \<and> dt_ok dt \<and> \<not> nested dt
     \<and> ok_cstring (Some (chars tn)) \<and> ok_object (plain_type dt tn) (Rawdata False (Some v))"
  if "\<not> nested dt"
  using that by (auto simp: ok_argument_def test_arg_def plain_type_def)

lemma add_request_ok: "ok_message (MsgCallreq (add_request rset))"
  by (simp add: add_request_def plain_arg_ok counts_def MaxAllocSize_def dt_ok_def dt_of_code_def
      MAX_CHUNK_def plain_type_def chars_ok)

lemma test_request_ok: "ok_message (MsgCallreq (test_request rset (random_text rnd)))"
proof -
  have "ok_bytea (List.map of_nat [0..<20])" by (simp add: ok_bytea_def MAX_CHUNK_def)
  then show ?thesis
    by (simp add: test_request_def plain_arg_ok counts_def MaxAllocSize_def dt_ok_def dt_of_code_def
        MAX_CHUNK_def plain_type_def chars_ok random_text_ok)
qed

text \<open>
  What the programs print of a good result: row after row as long as \<open>dptr\<close> is in the block of the
  first row. A second row is read past its end, and a result without rows through NULL.
\<close>

definition printed_cell :: "rawdata \<Rightarrow> printed" where
  "printed_cell d = (case rvalue d of
      Some (VInt1 x) \<Rightarrow> P_int (sint x) | Some (VInt2 x) \<Rightarrow> P_int (sint x)
    | Some (VInt4 x) \<Rightarrow> P_int (sint x) | Some (VInt8 x) \<Rightarrow> P_int (sint x)
    | Some (VFloat4 x) \<Rightarrow> P_float4 x | Some (VFloat8 x) \<Rightarrow> P_float8 x
    | Some (VText s) \<Rightarrow> P_text s | _ \<Rightarrow> P_text [])"

definition plain_row :: "plcType list \<Rightarrow> rawdata list \<Rightarrow> bool" where
  "plain_row ts ds \<longleftrightarrow> list_all2 (\<lambda>t d. printable (ty t) \<and> rvalue d \<noteq> None \<and> ok_object t d) ts ds"

lemma print_value_ok:
  assumes "printable (ty t)" and "rvalue d = Some v" and "ok_object t d"
  shows "print_value (ty t) v = returnM (printed_cell d)"
  using assms
  by (cases d; cases v) (auto simp: print_value_def printed_cell_def printable_def prog_simps split: if_splits)

lemma print_row_ok:
  "plain_row ts ds \<Longrightarrow> print_row (length ts) ts (ds @ es) = returnM (List.map printed_cell ds, es)"
proof (induction ts arbitrary: ds)
  case (Cons t ts)
  then obtain d ds' where ds: "ds = d # ds'" "printable (ty t)" "rvalue d \<noteq> None" "ok_object t d" "plain_row ts ds'"
    by (auto simp: plain_row_def list_all2_Cons1)
  then obtain v where "rvalue d = Some v" by blast
  with ds Cons.IH [of ds'] show ?case
    by (simp add: print_value_ok prog_simps)
qed (simp add: plain_row_def)

lemma print_row_past_end:
  assumes "plain_row ts ds" and "ts \<noteq> []"
  shows "print_row (length ts) ts [] = stuckM OutOfBounds"
  using assms by (cases ts) (auto simp: plain_row_def list_all2_Cons1)

lemma print_columns_ok:
  "length nms = length ts \<Longrightarrow> \<forall>nm \<in> set nms. nm \<noteq> None \<Longrightarrow> \<forall>t \<in> set ts. typeName t \<noteq> None
    \<Longrightarrow> \<exists>hs. print_columns (length ts) ts nms = (returnM hs :: ('s, printed list) prog)"
proof (induction ts arbitrary: nms)
  case (Cons t ts)
  then obtain nm nms' where "nms = nm # nms'" by (cases nms) auto
  with Cons show ?case by (fastforce simp: prog_simps)
qed auto

lemma print_result_rows:
  assumes "plain_row (types r) ds" and "types r \<noteq> []" and "rdata r = ds # dss"
    and "length (names r) = length (types r)" "\<forall>nm \<in> set (names r). nm \<noteq> None" "\<forall>t \<in> set (types r). typeName t \<noteq> None"
    and "sint (cols r) = int (length (types r))" and "sint (rows r) = int (Suc (length dss))"
  shows "\<exists>hs. (print_result r :: ('s, printed list) prog) = (if dss = [] then returnM (P_size 1 (sint (cols r)) # hs @ List.map printed_cell ds)
     else stuckM OutOfBounds)"
proof -
  obtain hs where hs: "print_columns (length (types r)) (types r) (names r) = (returnM hs :: ('s, printed list) prog)"
    using print_columns_ok assms by blast
  have first: "print_row (length (types r)) (types r) ds = (returnM (List.map printed_cell ds, []) :: ('s, printed list \<times> rawdata list) prog)"
    using print_row_ok [OF assms(1), of "[]"] by simp
  have past: "print_row (length (types r)) (types r) [] = (stuckM OutOfBounds :: ('s, printed list \<times> rawdata list) prog)"
    by (rule print_row_past_end [OF assms(1,2)])
  have "nat (sint (rows r)) = Suc (length dss)" using assms(8) by simp
  then show ?thesis
    using assms(3,7,8) hs first past
    by (intro exI [of _ hs]; cases dss) (simp_all add: print_result_def prog_simps)
qed

lemma print_result_no_rows:
  assumes "print_columns (nat (sint (cols r))) (types r) (names r) = (returnM hs :: ('s, printed list) prog)"
    and "sint (rows r) \<le> 0"
  shows "(print_result r :: ('s, printed list) prog) = stuckM NullDeref"
  using assms by (simp add: print_result_def prog_simps)

text \<open>The programs send no ping: \<open>receive_loop\<close> ends their session at its first message.\<close>

lemma test_client_refused:
  assumes "healthy 1 w" and "in_stream w = enc_message (MsgCallreq (add_request rset)) @ rest"
  shows "\<exists>w'. receive_loop n h w = Elog E_first_message w' \<and> out_stream w' = out_stream w"
proof -
  have "message_depth (MsgCallreq (add_request rset)) \<le> 1"
    by (simp add: add_request_def test_arg_def plain_type_def depth_all_def)
  from channel_receive_ok [OF add_request_ok this assms] show ?thesis
    by (auto simp: receive_loop_def handshake_def prog_simps)
qed

text \<open>A session of \<open>mainx\<close> with an executor that answers 35.\<close>

lemma mainx_prints:
  assumes "connects s = Connected sck [RData (enc_message (MsgResult r))] [] # cs" and "memory_good (bw s)"
    and "ok_message (MsgResult r)" "message_depth (MsgResult r) \<le> stack (bw s)" "deliver_message (MsgResult r) = MsgResult r'"
    and print: "print_result r' = (returnM ps :: (world, printed list) prog)"
  shows "\<exists>s'. mainx rset s = Ok ps s' \<and> open_socks s' = open_socks s"
proof -
  obtain w where w: "plcConnect s = Ok True (s\<lparr>connects := cs, open_socks := Suc (open_socks s), bw := w\<rparr>)"
    "healthy (stack (bw s)) w" "in_stream w = enc_message (MsgResult r) @ []" "out_stream w = []"
    using connect_run [OF assms(1,2) refl] by auto
  from channel_send_ok [OF add_request_ok [of rset] w(2)] obtain w' where w':
    "pljvm_channel_send (MsgCallreq (add_request rset)) w = Ok 0 w'"
    "healthy (stack (bw s)) w'" "in_stream w' = enc_message (MsgResult r) @ []"
    using w(3) by auto
  from channel_receive_ok [OF assms(3,4) w'(2,3)] obtain w'' where
    "pljvm_channel_receive w' = Ok (0, Some (MsgResult r')) w''" using assms(5) by auto
  with w'(1) print have "ask (add_request rset) w = Ok ps w''"
    by (simp add: ask_def prog_simps del: pljvm_channel_send.simps)
  with w(1) show ?thesis
    by (simp add: mainx_def prog_simps via_def plcDisconnect_def)
qed

end
