(* ===== verification/Two_Ends.thy ===== *)
theory Two_Ends
  imports Call_Props
begin

text \<open>
  Both ends of a connection together: the call handler of \<^verbatim>\<open>src/pljvm.c\<close> and \<open>receive_loop\<close> of
  \<^verbatim>\<open>src/common/comm_server.c\<close>, the loop the library has for executors.
\<close>

text \<open>The call was sent, and the loop at the other end refuses it without a reply.\<close>

definition refused_call :: "plcMsgCallreq \<Rightarrow> backend \<Rightarrow> bool" where
  "refused_call req s \<longleftrightarrow> wire (bw s) = enc_message (MsgCallreq req)
     \<and> (\<forall>w rest n h. healthy 4 w \<and> in_stream w = wire (bw s) @ rest \<longrightarrow>
          (\<exists>w'. receive_loop n h w = Elog E_first_message w' \<and> out_stream w' = out_stream w))"

lemma call_refused:
  assumes "ok_message (MsgCallreq req)" and "message_depth (MsgCallreq req) \<le> 4" and "wire (bw s) = enc_message (MsgCallreq req)"
  shows "refused_call req s"
  unfolding refused_call_def
proof (intro conjI allI impI)
  fix w rest n and h :: "plcMsgCallreq \<Rightarrow> (world, unit) prog"
  assume w: "healthy 4 w \<and> in_stream w = wire (bw s) @ rest"
  with channel_receive_ok [OF assms(1,2)] assms(3)
  show "\<exists>w'. receive_loop n h w = Elog E_first_message w' \<and> out_stream w' = out_stream w"
    by (fastforce simp: receive_loop_def handshake_def prog_simps simp del: enc_message.simps ok_message.simps)
qed (rule assms(3))

lemma unanswered_call:
  assumes call: "callable fm cat fcinfo p f s" and ex: "connects s = c # cs" "executor rs ss [] c"
  shows "\<exists>req. call_of fm (tcat cat) fcinfo f req \<and> ensures (pljvm_get_result (Suc n) fm cat fcinfo p s) (\<lambda>_ _. False)
    (\<lambda>e. refused_call req) (refused_call req)"
proof -
  obtain req w where w: "call_of fm (tcat cat) fcinfo f req" "healthy (stack (bw s)) w" "in_stream w = []"
      "wire w = enc_message (MsgCallreq req)"
    and run: "pljvm_get_result (Suc n) fm cat fcinfo p s = bindM (answer_loop (Suc n) fm cat) (\<lambda>r.
       case r of
         None \<Rightarrow> returnM Unfinished
       | Some r \<Rightarrow> bindM plcDisconnect (\<lambda>_. returnM (Result \<lparr>resmsg = r, resrow = 0\<rparr>)))
      (s\<lparr>connects := cs, open_socks := Suc (open_socks s), bw := w\<rparr>)"
    using call_sent [OF call ex, where n = "Suc n"] by (elim exE conjE) (rule that)
  have req: "ok_message (MsgCallreq req)" "message_depth (MsgCallreq req) \<le> 4"
    using w(1) by (simp_all add: call_of_def del: ok_message.simps message_depth.simps)
  let ?s = "s\<lparr>connects := cs, open_socks := Suc (open_socks s), bw := w\<rparr>"
  have refused: "refused_call req s'" if "wire (bw s') = wire w" for s'
    using call_refused [OF req] that w(4) by simp
  have sel: "bw ?s = w" by simp
  have "ensures (pljvm_channel_receive (bw ?s)) (\<lambda>(res, _) w'. res = -3 \<and> wire w' = wire w)
      (\<lambda>e w'. wire w' = wire w) (\<lambda>w'. wire w' = wire w)"
    unfolding sel
    by (rule ensures_mono [OF channel_receive_gone [OF w(2,3)]]) (auto simp: in_kept_def in_frame_def)
  from in_world.via_ensures [where s = ?s and m = pljvm_channel_receive, OF this]
  have "ensures (in_world pljvm_channel_receive ?s) (\<lambda>(res, _) s'. res = -3 \<and> refused_call req s')
      (\<lambda>e. refused_call req) (refused_call req)"
    by (rule ensures_mono) (auto intro: refused)
  then have "ensures (process_answer fm cat ?s) (\<lambda>_ _. False) (\<lambda>e. refused_call req) (refused_call req)"
    unfolding process_answer_def by (rule ensures_bindM) (clarsimp simp: elogM_def)
  then have "ensures (answer_loop (Suc n) fm cat ?s) (\<lambda>_ _. False) (\<lambda>e. refused_call req) (refused_call req)"
    unfolding answer_loop.simps by (rule ensures_bindM) simp
  then show ?thesis
    unfolding run using w(1) by (intro exI [of _ req] conjI ensures_bindM [where Q' = "\<lambda>_ _. False"]) simp_all
qed

text \<open>
  C17: a call whose executor runs \<open>receive_loop\<close> never gets a value. The handler sends the call as the first message, the
  loop demands a ping and ends without having written anything, so nothing arrives; and while nothing arrives the call
  waits or raises, with exactly the refused call on the wire.
\<close>

theorem call_without_ping:
  assumes cached: "cached_call fm cat fcinfo g s" and kind: "\<not> call_trigger fcinfo"
    and ex: "connects s = c # cs" "executor rs ss [] c"
  shows "ensures (pljvm_call_handler ctx (Suc n) fm cat fcinfo None s) (\<lambda>_ _. False)
    (\<lambda>e s'. \<exists>req. refused_call req s') (\<lambda>s'. \<exists>req. refused_call req s')"
proof -
  let ?s = "s\<lparr>caller_context := ctx\<rparr>"
  have server: "refusals s = []" using cached by (simp add: cached_call_def)
  have "cached_call fm cat fcinfo g ?s" using cached by (simp add: cached_call_def backend_inv_def)
  from cached_call_run [OF this] obtain p ca where p: "get_proc_info cat fcinfo ?s = Ok p (?s\<lparr>cache := ca\<rparr>)"
    "callable fm cat fcinfo p (unchanged g) (?s\<lparr>cache := ca\<rparr>)" by blast
  have "connects (?s\<lparr>cache := ca\<rparr>) = c # cs" using ex(1) by simp
  from unanswered_call [OF p(2) this ex(2), of n] show ?thesis
    unfolding handler_run [OF kind p(1) server]
    by (elim exE conjE, intro ensures_bindM [where Q' = "\<lambda>_ _. False"]) (auto elim: ensures_mono)
qed

lemma call_without_ping_witness:
  "ensures (pljvm_call_handler 3 1 ex_fm ex_sys ex_call_int4 None (ex_server [ex_answer []])) (\<lambda>_ _. False)
    (\<lambda>e s'. \<exists>req. refused_call req s') (\<lambda>s'. \<exists>req. refused_call req s')"
proof -
  have "executor [RData []] [] [] (ex_answer [])" using ex_executor [of "[]"] by simp
  from call_without_ping [OF ex_cached_call ex_call_scalar(1) ex_server_facts(3) this, of 3 0 ex_fm] show ?thesis by simp
qed

section \<open>An executor that returns its argument\<close>

text \<open>
  A value that was received, as one to send: an iterator over the cells in place of the array. For what can be sent it
  undoes \<open>deliver\<close>.
\<close>

fun resend :: "rawdata \<Rightarrow> rawdata" where
  "resend (Rawdata isn v) = Rawdata isn (case v of
       Some (VArray m ds) \<Rightarrow> Some (VIter m (List.map resend ds))
     | Some (VUdt ds) \<Rightarrow> Some (VUdt (List.map resend ds))
     | _ \<Rightarrow> v)"

lemma resend_deliver: "ok_object t r \<Longrightarrow> resend (deliver r) = r"
proof (induction t r rule: ok_object.induct)
  case (1 t isn v)
  show ?case
  proof (cases v)
    case (Some x)
    show ?thesis
    proof (cases x)
      case (VIter m ds)
      with 1 Some show ?thesis by (auto intro!: map_idI split: if_splits)
    next
      case (VUdt ds)
      have "resend (deliver d) = d" if "d \<in> set ds" for d
      proof -
        from that obtain i where "i < length ds" "d = ds ! i" by (auto simp: in_set_conv_nth)
        with 1 Some VUdt show ?thesis by (fastforce simp: set_zip split: if_splits)
      qed
      with Some VUdt show ?thesis by (simp add: map_idI)
    qed (use 1 Some in \<open>simp_all split: if_splits\<close>)
  qed simp
qed

definition identity_result :: "plcMsgCallreq \<Rightarrow> plcMsgResult" where
  "identity_result c = \<lparr>rows = 1, cols = 1, types = [retType c], names = [None],
     rdata = [[resend (argData (hd (args c)))]], exception_callback = None\<rparr>"

definition identity_handler :: "plcMsgCallreq \<Rightarrow> (world, unit) prog" where
  "identity_handler c = bindM (pljvm_channel_send (MsgResult (identity_result c))) (\<lambda>_. returnM ())"

lemma call_unique:
  assumes "call_of fm cat fcinfo f c" and "call_of fm cat fcinfo f c'"
  shows "c = c'"
proof -
  have "alloc_all (world_of 0 [] [])" by simp
  with assms have "Ok c (world_of 0 [] []) = Ok c' (world_of 0 [] [])"
    unfolding call_of_def by (metis yields_run)
  then show ?thesis by simp
qed

text \<open>The result of the identity for the call of a function of one argument.\<close>

lemma identity_result_ok:
  assumes req: "call_of fm cat fcinfo f req" and f: "argtypes f = [rettype f]" "argdata fcinfo = Some d # ds"
  shows "\<exists>v. identity_result (req\<lparr>args := List.map deliver_argument (args req)\<rparr>)
      = \<lparr>rows = 1, cols = 1, types = [retType req], names = [None], rdata = [[Rawdata False (Some v)]], exception_callback = None\<rparr>
    \<and> converts fm cat (rettype f) d v \<and> ok_type (retType req) \<and> ok_object (retType req) (Rawdata False (Some v))
    \<and> type_depth (retType req) \<le> 4"
proof -
  from req f obtain v where v: "converts fm cat (rettype f) d v" "argData (args req ! 0) = Rawdata False (Some v)"
    and len: "length (args req) = 1" and t: "retType req = type_of_info (rettype f)"
    by (auto simp: call_of_def carries_def)
  then obtain a where a: "args req = [a]" "argData a = Rawdata False (Some v)" by (cases "args req") auto
  have ok: "ok_object (retType req) (Rawdata False (Some v))" using v(1) t by (simp add: converts_def)
  have "ok_type (retType req)" "type_depth (retType req) \<le> 4"
    using req by (auto simp: call_of_def depth_all_def)
  with a v(1) ok resend_deliver [OF ok] show ?thesis
    by (intro exI [of _ v]) (simp add: identity_result_def deliver_argument_def del: ok_object.simps deliver.simps)
qed

lemma identity_served:
  assumes req: "call_of fm cat fcinfo f req" and f: "argtypes f = [rettype f]" "argdata fcinfo = Some d # ds"
    and w: "healthy 4 w" "in_stream w = enc_message (MsgCallreq req)"
  shows "\<exists>w' r v. serve_one identity_handler w = Ok Serving w' \<and> out_stream w' = out_stream w @ enc_message (MsgResult r)
    \<and> ok_message (MsgResult r) \<and> message_depth (MsgResult r) \<le> 4 \<and> sent_exception r = None
    \<and> rdata r = [[Rawdata False (Some v)]] \<and> converts fm cat (rettype f) d v"
proof -
  let ?c = "req\<lparr>args := List.map deliver_argument (args req)\<rparr>"
  obtain v where v: "identity_result ?c
      = \<lparr>rows = 1, cols = 1, types = [retType req], names = [None], rdata = [[Rawdata False (Some v)]], exception_callback = None\<rparr>"
    "converts fm cat (rettype f) d v" and t: "ok_type (retType req)" "ok_object (retType req) (Rawdata False (Some v))"
    "type_depth (retType req) \<le> 4"
    using identity_result_ok [OF req f] by blast
  have ok: "ok_message (MsgResult (identity_result ?c))" "message_depth (MsgResult (identity_result ?c)) \<le> 4"
    "sent_exception (identity_result ?c) = None"
    using t by (simp_all add: v(1) counts_def MaxAllocSize_def ok_column_def ok_cstring_def ok_row_def depth_all_def
        sent_exception_def del: ok_object.simps)
  have "ok_message (MsgCallreq req)" "message_depth (MsgCallreq req) \<le> 4"
    using req by (simp_all add: call_of_def del: ok_message.simps message_depth.simps)
  from channel_receive_ok [OF this w(1), of "[]"] w(2) obtain w1 where w1:
    "pljvm_channel_receive w = Ok (0, Some (MsgCallreq ?c)) w1" "healthy 4 w1" "out_stream w1 = out_stream w"
    by (auto simp del: enc_message.simps)
  from channel_send_ok [OF ok(1) w1(2)] obtain w2 where
    "pljvm_channel_send (MsgResult (identity_result ?c)) w1 = Ok 0 w2"
    "out_stream w2 = out_stream w @ enc_message (MsgResult (identity_result ?c))"
    using w1(3) by auto
  with w1(1) have "serve_one identity_handler w = Ok Serving w2"
    by (simp add: serve_one_def identity_handler_def prog_simps del: pljvm_channel_send.simps)
  with ok v \<open>out_stream w2 = _\<close> show ?thesis
    by (intro exI [of _ w2] exI [of _ "identity_result ?c"] exI [of _ v]) simp
qed

text \<open>
  C2: a call of a function of one argument, whose executor takes it with the body of \<open>receive_loop\<close> and returns the
  argument, gives the argument's datum: converted, sent, received, sent back, received and converted again, whatever its type
  (a number, a text, a binary value, an array or a row) and however the sockets cut the streams. What the handler sends is
  exactly the call.
\<close>

theorem identity_call:
  assumes cached: "cached_call fm cat fcinfo g s" and kind: "\<not> call_trigger fcinfo" "\<not> fn_retset fcinfo"
    and one: "argtypes g = [rettype g]" "argdata fcinfo = Some d # ds" and n: "0 < n" "4 \<le> stack (bw s)"
    and server: "call_of fm (tcat cat) fcinfo (unchanged g) req" "healthy 4 w" "in_stream w = enc_message (MsgCallreq req)"
  shows "\<exists>w' reply. serve_one identity_handler w = Ok Serving w' \<and> out_stream w' = out_stream w @ reply
    \<and> (\<forall>c cs rs ss. executor rs ss reply c \<longrightarrow>
        (\<exists>s'. pljvm_call_handler ctx n fm cat fcinfo None (s\<lparr>connects := c # cs\<rparr>) = Ok (Value (Some d)) s'
           \<and> out_stream (bw s') = enc_message (MsgCallreq req)))"
proof -
  from identity_served [OF server(1) _ one(2) server(2,3)] one(1) obtain w' r v where
    w': "serve_one identity_handler w = Ok Serving w'" "out_stream w' = out_stream w @ enc_message (MsgResult r)"
    and r: "ok_message (MsgResult r)" "message_depth (MsgResult r) \<le> 4" "sent_exception r = None"
    and v: "rdata r = [[Rawdata False (Some v)]]" "converts fm (tcat cat) (rettype g) d v"
    by (auto simp del: ok_message.simps message_depth.simps enc_message.simps)
  have returns: "\<exists>s'. pljvm_call_handler ctx n fm cat fcinfo None (s\<lparr>connects := c # cs\<rparr>) = Ok (Value (Some d)) s'
      \<and> out_stream (bw s') = enc_message (MsgCallreq req)"
    if ex: "executor rs ss (enc_message (MsgResult r)) c" for c cs rs ss
  proof -
    let ?s = "s\<lparr>connects := c # cs\<rparr>"
    have s: "cached_call fm cat fcinfo g ?s" "connects ?s = c # cs" using cached by (simp_all add: cached_call_def backend_inv_def)
    have "executor rs ss (concat (List.map enc_message []) @ enc_message (MsgResult r)) c" using ex by simp
    from call_value [OF s(1) kind s(2) this _ _ r(1) _ r(3) v, of n ctx] n r(2)
    obtain req' d' s' where "pljvm_call_handler ctx n fm cat fcinfo None ?s = Ok (Value (Some d)) s'"
      "call_of fm (tcat cat) fcinfo (unchanged g) req'" "d' = dialogue_of ?s [MsgCallreq req']"
      "out_stream (bw s') = concat (List.map enc_message (replies d'))"
      by (auto simp: turns_simps simp del: ok_message.simps message_depth.simps enc_message.simps)
    then show ?thesis using call_unique [OF server(1)] by auto
  qed
  show ?thesis
    by (intro exI [of _ w'] exI [of _ "enc_message (MsgResult r)"]) (use w' returns in blast)
qed

text \<open>Example: the identity of \<open>int4\<close>, called with 7.\<close>

lemma identity_call_witness:
  "\<exists>req w' reply s'. serve_one identity_handler (world_of 4 [RData (enc_message (MsgCallreq req))] []) = Ok Serving w'
    \<and> out_stream w' = reply
    \<and> pljvm_call_handler 3 1 ex_fm ex_sys ex_call_int4 None (ex_server [] \<lparr>connects := [Connected 9 [RData reply] []]\<rparr>)
      = Ok (Value (Some (DInt4 7))) s'"
proof -
  have g: "sendable_proc (unchanged ex_cached)" "call_ok ex_fm (tcat ex_sys) ex_call_int4 (unchanged ex_cached)"
    using cached_call_run [OF ex_cached_call [of ex_fm "[]"]] by (auto simp: cached_call_def)
  from create_call_run [OF this] obtain req where req: "call_of ex_fm (tcat ex_sys) ex_call_int4 (unchanged ex_cached) req" by blast
  have w: "healthy 4 (world_of 4 [RData (enc_message (MsgCallreq req))] [])"
    "in_stream (world_of 4 [RData (enc_message (MsgCallreq req))] []) = enc_message (MsgCallreq req)"
    by simp_all
  have one: "argtypes ex_cached = [rettype ex_cached]" "argdata ex_call_int4 = Some (DInt4 7) # []"
    by (simp_all add: ex_cached_def ex_call_int4_def)
  have n: "(0::nat) < 1" "4 \<le> stack (bw (ex_server []))" by simp_all
  let ?w = "world_of 4 [RData (enc_message (MsgCallreq req))] []"
  from identity_call [OF ex_cached_call ex_call_scalar one n req w, of 3] obtain w' reply where
    served: "serve_one identity_handler ?w = Ok Serving w'" "out_stream w' = out_stream ?w @ reply"
    and returns: "\<forall>c cs rs ss. executor rs ss reply c \<longrightarrow> (\<exists>s'. pljvm_call_handler 3 1 ex_fm ex_sys ex_call_int4 None
      (ex_server [] \<lparr>connects := c # cs\<rparr>) = Ok (Value (Some (DInt4 7))) s' \<and> out_stream (bw s') = enc_message (MsgCallreq req))"
    by (elim exE conjE) (rule that)
  have "executor [RData reply] [] reply (Connected 9 [RData reply] [])" by (simp add: executor_def)
  with returns obtain s' where "pljvm_call_handler 3 1 ex_fm ex_sys ex_call_int4 None
      (ex_server [] \<lparr>connects := [Connected 9 [RData reply] []]\<rparr>) = Ok (Value (Some (DInt4 7))) s'" by metis
  moreover have "out_stream w' = reply" using served(2) by simp
  ultimately show ?thesis using served(1) by blast
qed

end
