(* ===== verification/Well_Shaped.thy ===== *)
theory Well_Shaped
  imports Protocol_Props
begin

text \<open>
  What is known of a message that was received without an error, from a peer that sends anything: every count agrees with
  the array it counts, and every value is the object its type says, so that code that goes by the type reads no
  pointer as what it is not.
\<close>

section \<open>Postconditions of receive functions\<close>

text \<open>
  \<open>gets P m\<close>: whenever \<open>m\<close> returns 0 it has stored a value with \<open>P\<close>. Nothing is said about the input.
\<close>

definition gets :: "('y \<Rightarrow> bool) \<Rightarrow> (world, int \<times> 'y option) prog \<Rightarrow> bool" where
  "gets P m \<longleftrightarrow> (\<forall>w y w'. m w = Ok (0, y) w' \<longrightarrow> (\<exists>x. y = Some x \<and> P x))"

definition gets_all :: "('y list \<Rightarrow> bool) \<Rightarrow> (world, int \<times> 'y list) prog \<Rightarrow> bool" where
  "gets_all P m \<longleftrightarrow> (\<forall>w ys w'. m w = Ok (0, ys) w' \<longrightarrow> P ys)"

lemma getsI: "(\<And>w y w'. m w = Ok (0, y) w' \<Longrightarrow> \<exists>x. y = Some x \<and> P x) \<Longrightarrow> gets P m"
  by (simp add: gets_def)

lemma getsD: "gets P m \<Longrightarrow> m w = Ok (0, y) w' \<Longrightarrow> \<exists>x. y = Some x \<and> P x"
  unfolding gets_def by blast

lemma gets_mono: "gets P m \<Longrightarrow> (\<And>x. P x \<Longrightarrow> Q x) \<Longrightarrow> gets Q m"
  unfolding gets_def by blast

named_theorems gets_rules "what receive functions store"

lemma gets_read_length: "gets (\<lambda>bs. length bs = n) (plcBufferRead n)"
  by (auto simp: gets_def plcBufferRead_def bindM_Ok_iff needM_def mem_read_def stuckM_def split: if_splits)

lemma gets_read: "gets (\<lambda>_. True) (plcBufferRead n)"
  by (rule gets_mono [OF gets_read_length]) simp

lemma gets_return [gets_rules]: "P x \<Longrightarrow> gets P (returnM (res, Some x))"
  by (simp add: gets_def)

lemma gets_failed [gets_rules]: "res \<noteq> 0 \<Longrightarrow> gets P (returnM (res, y))"
  by (simp add: gets_def)

lemma gets_if: "(b \<Longrightarrow> gets P m) \<Longrightarrow> (\<not> b \<Longrightarrow> gets P m') \<Longrightarrow> gets P (if b then m else m')"
  by simp

lemma gets_stop [gets_rules]: "gets P (elogM e)" "gets P (stuckM u)"
  by (simp_all add: gets_def prog_simps)

lemma gets_bind:
  assumes "\<And>x. gets P (f x)"
  shows "gets P (bindM m f)"
  using assms unfolding gets_def bindM_Ok_iff by blast

lemma gets_bind2:
  assumes "\<And>res x. gets P (f res x)"
  shows "gets P (bindM m (\<lambda>(res, x). f res x))"
  by (rule gets_bind) (use assms in auto)

text \<open>What was read without an error was stored.\<close>

lemma gets_map:
  assumes "gets P m" and "\<And>x. P x \<Longrightarrow> Q (g x)"
  shows "gets Q (bindM m (\<lambda>(res, x). returnM (res, map_option g x)))"
proof (rule getsI)
  fix w y w'
  assume "bindM m (\<lambda>(res, x). returnM (res, map_option g x)) w = Ok (0, y) w'"
  then obtain x where "m w = Ok (0, x) w'" "y = map_option g x" by (auto simp: bindM_Ok_iff)
  with getsD [OF assms(1), of w x w'] assms(2) show "\<exists>x. y = Some x \<and> Q x" by auto
qed

lemma gets_numbers [gets_rules]:
  "gets (\<lambda>_. True) receive_char" "gets (\<lambda>_. True) receive_int16" "gets (\<lambda>_. True) receive_int32"
  "gets (\<lambda>_. True) receive_uint32" "gets (\<lambda>_. True) receive_int64" "gets (\<lambda>_. True) receive_float4"
  "gets (\<lambda>_. True) receive_float8" "gets (\<lambda>_. True) (receive_raw n)"
  unfolding receive_char_def receive_int16_def receive_int32_def receive_uint32_def receive_int64_def
    receive_float4_def receive_float8_def receive_raw_def
  by (intro gets_map [OF gets_read] gets_read TrueI)+

lemma gets_cstring [gets_rules]: "gets (\<lambda>_. True) receive_cstring"
  unfolding receive_cstring_def
  by (rule gets_map [OF gets_read] gets_if gets_return gets_failed gets_bind2 gets_bind TrueI | simp)+

lemma gets_int: "(in_int x \<Longrightarrow> gets P (f x)) \<Longrightarrow> gets P (bindM (intM x) f)"
  by (cases "in_int x") (simp, simp add: intM_def bindM_def stuckM_def gets_def)

lemma gets_bytea [gets_rules]: "gets (\<lambda>s. in_int (int (length s) + 4)) receive_bytea"
proof -
  have "gets (\<lambda>s. in_int (int (length s) + 4)) (plcBufferRead (size_of_int n))" if "0 < n" "in_int (n + 4)" for n
    by (rule gets_mono [OF gets_read_length]) (use that in \<open>simp add: in_int_def size_of_int_nonneg\<close>)
  then show ?thesis
    unfolding receive_bytea_def
    by (intro gets_bind2 gets_if gets_failed gets_bind gets_int gets_return) (simp_all add: in_int_def INT_MAX_def)
qed

lemma gets_store:
  assumes "gets P m" and "\<And>x. P x \<Longrightarrow> Q (Rawdata False (f x))"
  shows "gets Q (store f m)"
  unfolding store_def using assms by (rule gets_map)

lemma or_res_zero: "or_res res m w = Ok (0, y) w' \<longleftrightarrow> res = 0 \<and> m w = Ok (0, y) w'"
  by (auto simp: or_res_def bindM_Ok_iff)

lemma gets_or: "gets P m \<Longrightarrow> gets P (or_res res m)"
  unfolding gets_def or_res_zero by blast

lemma gather_zero:
  assumes "\<And>x. x \<in> set xs \<Longrightarrow> gets (P x) (f x)" and "gather res f n xs w = Ok (0, ys) w'"
  shows "res = 0 \<and> length ys = n \<and> n \<le> length xs \<and> list_all2 P (take n xs) ys"
  using assms
proof (induction res f n xs arbitrary: w ys rule: gather.induct)
  case (3 res f n x xs)
  then obtain r y w1 ys' where f: "f x w = Ok (r, y) w1" and rest: "gather (res OR r) f n xs w1 = Ok (0, ys') w'"
    and ys: "ys = (case y of None \<Rightarrow> ys' | Some y \<Rightarrow> y # ys')"
    by (auto simp: bindM_Ok_iff)
  from "3.IH" [OF _ rest] "3.prems"(1) have ih: "res OR r = 0" "length ys' = n" "n \<le> length xs" "list_all2 P (take n xs) ys'"
    by auto
  then have "res = 0" "r = 0" by simp_all
  with getsD [OF "3.prems"(1), of x w y w1] f obtain v where "y = Some v" "P x v" by auto
  with ih ys \<open>res = 0\<close> show ?case by simp
qed (auto simp: stuckM_def)

lemma gather0_zero:
  assumes "\<And>x. x \<in> set xs \<Longrightarrow> gets (P x) (f x)" and "gather0 res f n xs w = Ok (0, ys) w'"
  shows "res = 0 \<and> length ys = n \<and> n \<le> length xs \<and> list_all2 P (take n xs) ys"
  using assms
proof (induction res f n xs arbitrary: w ys rule: gather0.induct)
  case (3 res f n x xs)
  show ?case
  proof (cases "res = 0")
    case True
    with 3 obtain r y w1 ys' where f: "f x w = Ok (r, y) w1" and rest: "gather0 (res OR r) f n xs w1 = Ok (0, ys') w'"
      and ys: "ys = (case y of None \<Rightarrow> ys' | Some y \<Rightarrow> y # ys')"
      by (auto simp: bindM_Ok_iff)
    from "3.IH" [OF True _ rest] "3.prems"(1) f have ih: "res OR r = 0" "length ys' = n" "n \<le> length xs" "list_all2 P (take n xs) ys'"
      by auto
    then have "r = 0" by simp
    with getsD [OF "3.prems"(1), of x w y w1] f obtain v where "y = Some v" "P x v" by auto
    with ih ys True show ?thesis by simp
  qed (use 3 in simp)
qed (auto simp: stuckM_def split: if_splits)

text \<open>
  \<open>res |= f(...)\<close> in a sequence: on the one hand everything went well so far, on the other the code that follows cannot
  return 0 any more.
\<close>

lemma gets_first:
  assumes "gets P m" and "\<And>x. P x \<Longrightarrow> gets Q (f 0 (Some x))" and "\<And>r x. r \<noteq> 0 \<Longrightarrow> gets Q (f r x)"
  shows "gets Q (bindM m (\<lambda>(res, x). f res x))"
proof (rule getsI)
  fix w y w'
  assume "bindM m (\<lambda>(res, x). f res x) w = Ok (0, y) w'"
  then obtain r x w1 where m: "m w = Ok (r, x) w1" and f: "f r x w1 = Ok (0, y) w'"
    by (auto simp: bindM_Ok_iff)
  show "\<exists>v. y = Some v \<and> Q v"
  proof (cases "r = 0")
    case True
    with getsD [OF assms(1)] m obtain v where "x = Some v" "P v" by blast
    with True f getsD [OF assms(2)] show ?thesis by simp
  qed (use f getsD [OF assms(3)] in simp)
qed

lemma gets_next:
  assumes "gets P m" and "\<And>x. res = 0 \<Longrightarrow> P x \<Longrightarrow> gets Q (f 0 (Some x))" and "\<And>r x. r \<noteq> 0 \<Longrightarrow> gets Q (f r x)"
  shows "gets Q (bindM (or_res res m) (\<lambda>(res, x). f res x))"
proof -
  have "gets (\<lambda>x. res = 0 \<and> P x) (or_res res m)"
    using assms(1) unfolding gets_def or_res_zero by blast
  then show ?thesis by (rule gets_first) (use assms(2,3) in auto)
qed

lemma gets_lost:
  assumes "res \<noteq> 0" and "\<And>r x. r \<noteq> 0 \<Longrightarrow> gets Q (f r x)"
  shows "gets Q (bindM (or_res res m) (\<lambda>(res, x). f res x))"
proof (rule getsI)
  fix w y w'
  assume "bindM (or_res res m) (\<lambda>(res, x). f res x) w = Ok (0, y) w'"
  then obtain r x w1 where "f (res OR r) x w1 = Ok (0, y) w'" by (auto simp: bindM_Ok_iff or_res_def)
  moreover have "res OR r \<noteq> 0" using assms(1) by simp
  ultimately show "\<exists>v. y = Some v \<and> Q v" using getsD [OF assms(2)] by blast
qed

lemma gets_need_Some: "gets Q (f x) \<Longrightarrow> gets Q (bindM (needM u (Some x)) f)"
  by (simp add: needM_def)

text \<open>The loops that fill an array of objects of one kind.\<close>

lemma gets_objects:
  assumes "gets P m" and "\<And>ys. length ys = n \<Longrightarrow> \<forall>y \<in> set ys. P y \<Longrightarrow> Q (g ys)"
  shows "gets Q (bindM (gather0 res (\<lambda>_. m) n (replicate n ())) (\<lambda>(res, ys). returnM (res, Some (g ys))))"
proof (rule getsI)
  fix w y w'
  assume "bindM (gather0 res (\<lambda>_. m) n (replicate n ())) (\<lambda>(res, ys). returnM (res, Some (g ys))) w = Ok (0, y) w'"
  then obtain ys where ys: "gather0 res (\<lambda>_. m) n (replicate n ()) w = Ok (0, ys) w'" "y = Some (g ys)"
    by (auto simp: bindM_Ok_iff)
  from gather0_zero [where P = "\<lambda>_. P", OF assms(1) ys(1)] have "length ys = n" "list_all2 (\<lambda>_. P) (replicate n ()) ys" by simp_all
  then have "\<forall>v \<in> set ys. P v" by (metis in_set_conv_nth list_all2_nthD2)
  with assms(2) ys(2) \<open>length ys = n\<close> show "\<exists>x. y = Some x \<and> Q x" by simp
qed

section \<open>Shapes\<close>

fun shaped_type :: "plcType \<Rightarrow> bool" where
  "shaped_type (PlcType t n nm subs) \<longleftrightarrow>
     (if nested t then length subs = nat (sint n) \<and> (\<forall>s \<in> set subs. shaped_type s) else n = 0 \<and> subs = [])"

text \<open>The header of an array with \<open>n\<close> elements.\<close>

definition shaped_meta :: "plcDatatype \<Rightarrow> plcArrayMeta \<Rightarrow> nat \<Rightarrow> bool" where
  "shaped_meta dt m n \<longleftrightarrow> atype m = dt \<and> length (dims m) = nat (sint (ndims m))
     \<and> dims_size (if dims m = [] then 0 else 1) (dims m) = Some (sint (asize m)) \<and> n = nat (sint (asize m))"

function shaped :: "plcType \<Rightarrow> rawdata \<Rightarrow> bool" where
  "shaped t (Rawdata isn v) =
     (if isn then v = None
      else (case v of
          None \<Rightarrow> ty t = PLC_DATA_TEXT
        | Some (VInt1 x) \<Rightarrow> ty t = PLC_DATA_INT1
        | Some (VInt2 x) \<Rightarrow> ty t = PLC_DATA_INT2
        | Some (VInt4 x) \<Rightarrow> ty t = PLC_DATA_INT4
        | Some (VInt8 x) \<Rightarrow> ty t = PLC_DATA_INT8
        | Some (VFloat4 x) \<Rightarrow> ty t = PLC_DATA_FLOAT4
        | Some (VFloat8 x) \<Rightarrow> ty t = PLC_DATA_FLOAT8
        | Some (VText s) \<Rightarrow> ty t = PLC_DATA_TEXT
        | Some (VBytea s) \<Rightarrow> ty t = PLC_DATA_BYTEA \<and> in_int (int (length s) + 4)
        | Some (VIter m ds) \<Rightarrow> False
        | Some (VArray m ds) \<Rightarrow> ty t = PLC_DATA_ARRAY \<and> subTypes t \<noteq> []
            \<and> shaped_meta (ty (hd (subTypes t))) m (length ds)
            \<and> (\<forall>d \<in> set ds. shaped (hd (subTypes t)) d)
        | Some (VUdt ds) \<Rightarrow> ty t = PLC_DATA_UDT \<and> length ds = nat (sint (nSubTypes t))
            \<and> length ds \<le> length (subTypes t) \<and> (\<forall>(t, d) \<in> set (zip (subTypes t) ds). shaped t d)))"
  by pat_completeness auto
termination
  by (relation "measure (\<lambda>(t, d). size d)") (auto dest: zip_size_le elem_size_le)

definition shaped_row :: "plcType list \<Rightarrow> rawdata list \<Rightarrow> bool" where
  "shaped_row ts ds \<longleftrightarrow> list_all2 shaped ts ds"

fun shaped_message :: "plcMessage \<Rightarrow> bool" where
  "shaped_message (MsgCallreq c) \<longleftrightarrow> shaped_type (retType c) \<and> length (args c) = nat (sint (nargs c))
     \<and> (\<forall>a \<in> set (args c). shaped_type (argType a) \<and> shaped (argType a) (argData a))"
| "shaped_message (MsgResult r) \<longleftrightarrow> length (types r) = nat (sint (cols r)) \<and> length (names r) = nat (sint (cols r))
     \<and> (\<forall>t \<in> set (types r). shaped_type t) \<and> length (rdata r) = nat (sint (rows r))
     \<and> (\<forall>ds \<in> set (rdata r). shaped_row (types r) ds) \<and> exception_callback r = None"
| "shaped_message (MsgUnknown t) \<longleftrightarrow> False"
| "shaped_message m \<longleftrightarrow> True"

section \<open>Types and values\<close>

lemma gets_type_d: "gets shaped_type (receive_type_d d)"
proof (induction d)
  case (Suc d)
  show ?case
    unfolding receive_type_d.simps Let_def
    by (rule gets_objects [OF Suc] gets_if gets_return gets_bind2 gets_bind | simp)+
qed (simp add: gets_rules)

lemma gets_type [gets_rules]: "gets shaped_type receive_type"
  using gets_type_d by (auto simp: gets_def receive_type_def)

lemma gets_dims:
  "receive_dims n res prd w = Ok (0, ds, q) w' \<Longrightarrow> res = 0 \<and> length ds = n \<and> dims_size prd ds = Some q"
proof (induction n arbitrary: res prd w ds)
  case (Suc n)
  then obtain r d t t' t'' ds' where d: "receive_int32 w = Ok (r, Some d) t" "in_int (prd * sint d)" "ds = d # ds'"
    and rest: "receive_dims n (res OR r) (prd * sint d) t' = Ok (0, ds', q) w'"
    by (auto simp: bindM_Ok_iff needM_def intM_def returnM_def stuckM_def split: option.splits if_splits)
  from Suc.IH [OF rest] d(2,3) show ?case by simp
qed simp

lemma dims_size_int: "dims_size p ds = Some q \<Longrightarrow> in_int p \<Longrightarrow> in_int q"
  by (induction p ds rule: dims_size.induct) (auto split: if_splits)

text \<open>The four mutually recursive functions.\<close>

abbreviation received_array :: "plcType \<Rightarrow> rawdata \<Rightarrow> bool" where
  "received_array t d \<equiv> \<exists>m ds. d = Rawdata False (Some (VArray m ds)) \<and> shaped_meta (ty t) m (length ds) \<and> (\<forall>d \<in> set ds. shaped t d)"

abbreviation received_udt :: "plcType \<Rightarrow> rawdata \<Rightarrow> bool" where
  "received_udt t d \<equiv> \<exists>ds. d = Rawdata False (Some (VUdt ds)) \<and> length ds = nat (sint (nSubTypes t))
     \<and> length ds \<le> length (subTypes t) \<and> (\<forall>(t, d) \<in> set (zip (subTypes t) ds). shaped t d)"

lemma fill_zero:
  assumes "\<And>e. gets P (cell e)" and "fill_array cell res meta prd w = Ok (0, y) w'"
  shows "res = 0 \<and> (\<exists>ds. y = Some (Rawdata False (Some (VArray meta ds))) \<and> length ds = nat prd \<and> (\<forall>d \<in> set ds. P d))"
proof (cases "0 < prd")
  case True
  with assms(2) obtain e w1 ds where g: "gather0 res (\<lambda>_. cell e) (nat prd) (replicate (nat prd) ()) w1 = Ok (0, ds) w'"
    and y: "y = Some (Rawdata False (Some (VArray meta ds)))"
    by (auto simp: fill_array_def bindM_Ok_iff split: if_splits)
  from gather0_zero [where P = "\<lambda>_. P", OF assms(1) g] have "res = 0" "length ds = nat prd"
    "list_all2 (\<lambda>_. P) (replicate (nat prd) ()) ds" by simp_all
  then have "\<forall>d \<in> set ds. P d" by (metis in_set_conv_nth list_all2_nthD2)
  with y \<open>res = 0\<close> \<open>length ds = _\<close> show ?thesis by blast
qed (use assms(2) in \<open>auto simp: fill_array_def\<close>)

lemma gets_array:
  assumes "\<And>e. gets (shaped t) (receive_cell e t)"
  shows "gets (received_array t) (receive_array t)"
proof -
  have "gets (received_array t) (bindM (receive_dims (nat (sint nd)) res (if 0 < sint nd then 1 else 0)) (\<lambda>(res, ds, prd).
     fill_array (\<lambda>entrylen. receive_cell entrylen t) res
       \<lparr>atype = ty t, ndims = nd, dims = ds, asize = word_of_int prd\<rparr> prd))" for res and nd :: i32
  proof (rule getsI)
    fix w y w'
    let ?meta = "\<lambda>ds prd. \<lparr>atype = ty t, ndims = nd, dims = ds, asize = word_of_int prd\<rparr>"
    assume "bindM (receive_dims (nat (sint nd)) res (if 0 < sint nd then 1 else 0)) (\<lambda>(res, ds, prd).
     fill_array (\<lambda>entrylen. receive_cell entrylen t) res (?meta ds prd) prd) w = Ok (0, y) w'"
    then obtain r ds q w1 where dims: "receive_dims (nat (sint nd)) res (if 0 < sint nd then 1 else 0) w = Ok (r, ds, q) w1"
      and fill: "fill_array (\<lambda>e. receive_cell e t) r (?meta ds q) q w1 = Ok (0, y) w'"
      by (auto simp: bindM_Ok_iff)
    from fill_zero [OF assms fill] obtain cells where cells: "r = 0" "y = Some (Rawdata False (Some (VArray (?meta ds q) cells)))"
      "length cells = nat q" "\<forall>d \<in> set cells. shaped t d" by blast
    from gets_dims [OF dims [unfolded cells(1)]] have ds: "length ds = nat (sint nd)"
      "dims_size (if 0 < sint nd then 1 else 0) ds = Some q" by simp_all
    have "in_int q" by (rule dims_size_int [OF ds(2)]) (simp add: in_int_def INT_MAX_def)
    then have "sint (word_of_int q :: i32) = q" by (simp add: in_int_def INT_MAX_def signed_take_bit_int_eq_self sint_sbintrunc')
    moreover have "0 < sint nd \<longleftrightarrow> ds \<noteq> []" using ds(1) by (cases "0 < sint nd") auto
    ultimately have "shaped_meta (ty t) (?meta ds q) (length cells)" using ds cells(3) by (auto simp: shaped_meta_def)
    with cells show "\<exists>x. y = Some x \<and> received_array t x" by blast
  qed
  note main = this
  show ?thesis
    unfolding receive_array.simps by (rule main gets_bind2 gets_bind)+
qed

lemma gets_udt:
  assumes "\<And>s. s \<in> set (subTypes t) \<Longrightarrow> gets (shaped s) (receive_raw_object s)"
  shows "gets (received_udt t) (receive_udt t)"
proof (rule getsI)
  fix w y w'
  assume "receive_udt t w = Ok (0, y) w'"
  then obtain w1 ds where g: "gather0 0 receive_raw_object (nat (sint (nSubTypes t))) (subTypes t) w1 = Ok (0, ds) w'"
    and y: "y = Some (Rawdata False (Some (VUdt ds)))"
    by (auto simp: receive_udt.simps bindM_Ok_iff split: if_splits)
  let ?n = "nat (sint (nSubTypes t))"
  have "length ds = ?n" "?n \<le> length (subTypes t)" "list_all2 shaped (take ?n (subTypes t)) ds"
    using gather0_zero [where P = shaped, OF assms g] by simp_all
  moreover from this have "\<forall>(s, d) \<in> set (zip (subTypes t) ds). shaped s d"
    by (auto simp: set_zip list_all2_conv_all_nth)
  ultimately show "\<exists>x. y = Some x \<and> received_udt t x" using y by auto
qed

lemma shaped_scalars:
  "ty t = PLC_DATA_TEXT \<Longrightarrow> shaped t (Rawdata False (map_option VText s))"
  "ty t = PLC_DATA_BYTEA \<Longrightarrow> in_int (int (length bs) + 4) \<Longrightarrow> shaped t (Rawdata False (Some (VBytea bs)))"
  "ty t = PLC_DATA_INT1 \<Longrightarrow> shaped t (Rawdata False (Some (VInt1 b)))"
  "ty t = PLC_DATA_INT2 \<Longrightarrow> shaped t (Rawdata False (Some (VInt2 h)))"
  "ty t = PLC_DATA_INT4 \<Longrightarrow> shaped t (Rawdata False (Some (VInt4 i)))"
  "ty t = PLC_DATA_INT8 \<Longrightarrow> shaped t (Rawdata False (Some (VInt8 l)))"
  "ty t = PLC_DATA_FLOAT4 \<Longrightarrow> shaped t (Rawdata False (Some (VFloat4 i)))"
  "ty t = PLC_DATA_FLOAT8 \<Longrightarrow> shaped t (Rawdata False (Some (VFloat8 l)))"
  "shaped t (Rawdata True None)"
  by (cases s) simp_all

lemma shaped_received:
  "ty t = PLC_DATA_UDT \<Longrightarrow> received_udt t d \<Longrightarrow> shaped t d"
  "ty t = PLC_DATA_ARRAY \<Longrightarrow> subTypes t = s # ss \<Longrightarrow> received_array s d \<Longrightarrow> shaped t d"
  by auto

declare shaped.simps [simp del]

lemma gets_stored:
  "ty t = PLC_DATA_TEXT \<Longrightarrow> gets (shaped t) (store (map_option VText) receive_cstring)"
  "ty t = PLC_DATA_BYTEA \<Longrightarrow> gets (shaped t) (store (Some \<circ> VBytea) receive_bytea)"
  "ty t = PLC_DATA_INT1 \<Longrightarrow> gets (shaped t) (store (Some \<circ> VInt1) receive_char)"
  "ty t = PLC_DATA_INT2 \<Longrightarrow> gets (shaped t) (store (Some \<circ> VInt2) receive_int16)"
  "ty t = PLC_DATA_INT4 \<Longrightarrow> gets (shaped t) (store (Some \<circ> VInt4) receive_int32)"
  "ty t = PLC_DATA_INT8 \<Longrightarrow> gets (shaped t) (store (Some \<circ> VInt8) receive_int64)"
  "ty t = PLC_DATA_FLOAT4 \<Longrightarrow> gets (shaped t) (store (Some \<circ> VFloat4) receive_float4)"
  "ty t = PLC_DATA_FLOAT8 \<Longrightarrow> gets (shaped t) (store (Some \<circ> VFloat8) receive_float8)"
  by (auto intro!: gets_store [OF gets_numbers(1)] gets_store [OF gets_numbers(2)] gets_store [OF gets_numbers(3)]
      gets_store [OF gets_numbers(5)] gets_store [OF gets_numbers(6)] gets_store [OF gets_numbers(7)]
      gets_store [OF gets_cstring] gets_store [OF gets_bytea] shaped_scalars)

text \<open>A cell that is stored without its pointer has the width of its type.\<close>

lemma gets_plain_cell:
  assumes "ty t = dt" and "cell_value dt [] \<noteq> None"
  shows "gets (shaped t) (store (cell_value dt) (receive_raw n))"
  by (rule gets_store [OF gets_numbers(8)]) (use assms in \<open>cases dt; simp add: shaped_scalars\<close>)

lemma gets_raw_step:
  assumes "\<And>s. s \<in> set (subTypes t) \<Longrightarrow> gets (shaped s) (receive_raw_object s)"
    and "\<And>s. s \<in> set (subTypes t) \<Longrightarrow> gets (received_array s) (receive_array s)"
  shows "gets (shaped t) (receive_raw_object t)"
proof -
  have arr: "gets (shaped t) (receive_array s)" if "ty t = PLC_DATA_ARRAY" "subTypes t = s # ss" for s ss
    using gets_mono [OF assms(2) shaped_received(2) [OF that]] that(2) by simp
  have row: "gets (shaped t) (receive_udt t)" if "ty t = PLC_DATA_UDT"
    by (rule gets_mono [OF gets_udt [OF assms(1)]]) (auto intro: shaped_received(1) [OF that])
  show ?thesis
    unfolding receive_raw_object.simps
    by (rule gets_bind2 gets_bind gets_if gets_return shaped_scalars)+
      (cases "ty t"; auto intro!: gets_bind gets_or gets_stored gets_stop arr row split: list.splits)
qed

lemma gets_cell_step:
  assumes "\<And>s. s \<in> set (subTypes t) \<Longrightarrow> gets (shaped s) (receive_raw_object s)"
  shows "gets (shaped t) (receive_cell e t)"
proof -
  have row: "gets (shaped t) (receive_udt t)" if "ty t = PLC_DATA_UDT"
    by (rule gets_mono [OF gets_udt [OF assms]]) (auto intro: shaped_received(1) [OF that])
  show ?thesis
    unfolding receive_cell.simps
    by (rule gets_bind2 gets_bind gets_if gets_return shaped_scalars)+
      (cases "ty t"; auto intro!: gets_bind gets_or gets_stored gets_stop row gets_plain_cell)
qed

lemma gets_objects_of_type: "gets (shaped t) (receive_raw_object t) \<and> (\<forall>e. gets (shaped t) (receive_cell e t))"
proof (induction t)
  case (PlcType dt n nm subs)
  let ?t = "PlcType dt n nm subs"
  have raw: "gets (shaped s) (receive_raw_object s)" and arr: "gets (received_array s) (receive_array s)"
    if "s \<in> set (subTypes ?t)" for s
    using PlcType gets_array [of s] that by simp_all
  show ?case using gets_raw_step [OF raw arr] gets_cell_step [OF raw] by blast
qed

lemma gets_raw_object [gets_rules]: "gets (shaped t) (receive_raw_object t)"
  using gets_objects_of_type by blast

section \<open>Messages\<close>

lemma gets_argument: "gets (\<lambda>a. shaped_type (argType a) \<and> shaped (argType a) (argData a)) receive_argument"
  unfolding receive_argument_def
  by (rule gets_first [OF gets_cstring], rule gets_next [OF gets_type], rule gets_need_Some,
      rule gets_next [OF gets_raw_object], simp add: gets_return, simp add: gets_failed)
    (rule gets_lost gets_bind gets_failed | assumption)+

lemma gets_call: "gets shaped_message receive_call"
  unfolding receive_call_def
  apply (rule gets_bind, rule gets_first [OF gets_cstring], rule gets_next [OF gets_cstring],
      rule gets_next [OF gets_numbers(4)], rule gets_next [OF gets_numbers(3)], rule gets_next [OF gets_type],
      rule gets_next [OF gets_numbers(3)], rule gets_next [OF gets_numbers(3)])
         apply (simp, rule gets_bind, rule gets_objects [OF gets_argument], simp)
        apply (rule gets_lost gets_bind gets_failed | assumption | simp add: gets_failed split: option.split)+
  done

lemma gets_exception: "gets shaped_message receive_exception"
  unfolding receive_exception_def
  by (rule gets_bind, rule gets_first [OF gets_cstring], rule gets_next [OF gets_cstring], simp add: gets_return)
    (rule gets_lost gets_failed | assumption)+

lemma gets_log: "gets shaped_message receive_log"
  unfolding receive_log_def
  by (rule gets_bind, rule gets_first [OF gets_numbers(3)], rule gets_next [OF gets_cstring], simp add: gets_return)
    (rule gets_lost gets_failed | assumption)+

lemma gets_sql: "gets shaped_message receive_sql"
  unfolding receive_sql_def receive_sql_statement_def
  by (rule gets_first [OF gets_numbers(3)], simp add: needM_def, intro impI conjI gets_bind gets_stop gets_map [OF gets_cstring])
    (simp_all add: gets_failed)

lemma gets_ping: "gets shaped_message receive_ping"
  unfolding receive_ping_def
  by (rule gets_bind, rule gets_first [OF gets_cstring]) (auto intro!: gets_bind gets_return simp: gets_failed)

lemma gets_column: "gets (\<lambda>c. shaped_type (fst c)) receive_column"
  unfolding receive_column_def
  by (rule gets_first [OF gets_type], rule gets_next [OF gets_cstring], simp add: gets_return)
    (rule gets_lost gets_failed | assumption)+

lemma gets_row:
  assumes "length ts = nat (sint ncols)"
  shows "gets (shaped_row ts) (receive_row ncols ts)"
proof (rule getsI)
  fix w y w'
  assume run: "receive_row ncols ts w = Ok (0, y) w'"
  show "\<exists>ds. y = Some ds \<and> shaped_row ts ds"
  proof (cases "0 < sint ncols")
    case True
    with run obtain w1 ds where "gather 0 receive_raw_object (nat (sint ncols)) ts w1 = Ok (0, ds) w'" "y = Some ds"
      by (auto simp: receive_row_def bindM_Ok_iff)
    with gather_zero [where P = shaped, OF gets_raw_object] assms show ?thesis by (fastforce simp: shaped_row_def)
  qed (use run assms in \<open>simp add: receive_row_def shaped_row_def\<close>)
qed

lemma gets_any_row: "gets (\<lambda>_. True) (receive_row ncols ts)"
  unfolding receive_row_def by (auto simp: gets_def bindM_Ok_iff split: if_splits)

lemma gets_table:
  "gets (\<lambda>r. shaped_message (MsgResult r)) (bindM (gather 0 (\<lambda>_. receive_column) (nat (sint ncols)) (replicate (nat (sint ncols)) ())) (\<lambda>(res, tns).
     bindM (gather0 res (\<lambda>_. receive_row ncols (List.map fst tns)) (nat (sint nrows)) (replicate (nat (sint nrows)) ()))
       (\<lambda>(res, rws). returnM (res, Some \<lparr>rows = nrows, cols = ncols, types = List.map fst tns,
          names = List.map snd tns, rdata = rws, exception_callback = None\<rparr>))))"
  (is "gets _ ?table")
proof (rule getsI)
  fix w y w'
  assume "?table w = Ok (0, y) w'"
  then obtain r tns w1 rws where cols: "gather 0 (\<lambda>_. receive_column) (nat (sint ncols)) (replicate (nat (sint ncols)) ()) w = Ok (r, tns) w1"
    and rows: "gather0 r (\<lambda>_. receive_row ncols (List.map fst tns)) (nat (sint nrows)) (replicate (nat (sint nrows)) ()) w1 = Ok (0, rws) w'"
    and y: "y = Some \<lparr>rows = nrows, cols = ncols, types = List.map fst tns,
          names = List.map snd tns, rdata = rws, exception_callback = None\<rparr>"
    by (auto simp: bindM_Ok_iff)
  have r: "r = 0" using gather0_zero [where P = "\<lambda>_ _. True", OF gets_any_row rows] by simp
  from gather_zero [where P = "\<lambda>_ c. shaped_type (fst c)", OF gets_column cols [unfolded r]]
  have tns: "length tns = nat (sint ncols)" "list_all2 (\<lambda>_ c. shaped_type (fst c)) (replicate (nat (sint ncols)) ()) tns" by simp_all
  then have "gets (shaped_row (List.map fst tns)) (receive_row ncols (List.map fst tns))" by (intro gets_row) simp
  from gather0_zero [where P = "\<lambda>_. shaped_row (List.map fst tns)", OF this rows]
  have rws: "length rws = nat (sint nrows)" "list_all2 (\<lambda>_. shaped_row (List.map fst tns)) (replicate (nat (sint nrows)) ()) rws" by simp_all
  have "\<forall>c \<in> set tns. shaped_type (fst c)" "\<forall>ds \<in> set rws. shaped_row (List.map fst tns) ds"
    using tns(2) rws(2) by (metis in_set_conv_nth list_all2_nthD2)+
  with y tns(1) rws(1) show "\<exists>r. y = Some r \<and> shaped_message (MsgResult r)" by simp
qed

text \<open>Releasing the result that is replaced does not touch the exception.\<close>

lemma gets_replaced:
  "gets P m \<Longrightarrow> gets P (bindM m (\<lambda>(res, err). bindM (needM Uninit ret) (\<lambda>ret. bindM (k ret) (\<lambda>_. returnM (res, err)))))"
  by (auto simp: gets_def bindM_Ok_iff)

lemma gets_message_of: "P (MsgResult r) \<Longrightarrow> gets P (returnM (res, map_option MsgResult (Some r)))"
  by (simp add: gets_def)

lemma gets_result_end:
  assumes "gets (\<lambda>r. shaped_message (MsgResult r)) m"
  shows "gets shaped_message (bindM m (\<lambda>(res, ret).
     bindM (or_res res receive_char) (\<lambda>(res, exc).
     bindM (needM Uninit exc) (\<lambda>exc. if exc = MT_EXCEPTION then
         bindM (or_res res receive_exception) (\<lambda>(res, err).
         bindM (needM Uninit ret) (\<lambda>ret. bindM (release_result False ret) (\<lambda>_. returnM (res, err))))
       else returnM (res, map_option MsgResult ret)))))"
  by (rule gets_first [OF assms], rule gets_next [OF gets_numbers(1)], rule gets_need_Some, rule gets_if,
      rule gets_replaced [OF gets_or [OF gets_exception]], rule gets_message_of, assumption)
    (rule gets_lost gets_bind gets_if gets_replaced gets_or [OF gets_exception] gets_failed | assumption)+

lemma gets_result: "gets shaped_message receive_result"
  unfolding receive_result_def
  by (rule gets_bind, rule gets_first [OF gets_numbers(3)], rule gets_next [OF gets_numbers(3)], rule gets_result_end,
      simp only: both.simps option.case prod.case if_True refl, rule gets_bind, rule gets_bind, rule gets_bind, rule gets_table)
    (rule gets_lost gets_bind gets_result_end | assumption | simp add: gets_failed split: option.split)+

lemma gets_message: "gets shaped_message pljvm_channel_receive"
  unfolding pljvm_channel_receive_def
  by (rule gets_bind2 gets_if gets_ping gets_call gets_result gets_exception gets_log gets_sql gets_stop gets_failed | simp)+

text \<open>
  C6: whatever bytes arrive and however, a message that \<open>pljvm_channel_receive\<close> returns with 0 is well shaped: as many
  arguments, columns, rows, cells and subtypes as its counts say, arrays as long as the product of their dimensions,
  and behind every value pointer an object of the type that goes with it, at every depth.
\<close>

theorem received_well_shaped:
  assumes "pljvm_channel_receive w = Ok (0, y) w'"
  shows "\<exists>m. y = Some m \<and> shaped_message m"
  using getsD [OF gets_message assms] .

lemma received_well_shaped_witness:
  "\<exists>m w'. pljvm_channel_receive (world_of 1 [RData (enc_message (MsgCallreq ex_call))] []) = Ok (0, Some m) w' \<and> shaped_message m"
proof -
  obtain m w' where "pljvm_channel_receive (world_of 1 [RData (enc_message (MsgCallreq ex_call))] []) = Ok (0, Some m) w'"
    using channel_receive_ok [of "MsgCallreq ex_call" 1 "world_of 1 [RData (enc_message (MsgCallreq ex_call))] []" "[]"]
    by (auto simp del: enc_message.simps ok_message.simps message_depth.simps)
  with received_well_shaped [OF this] show ?thesis by auto
qed

end
