(* ===== verification/Typed_Result.thy ===== *)
theory Typed_Result
  imports Well_Shaped Call_Props
begin

text \<open>
  Results whose type is the function's. \<open>pljvm_process_result\<close> goes by the function's type alone; when the executor's message
  agrees with it, at every depth, and marks what is NULL as NULL, its conversion stays within the defined behaviour of C.
\<close>

section \<open>Agreement of a message's type with a description\<close>

function agree :: "plcType \<Rightarrow> plcTypeInfo \<Rightarrow> bool" where
  "agree t (TypeInfo f subs) \<longleftrightarrow> ty t = datatype_of f \<and> \<not> attisdropped f
     \<and> (nested (datatype_of f) \<longrightarrow> nat (sint (nSubTypes t)) = length subs \<and> length (subTypes t) = length subs
          \<and> (\<forall>(t, s) \<in> set (zip (subTypes t) subs). agree t s))"
  by pat_completeness auto
termination
  by (relation "measure (\<lambda>(t, ti). size ti)") (auto dest: zip_size_le)

section \<open>Descriptions that fit\<close>

text \<open>The return type of a function that was just looked up fits the catalogs it was looked up in.\<close>

lemma built_fits: "built cat fcinfo row f \<Longrightarrow> blessed cat (result_desc fcinfo) \<Longrightarrow> fits cat (rettype f)"
  by (simp add: built_def filled_ok_def types_of_def)

section \<open>The conversions\<close>

lemma quiet_call_fm: "quiet (call_fm r) (\<lambda>_. True)"
  unfolding call_fm_def by (intro quiet_intros) auto

lemma quiet_type_length: "quiet (plc_get_type_length dt) (\<lambda>_. True)"
  by (cases dt) (auto intro: quiet_intros)

lemma quiet_intM: "in_int x \<Longrightarrow> quiet (intM x) (\<lambda>_. True)"
  by (simp add: intM_def quiet_return)

lemma quiet_checkM: "b \<Longrightarrow> quiet (checkM u b) (\<lambda>_. True)"
  by (simp add: checkM_def quiet_return)

lemma quiet_array:
  assumes "shaped_meta dt m (length ds)" and "\<And>v. Rawdata False v \<in> set ds \<Longrightarrow> quiet (elem_in v) (\<lambda>_. True)"
  shows "quiet (plc_datum_from_array fm f elem_in (Some (VArray m ds))) (\<lambda>_. True)"
proof -
  have "quiet (case c of Rawdata True _ \<Rightarrow> returnM None | Rawdata False x \<Rightarrow> bindM (elem_in x) (\<lambda>d. returnM (Some d))) (\<lambda>_. True)"
    if "c \<in> set ds" for c
    using assms(2) that by (cases c) (auto split: bool.split intro!: quiet_intros)
  with assms(1) show ?thesis
    by (auto simp: plc_datum_from_array_def need_value_def shaped_meta_def
        intro!: quiet_intros quiet_call_fm quiet_type_length quiet_checkM)
qed

lemma quiet_udt:
  assumes kept: "\<forall>t \<in> set subs. \<not> attisdropped (info t)" and len: "length ds = length subs" and desc: "row_fits cat f (length subs)"
    and conv: "\<And>i v. i < length subs \<Longrightarrow> ds ! i = Rawdata False v \<Longrightarrow> quiet (infn (subs ! i) v) (\<lambda>_. True)"
  shows "quiet (plc_datum_from_udt fm cat f infn subs (Some (VUdt ds))) (\<lambda>_. True)"
proof -
  have attr: "quiet (udt_attribute infn subs ds i) (\<lambda>x. x \<noteq> None)" if "i < length subs" for i
  proof -
    have j: "not_dropped (take i subs) = i" using not_dropped_all [OF kept, of i] that by simp
    show ?thesis
      using that kept len conv [OF that] unfolding udt_attribute_def Let_def j
      by (cases "ds ! i") (auto split: bool.split intro!: quiet_return quiet_bind [where P = "\<lambda>_. True"])
  qed
  let ?P = "\<lambda>vals. None \<notin> set vals \<and> length vals = length subs"
  have vals: "quiet (mapM (udt_attribute infn subs ds) [0..<length subs]) ?P"
    by (rule quiet_mono, rule quiet_mapM [where P = "\<lambda>_ x. x \<noteq> None"], rule attr)
      (auto simp: list_all2_conv_all_nth in_set_conv_nth)
  have "quiet (heap_form_tuple fm d vals) (\<lambda>_. True)"
    if "?P vals" "rowtype_tupdesc cat (typeOid f) (typmod f) = Some d" for vals d
    using that desc by (auto simp: heap_form_tuple_def row_fits_def dest: in_set_takeD
        intro!: quiet_bind [where P = "\<lambda>_. True"] quiet_checkM quiet_call_fm)
  then have "quiet (case rowtype_tupdesc cat (typeOid f) (typmod f) of
           None \<Rightarrow> elogM (E_msg ''type is not composite'')
         | Some desc \<Rightarrow> heap_form_tuple fm desc vals) (\<lambda>_. True)" if "?P vals" for vals
    using that by (auto split: option.split intro: quiet_elog)
  from quiet_bind [OF vals this] show ?thesis
    by (auto simp: plc_datum_from_udt_def need_value_def intro!: quiet_bind [where P = "\<lambda>_. True", OF quiet_alloc])
qed

lemma agree_sub:
  assumes "agree t (TypeInfo f subs)" and "nested (datatype_of f)"
  shows "nat (sint (nSubTypes t)) = length subs" "length (subTypes t) = length subs"
    and "i < length subs \<Longrightarrow> agree (subTypes t ! i) (subs ! i)"
proof -
  show len: "nat (sint (nSubTypes t)) = length subs" "length (subTypes t) = length subs" using assms by auto
  assume "i < length subs"
  with len(2) have "(subTypes t ! i, subs ! i) \<in> set (zip (subTypes t) subs)" by (auto simp: in_set_zip)
  with assms show "agree (subTypes t ! i) (subs ! i)" by auto
qed

lemma in_datum_safe:
  assumes "wf_info ti" and "io_info ti" and "agree t ti" and "shaped t (Rawdata False v)" and "marked (Rawdata False v)"
    and "fits cat ti"
  shows "quiet (in_datum fm cat ti v) (\<lambda>_. True)"
  using assms
proof (induction ti arbitrary: t v)
  case (TypeInfo f subs)
  obtain x where x: "v = Some x" using TypeInfo.prems(5) by (cases v) simp_all
  have t: "ty t = datatype_of f" and io: "io_match f" using TypeInfo.prems(2,3) by auto
  note sh = TypeInfo.prems(4) [unfolded x shaped.simps]
  from io obtain inp out where inp: "infunc f = Some inp" "(datatype_of f, out, inp) \<in> io_table" by (auto simp: io_match_def)
  consider (arr) "inp = From_array" "datatype_of f = PLC_DATA_ARRAY"
    | (udt) "inp = From_udt \<or> inp = From_udt_ptr" "datatype_of f = PLC_DATA_UDT"
    | (scalar) "inp \<notin> {From_array, From_udt, From_udt_ptr}"
    using inp(2) by (auto simp: io_table_def)
  then show ?case
  proof cases
    case arr
    then obtain s where s: "subs = [s]" using TypeInfo.prems(1) by (auto simp: length_Suc_conv)
    obtain m ds where ds: "x = VArray m ds" "shaped_meta (ty (hd (subTypes t))) m (length ds)"
      "\<forall>d \<in> set ds. shaped (hd (subTypes t)) d"
      using sh t arr(2) by (cases x) auto
    have "agree (subTypes t ! 0) s" "length (subTypes t) = 1" using agree_sub [OF TypeInfo.prems(3)] arr(2) s by auto
    then have "agree (hd (subTypes t)) s" by (cases "subTypes t") auto
    then have "quiet (in_datum fm cat s v') (\<lambda>_. True)" if "Rawdata False v' \<in> set ds" for v'
      using TypeInfo.IH [of s "hd (subTypes t)" v'] TypeInfo.prems(1,2,5,6) ds that by (auto simp: s x)
    with quiet_array [OF ds(2)] show ?thesis by (simp add: in_datum.simps inp arr s x ds(1))
  next
    case udt
    obtain ds where ds: "x = VUdt ds" "length ds = length subs" "\<forall>(t, d) \<in> set (zip (subTypes t) ds). shaped t d"
      using sh t udt(2) agree_sub(1) [OF TypeInfo.prems(3)] by (cases x) auto
    have sub: "agree (subTypes t ! i) (subs ! i)" "length (subTypes t) = length subs" if "i < length subs" for i
      using agree_sub [OF TypeInfo.prems(3)] udt(2) that by auto
    have kept: "\<forall>s \<in> set subs. \<not> attisdropped (info s)"
    proof
      fix s
      assume "s \<in> set subs"
      then obtain i where "i < length subs" "s = subs ! i" by (auto simp: in_set_conv_nth)
      with sub(1) show "\<not> attisdropped (info s)" by (cases s) fastforce
    qed
    have "quiet (in_datum fm cat (subs ! i) v') (\<lambda>_. True)" if i: "i < length subs" and v': "ds ! i = Rawdata False v'" for i v'
    proof -
      have mem: "subs ! i \<in> set subs" "Rawdata False v' \<in> set ds" using i v' ds(2) by (auto simp: in_set_conv_nth)
      have "shaped (subTypes t ! i) (Rawdata False v')"
        using ds(2,3) sub(2) [OF i] i v' by (fastforce simp: set_zip)
      with TypeInfo.IH [OF mem(1), of "subTypes t ! i" v'] mem TypeInfo.prems(1,2,5,6) sub(1) [OF i]
      show ?thesis by (auto simp: x ds(1))
    qed
    moreover have "row_fits cat f (length subs)" using TypeInfo.prems(6) udt(1) inp(1) by auto
    ultimately have "quiet (plc_datum_from_udt fm cat f (in_datum fm cat) subs (Some (VUdt ds))) (\<lambda>_. True)"
      by (intro quiet_udt [OF kept ds(2)])
    then show ?thesis using udt by (auto simp: in_datum.simps inp x ds(1))
  next
    case scalar
    with inp(2) sh t show ?thesis
      by (cases x) (auto simp: io_table_def in_datum.simps inp(1) x scalar_conversions intro!: quiet_intros quiet_intM)
  qed
qed

text \<open>
  C7: whatever bytes an executor sends: when they are received as a result of one column, whose type agrees with the return type
  of the function, no value that is NULL is unmarked, and the description of the return type fits the catalogs (no column was
  added to a row type since it was filled), then every row is converted, or an error is raised, with nothing of the
  server's state changed. No pointer is read as what it is not, and nothing is read outside its block.
\<close>

theorem typed_result_safe:
  assumes received: "pljvm_channel_receive w = Ok (0, Some (MsgResult r)) w'"
    and typed: "sint (cols r) = 1" "agree (hd (types r)) (rettype f)" "\<forall>ds \<in> set (rdata r). \<forall>d \<in> set ds. marked d"
    and f: "procs (cache s) p = Some f" "sendable_proc f" "fits cat (rettype f)" and k: "0 \<le> k"
  shows "ensures (pljvm_process_result fm cat p \<lparr>resmsg = r, resrow = k\<rparr> s) (\<lambda>_ s'. s' = s) (\<lambda>_ s'. s' = s) (\<lambda>_. False)"
proof (cases "rows r = 0 \<or> sint (rows r) \<le> k")
  case True
  with typed(1) show ?thesis by (auto simp: pljvm_process_result_def)
next
  case False
  from getsD [OF gets_message received] have "shaped_message (MsgResult r)" by simp
  then have r: "length (types r) = 1" "length (rdata r) = nat (sint (rows r))" "\<forall>ds \<in> set (rdata r). shaped_row (types r) ds"
    using typed(1) by simp_all
  then obtain t where t: "types r = [t]" by (cases "types r") auto
  have i: "nat k < length (rdata r)" using False r(2) k by auto
  then have "shaped_row [t] (rdata r ! nat k)" using r(3) t by simp
  then obtain isn v where d: "rdata r ! nat k = [Rawdata isn v]" "shaped t (Rawdata isn v)"
    by (auto simp: shaped_row_def list_all2_Cons1) (metis rawdata.exhaust)
  have row: "nth_opt (rdata r) (nat k) = Some [Rawdata isn v]" using i d(1) by (simp add: nth_opt_def)
  show ?thesis
  proof (cases isn)
    case True
    with False typed(1) row show ?thesis by (simp add: pljvm_process_result_def)
  next
    case not_null: False
    have "marked (Rawdata isn v)" using typed(3) i d(1) by (metis list.set_intros(1) nth_mem)
    moreover have "wf_info (rettype f)" "io_info (rettype f)"
      using f(2) by (simp_all add: sendable_proc_def types_of_def sendable_type_def)
    ultimately have "quiet (in_datum fm cat (rettype f) v) (\<lambda>_. True)"
      using in_datum_safe [of "rettype f" t v] typed(2) d(2) t not_null f(3) by simp
    from quietD [OF in_world.via_quiet [OF this], of s]
    have "ensures (in_world (in_datum fm cat (rettype f) v) s) (\<lambda>_ s'. s' = s) (\<lambda>_ s'. s' = s) (\<lambda>_. False)" by simp
    then have "ensures (bindM (in_world (in_datum fm cat (rettype f) v)) (\<lambda>d. returnM (Some d)) s) (\<lambda>_ s'. s' = s) (\<lambda>_ s'. s' = s) (\<lambda>_. False)"
      by (rule ensures_bindM) simp
    moreover have "in_cache (deref p) s = Ok f s" using f(1) by (simp add: via_def deref_def)
    ultimately show ?thesis
      using False not_null typed(1) row by (simp add: pljvm_process_result_def)
  qed
qed

lemma typed_result_safe_witness:
  "ensures (pljvm_process_result ex_fm ex_cat 7 \<lparr>resmsg = ex_result [[Rawdata False (Some (VInt4 7))]], resrow = 0\<rparr> (ex_server []))
     (\<lambda>_ s'. s' = ex_server []) (\<lambda>_ s'. s' = ex_server []) (\<lambda>_. False)"
proof -
  let ?r = "ex_result [[Rawdata False (Some (VInt4 7))]]"
  let ?w = "world_of 1 [RData (enc_message (MsgResult ?r))] []"
  have msg: "ok_message (MsgResult ?r)" "message_depth (MsgResult ?r) \<le> 1" "deliver_message (MsgResult ?r) = MsgResult ?r"
    by (simp_all add: ex_result_def sent_exception_def ok_column_def ok_row_def ok_cstring_def dt_ok_def dt_of_code_def counts_def
        MaxAllocSize_def depth_all_def)
  have "healthy 1 ?w" "in_stream ?w = enc_message (MsgResult ?r) @ []" by simp_all
  from channel_receive_ok [OF msg(1,2) this] obtain w' where w': "pljvm_channel_receive ?w = Ok (0, Some (MsgResult ?r)) w'"
    unfolding msg(3) by blast
  have "sendable_proc ex_cached" using ex_cached_call [of ex_fm "[]"] by (simp add: cached_call_def)
  moreover have "agree (hd (types ?r)) (rettype ex_cached)"
    by (simp add: ex_result_def ex_cached_def ex_int4_def base_fields_def io_of_oid_def INT4OID_def BOOLOID_def INT2OID_def ex_cat_def)
  moreover have "fits ex_cat (rettype ex_cached)" by (simp add: ex_cached_def ex_int4_def)
  moreover have "sint (cols ?r) = 1" "\<forall>ds \<in> set (rdata ?r). \<forall>d \<in> set ds. marked d" by (simp_all add: ex_result_def)
  ultimately show ?thesis
    using typed_result_safe [OF w', where f = ex_cached and s = "ex_server []" and p = 7 and k = 0 and fm = ex_fm and cat = ex_cat] by simp
qed

end
